(* ===== verification/Prelude.thy ===== *)
theory Prelude
  imports Main "HOL-Library.Word" "HOL-Library.Multiset" "HOL-Library.Char_ord"
    "HOL-Library.List_Lexorder"
begin

text \<open>
  What every component shares: Go's byte strings and the functions of package \<open>strings\<close> and
  \<open>slices\<close> the code calls, its error values (\<open>errors.Join\<close>, \<open>errors.Is\<close>), the results an iterator
  yields, a state-threading map (the model of \<open>iter.Map\<close> with a stateful callback), comparison
  sorting with its correctness locale, the interface of the LRU cache, and a generic induction
  principle for step functions.
\<close>

section \<open>Hint collections\<close>

named_theorems state_simps \<open>how an operation changes each field of its state\<close>
named_theorems frugal_intros \<open>operations that never overspend their budget\<close>
named_theorems env_defs \<open>definitions of the environments used in witnesses\<close>

section \<open>Byte strings\<close>

type_synonym peer_id = string

text \<open>\<open>strings.HasPrefix\<close>, \<open>HasSuffix\<close>, \<open>TrimSuffix\<close> and \<open>CutSuffix\<close>.\<close>

definition hasPrefix :: "string \<Rightarrow> string \<Rightarrow> bool" where
  "hasPrefix s p \<longleftrightarrow> length p \<le> length s \<and> take (length p) s = p"

definition hasSuffix :: "string \<Rightarrow> string \<Rightarrow> bool" where
  "hasSuffix s p \<longleftrightarrow> length p \<le> length s \<and> drop (length s - length p) s = p"

definition cutSuffix :: "string \<Rightarrow> string \<Rightarrow> string \<times> bool" where
  "cutSuffix s p = (if hasSuffix s p then (take (length s - length p) s, True) else (s, False))"

definition trimSuffix :: "string \<Rightarrow> string \<Rightarrow> string" where
  "trimSuffix s p = fst (cutSuffix s p)"

lemma hasSuffix_append [simp]: "hasSuffix (s @ p) p"
  by (simp add: hasSuffix_def)

lemma hasSuffix_iff: "hasSuffix s p \<longleftrightarrow> (\<exists>b. s = b @ p)"
proof
  assume "hasSuffix s p"
  then have "s = take (length s - length p) s @ p"
    by (metis append_take_drop_id hasSuffix_def)
  then show "\<exists>b. s = b @ p" by blast
qed auto

lemma hasPrefix_iff: "hasPrefix s p \<longleftrightarrow> (\<exists>b. s = p @ b)"
proof
  assume "hasPrefix s p"
  then have "s = p @ drop (length p) s"
    by (metis append_take_drop_id hasPrefix_def)
  then show "\<exists>b. s = p @ b" by blast
qed (auto simp: hasPrefix_def)

lemma trimSuffix_append [simp]: "trimSuffix (s @ p) p = s"
  by (simp add: trimSuffix_def cutSuffix_def)

lemma trimSuffix_none [simp]: "\<not> hasSuffix s p \<Longrightarrow> trimSuffix s p = s"
  by (simp add: trimSuffix_def cutSuffix_def)

lemma cutSuffix_append [simp]: "cutSuffix (s @ p) p = (s, True)"
  by (simp add: cutSuffix_def)

text \<open>\<open>strings.Split\<close> on a one-byte separator: never empty, keeps empty fields.\<close>

fun str_Split :: "char \<Rightarrow> string \<Rightarrow> string list" where
  "str_Split c [] = [[]]"
| "str_Split c (x # xs) =
     (if x = c then [] # str_Split c xs
      else (case str_Split c xs of [] \<Rightarrow> [[x]] | w # ws \<Rightarrow> (x # w) # ws))"

lemma str_Split_nonempty [simp]: "str_Split c s \<noteq> []"
  by (induction s) (auto split: list.splits)

lemma str_Split_no_sep: "w \<in> set (str_Split c s) \<Longrightarrow> c \<notin> set w"
  by (induction s arbitrary: w) (auto split: list.splits if_splits)

text \<open>
  \<open>strings.ToLower\<close>: a string of ASCII bytes is folded byte by byte; any other string goes through
  the Unicode tables, which stay a parameter.
\<close>

definition ascii_lower_char :: "char \<Rightarrow> char" where
  "ascii_lower_char c =
     (if of_char c \<ge> (65::nat) \<and> of_char c \<le> (90::nat) then char_of (of_char c + (32::nat)) else c)"

definition is_ascii :: "string \<Rightarrow> bool" where
  "is_ascii s \<longleftrightarrow> (\<forall>c \<in> set s. of_char c < (128::nat))"

definition str_ToLower :: "(string \<Rightarrow> string) \<Rightarrow> string \<Rightarrow> string" where
  "str_ToLower uni s = (if is_ascii s then map ascii_lower_char s else uni s)"

lemma ascii_lower_char_idem [simp]: "ascii_lower_char (ascii_lower_char c) = ascii_lower_char c"
proof (cases "of_char c \<ge> (65::nat) \<and> of_char c \<le> (90::nat)")
  case True
  then have "of_char (char_of (of_char c + (32::nat))) = (of_char c + 32 :: nat)"
    by (simp add: of_char_of take_bit_eq_mod)
  with True show ?thesis by (simp add: ascii_lower_char_def)
next
  case False
  then have "ascii_lower_char c = c" by (auto simp: ascii_lower_char_def)
  then show ?thesis by simp
qed

section \<open>Errors\<close>

text \<open>
  The sentinel errors the code compares against, an error made from a message, an error wrapped
  with \<open>%w\<close>, and what \<open>errors.Join\<close> builds. A Go \<open>error\<close> value that may be nil is an option.
\<close>

datatype go_err =
    ErrNotFound
  | ErrNotSupported
  | ErrCanceled
  | ErrDeadlineExceeded
  | ErrText string
  | ErrWrap string go_err
  | ErrJoin "go_err list"

definition errors_Join :: "go_err option list \<Rightarrow> go_err option" where
  "errors_Join es =
     (let l = List.map_filter id es in if l = [] then None else Some (ErrJoin l))"

fun errors_Is :: "go_err \<Rightarrow> go_err \<Rightarrow> bool" where
  "errors_Is (ErrWrap m e) t = (ErrWrap m e = t \<or> errors_Is e t)"
| "errors_Is (ErrJoin es) t = (ErrJoin es = t \<or> list_ex (\<lambda>e. errors_Is e t) es)"
| "errors_Is e t = (e = t)"

text \<open>The plain errors an error value is made of: what is left once joins are flattened.\<close>

fun err_leaves :: "go_err \<Rightarrow> go_err list" where
  "err_leaves (ErrJoin es) = concat (map err_leaves es)"
| "err_leaves e = [e]"

definition leaves_opt :: "go_err option \<Rightarrow> go_err list" where
  "leaves_opt e = (case e of None \<Rightarrow> [] | Some x \<Rightarrow> err_leaves x)"

lemma map_filter_id_nil: "List.map_filter id es = [] \<longleftrightarrow> (\<forall>e \<in> set es. e = None)"
  by (induction es) (auto simp: List.map_filter_simps split: option.splits)

lemma errors_Join_None [simp]: "errors_Join es = None \<longleftrightarrow> (\<forall>e \<in> set es. e = None)"
  by (auto simp: errors_Join_def Let_def map_filter_id_nil)

lemma leaves_errors_Join: "leaves_opt (errors_Join es) = concat (map leaves_opt es)"
proof -
  have "concat (map err_leaves (List.map_filter id es)) = concat (map leaves_opt es)"
    by (induction es) (auto simp: List.map_filter_simps leaves_opt_def split: option.splits)
  then show ?thesis
    by (auto simp: errors_Join_def Let_def leaves_opt_def map_filter_id_nil split: option.splits)
qed

section \<open>Iterator results\<close>

text \<open>
  \<open>iter.Result[T]\<close>: a value that may be nil and an error that may be nil. An iterator is the list
  of the results it yields.
\<close>

record 'a result =
  Val :: "'a option"
  Err :: "go_err option"

definition ok_result :: "'a \<Rightarrow> 'a result" where
  "ok_result x = \<lparr>Val = Some x, Err = None\<rparr>"

definition err_result :: "go_err \<Rightarrow> 'a result" where
  "err_result e = \<lparr>Val = None, Err = Some e\<rparr>"

lemma result_sel [simp]:
  "Val (ok_result x) = Some x" "Err (ok_result x) = None"
  "Val (err_result e) = None" "Err (err_result e) = Some e"
  by (simp_all add: ok_result_def err_result_def)

text \<open>
  \<open>iter.Map(it, f)\<close> where \<open>f\<close> reads and writes state: the results in order, the state threaded
  from one to the next. A client that stops after \<open>n\<close> results has run \<open>f\<close> on the first \<open>n\<close>.
\<close>

fun map_state :: "('a \<Rightarrow> 's \<Rightarrow> 'b \<times> 's) \<Rightarrow> 'a list \<Rightarrow> 's \<Rightarrow> 'b list \<times> 's" where
  "map_state f [] s = ([], s)"
| "map_state f (x # xs) s =
     (let (y, s1) = f x s; (ys, s2) = map_state f xs s1 in (y # ys, s2))"

lemma length_map_state [simp]: "length (fst (map_state f xs s)) = length xs"
  by (induction xs arbitrary: s) (auto simp: case_prod_beta Let_def)

lemma map_state_take: "fst (map_state f (take n xs) s) = take n (fst (map_state f xs s))"
  by (induction xs arbitrary: n s) (auto simp: case_prod_beta Let_def take_Cons split: nat.splits)

lemma map_state_all2:
  assumes "\<And>x s. x \<in> set xs \<Longrightarrow> R x (fst (f x s))"
  shows "list_all2 R xs (fst (map_state f xs s))"
  using assms by (induction xs arbitrary: s) (auto simp: case_prod_beta Let_def)

lemma map_state_rel:
  assumes refl: "\<And>s. R s s" and trans: "\<And>a b c. R a b \<Longrightarrow> R b c \<Longrightarrow> R a c"
    and step: "\<And>x s. x \<in> set xs \<Longrightarrow> R s (snd (f x s))"
  shows "R s (snd (map_state f xs s))"
  using step
proof (induction xs arbitrary: s)
  case Nil
  then show ?case by (simp add: refl)
next
  case (Cons x xs)
  have "R s (snd (f x s))" by (simp add: Cons.prems)
  moreover have "R (snd (f x s)) (snd (map_state f xs (snd (f x s))))"
    using Cons.prems by (intro Cons.IH) simp
  ultimately show ?case by (auto simp: case_prod_beta Let_def intro: trans)
qed

section \<open>Sorting by a comparison function\<close>

text \<open>
  \<open>slices.SortFunc(b, cmp)\<close>. The library's algorithm is not stable, so the only promise is an
  ordered rearrangement; \<open>sort_unique\<close> below shows that, where elements that compare equal are
  equal, every such rearrangement is the one computed here.
\<close>

fun insert_by :: "('a \<Rightarrow> 'a \<Rightarrow> int) \<Rightarrow> 'a \<Rightarrow> 'a list \<Rightarrow> 'a list" where
  "insert_by cmp x [] = [x]"
| "insert_by cmp x (y # ys) = (if cmp x y \<le> 0 then x # y # ys else y # insert_by cmp x ys)"

definition sort_func :: "('a \<Rightarrow> 'a \<Rightarrow> int) \<Rightarrow> 'a list \<Rightarrow> 'a list" where
  "sort_func cmp xs = foldr (insert_by cmp) xs []"

definition ordered_by :: "('a \<Rightarrow> 'a \<Rightarrow> int) \<Rightarrow> 'a list \<Rightarrow> bool" where
  "ordered_by cmp xs \<longleftrightarrow> sorted_wrt (\<lambda>x y. cmp x y \<le> 0) xs"

lemma mset_insert_by [simp]: "mset (insert_by cmp x xs) = add_mset x (mset xs)"
  by (induction xs) auto

lemma set_insert_by [simp]: "set (insert_by cmp x xs) = insert x (set xs)"
  by (induction xs) auto

lemma mset_sort_func [simp]: "mset (sort_func cmp xs) = mset xs"
  by (induction xs) (auto simp: sort_func_def)

lemma set_sort_func [simp]: "set (sort_func cmp xs) = set xs"
  by (metis mset_sort_func set_mset_mset)

lemma length_sort_func [simp]: "length (sort_func cmp xs) = length xs"
  by (metis mset_sort_func size_mset)

lemma sort_func_Nil [simp]: "sort_func cmp [] = []"
  by (simp add: sort_func_def)

text \<open>What \<open>SortFunc\<close> asks of its comparison: a total preorder.\<close>

locale comparator =
  fixes cmp :: "'a \<Rightarrow> 'a \<Rightarrow> int"
  assumes total: "cmp x y \<le> 0 \<or> cmp y x \<le> 0"
    and trans: "cmp x y \<le> 0 \<Longrightarrow> cmp y z \<le> 0 \<Longrightarrow> cmp x z \<le> 0"
begin

lemma ordered_insert_by: "ordered_by cmp xs \<Longrightarrow> ordered_by cmp (insert_by cmp x xs)"
proof (induction xs)
  case Nil
  then show ?case by (simp add: ordered_by_def)
next
  case (Cons y ys)
  show ?case
  proof (cases "cmp x y \<le> 0")
    case True
    with Cons.prems show ?thesis by (auto simp: ordered_by_def intro: trans)
  next
    case False
    then have "cmp y x \<le> 0" using total by blast
    with Cons False show ?thesis by (auto simp: ordered_by_def)
  qed
qed

lemma ordered_sort_func: "ordered_by cmp (sort_func cmp xs)"
  by (induction xs) (auto simp: sort_func_def ordered_by_def intro: ordered_insert_by[unfolded ordered_by_def])

lemma sort_unique:
  assumes "mset ys = mset xs" and "ordered_by cmp xs" and "ordered_by cmp ys"
    and "\<And>x y. x \<in> set xs \<Longrightarrow> y \<in> set xs \<Longrightarrow> cmp x y \<le> 0 \<Longrightarrow> cmp y x \<le> 0 \<Longrightarrow> x = y"
  shows "ys = xs"
  using assms
proof (induction xs arbitrary: ys)
  case Nil
  then show ?case by simp
next
  case (Cons x xs)
  obtain y zs where ys: "ys = y # zs"
    using Cons.prems(1) by (cases ys) auto
  have mem: "y \<in> set (x # xs)" "x \<in> set (y # zs)"
    using Cons.prems(1) ys by (metis list.set_intros(1) set_mset_mset)+
  have "x = y"
  proof (rule ccontr)
    assume "x \<noteq> y"
    with mem have "y \<in> set xs" "x \<in> set zs" by auto
    with Cons.prems(2,3) ys have "cmp x y \<le> 0" "cmp y x \<le> 0" by (auto simp: ordered_by_def)
    with Cons.prems(4) mem \<open>x \<noteq> y\<close> show False by auto
  qed
  moreover have "zs = xs"
  proof (rule Cons.IH)
    show "mset zs = mset xs" using Cons.prems(1) ys \<open>x = y\<close> by simp
    show "ordered_by cmp xs" "ordered_by cmp zs"
      using Cons.prems(2,3) ys by (auto simp: ordered_by_def)
    show "a = b" if "a \<in> set xs" "b \<in> set xs" "cmp a b \<le> 0" "cmp b a \<le> 0" for a b
      using Cons.prems(4) that by simp
  qed
  ultimately show ?case using ys by simp
qed

lemma sort_func_unique:
  assumes "mset ys = mset xs" and "ordered_by cmp ys"
    and "\<And>x y. x \<in> set xs \<Longrightarrow> y \<in> set xs \<Longrightarrow> cmp x y \<le> 0 \<Longrightarrow> cmp y x \<le> 0 \<Longrightarrow> x = y"
  shows "ys = sort_func cmp xs"
  using assms by (intro sort_unique) (auto simp: ordered_sort_func)

end

text \<open>\<open>bytes.Compare\<close>: lexicographic on unsigned bytes.\<close>

type_synonym bytes = "8 word list"

definition bytes_Compare :: "bytes \<Rightarrow> bytes \<Rightarrow> int" where
  "bytes_Compare a b = (if a < b then -1 else if a = b then 0 else 1)"

lemma bytes_Compare_le: "bytes_Compare a b \<le> 0 \<longleftrightarrow> a \<le> b"
  by (auto simp: bytes_Compare_def)

section \<open>The LRU cache\<close>

text \<open>
  \<open>hashicorp/golang-lru\<close>: its operations are parameters. \<open>lru_lawful\<close> states the documented
  behaviour the code relies on: a key just added is found, adding may evict other keys but never
  changes them, reading never changes what is stored.
\<close>

record ('c, 'k, 'v) lru_lib =
  lru_Get :: "'c \<Rightarrow> 'k \<Rightarrow> 'v option \<times> 'c"
  lru_Peek :: "'c \<Rightarrow> 'k \<Rightarrow> 'v option"
  lru_Add :: "'c \<Rightarrow> 'k \<Rightarrow> 'v \<Rightarrow> 'c"
  lru_Remove :: "'c \<Rightarrow> 'k \<Rightarrow> 'c"
  lru_Len :: "'c \<Rightarrow> nat"

definition lru_lawful :: "('c, 'k, 'v) lru_lib \<Rightarrow> bool" where
  "lru_lawful L \<longleftrightarrow>
     (\<forall>c k. fst (lru_Get L c k) = lru_Peek L c k) \<and>
     (\<forall>c k k'. lru_Peek L (snd (lru_Get L c k)) k' = lru_Peek L c k') \<and>
     (\<forall>c k v. lru_Peek L (lru_Add L c k v) k = Some v) \<and>
     (\<forall>c k v k'. k' \<noteq> k \<longrightarrow>
        lru_Peek L (lru_Add L c k v) k' = lru_Peek L c k' \<or> lru_Peek L (lru_Add L c k v) k' = None) \<and>
     (\<forall>c k. lru_Peek L (lru_Remove L c k) k = None) \<and>
     (\<forall>c k k'. k' \<noteq> k \<longrightarrow> lru_Peek L (lru_Remove L c k) k' = lru_Peek L c k')"

lemma lru_lawfulD:
  assumes "lru_lawful L"
  shows lru_Get_fst: "fst (lru_Get L c k) = lru_Peek L c k"
    and lru_Get_snd: "lru_Peek L (snd (lru_Get L c k)) k' = lru_Peek L c k'"
    and lru_Peek_Add: "lru_Peek L (lru_Add L c k v) k = Some v"
    and lru_Peek_Remove: "lru_Peek L (lru_Remove L c k) k = None"
    and lru_Peek_Remove_other: "k' \<noteq> k \<Longrightarrow> lru_Peek L (lru_Remove L c k) k' = lru_Peek L c k'"
  using assms by (auto simp: lru_lawful_def)

lemma lru_Peek_Add_other:
  "lru_lawful L \<Longrightarrow> k' \<noteq> k \<Longrightarrow> lru_Peek L (lru_Add L c k v) k' = Some w \<Longrightarrow> lru_Peek L c k' = Some w"
  unfolding lru_lawful_def by (metis option.distinct(1))

text \<open>A cache that never fills: the instance the witnesses use.\<close>

definition map_lru :: "('k \<rightharpoonup> 'v, 'k, 'v) lru_lib" where [env_defs]:
  "map_lru = \<lparr>lru_Get = (\<lambda>c k. (c k, c)), lru_Peek = (\<lambda>c. c), lru_Add = (\<lambda>c k v. c(k \<mapsto> v)),
     lru_Remove = (\<lambda>c k. c(k := None)), lru_Len = (\<lambda>c. 0)\<rparr>"

lemma lru_lawful_map_lru [simp]: "lru_lawful map_lru"
  by (simp add: lru_lawful_def map_lru_def)

section \<open>Counting the threads in a state\<close>

definition count_if :: "('a \<Rightarrow> bool) \<Rightarrow> 'a list \<Rightarrow> nat" where
  "count_if P xs = length (filter P xs)"

lemma count_if_simps [simp]:
  "count_if P [] = 0" "count_if P (x # xs) = of_bool (P x) + count_if P xs"
  "count_if P (xs @ ys) = count_if P xs + count_if P ys"
  by (simp_all add: count_if_def)

lemma count_if_update:
  "i < length xs \<Longrightarrow> count_if P (xs[i := x]) + of_bool (P (xs ! i)) = count_if P xs + of_bool (P x)"
proof (induction xs arbitrary: i)
  case Nil
  then show ?case by simp
next
  case (Cons y ys)
  then show ?case using Cons.IH[of "i - 1"] by (cases i) auto
qed

lemma count_if_pos: "i < length xs \<Longrightarrow> P (xs ! i) \<Longrightarrow> 0 < count_if P xs"
  by (auto simp: count_if_def filter_empty_conv intro: nth_mem bexI[of _ "xs ! i"])

text \<open>Replacing an element by one of less weight.\<close>

lemma sum_list_update_less:
  fixes f :: "'a \<Rightarrow> nat"
  shows "i < length xs \<Longrightarrow> f x < f (xs ! i) \<Longrightarrow> sum_list (map f (xs[i := x])) < sum_list (map f xs)"
proof (induction xs arbitrary: i)
  case Nil
  then show ?case by simp
next
  case (Cons y ys)
  then show ?case using Cons.IH[of "i - 1"] by (cases i) auto
qed

section \<open>Step functions and reachable states\<close>

text \<open>
  A concurrent component is a step function that takes an action of one of its threads and returns
  the next state, or \<open>None\<close> where the action is not enabled; the order of the actions is arbitrary.
\<close>

fun run_steps :: "('s \<Rightarrow> 'a \<Rightarrow> 's option) \<Rightarrow> 's \<Rightarrow> 'a list \<Rightarrow> 's option" where
  "run_steps step s [] = Some s"
| "run_steps step s (a # as) = (case step s a of None \<Rightarrow> None | Some s1 \<Rightarrow> run_steps step s1 as)"

locale step_invariant =
  fixes step :: "'s \<Rightarrow> 'a \<Rightarrow> 's option" and inv :: "'s \<Rightarrow> bool"
  assumes inv_step: "inv s \<Longrightarrow> step s a = Some s' \<Longrightarrow> inv s'"
begin

lemma inv_run: "inv s \<Longrightarrow> run_steps step s as = Some s' \<Longrightarrow> inv s'"
  by (induction as arbitrary: s) (auto split: option.splits dest: inv_step)

end

lemma run_steps_append:
  "run_steps step s (as @ bs) =
     (case run_steps step s as of None \<Rightarrow> None | Some s1 \<Rightarrow> run_steps step s1 bs)"
  by (induction as arbitrary: s) (auto split: option.splits)

text \<open>An invariant of the steps whose action is admitted.\<close>

lemma run_steps_guarded:
  assumes "\<And>s a s'. I s \<Longrightarrow> ok a \<Longrightarrow> step s a = Some s' \<Longrightarrow> I s'"
  shows "I s \<Longrightarrow> list_all ok as \<Longrightarrow> run_steps step s as = Some s' \<Longrightarrow> I s'"
  by (induction as arbitrary: s) (auto split: option.splits dest: assms)

end
