(* ===== verification/Multiaddr.thy ===== *)
theory Multiaddr
  imports Prelude
begin

text \<open>
  Addresses and their order: \<open>isRelayAddr\<close> and \<open>splitRelayAddrs\<close> of cached_addr_book.go,
  \<open>addrSortRank\<close>, \<open>compareAddrs\<close>, \<open>sortedAddrs\<close> and \<open>filterPrivateMultiaddr\<close> of
  server_routers.go, and the helpers of dnsaddr.go that take an address apart. The multiaddr library
  is a record of parameters, so every lemma holds for any implementation of it; the few that need
  one of its documented laws name the law.
\<close>

section \<open>The multiaddr library\<close>

text \<open>The protocols the code tells apart; any other is \<open>P_OTHER\<close> with its registry code.\<close>

datatype proto = P_IP4 | P_IP6 | P_DNS | P_DNS4 | P_DNS6 | P_DNSADDR | P_CIRCUIT | P_P2P | P_OTHER nat

type_synonym component = "proto \<times> string"

record 'ma malib =
  ma_IsNil :: "'ma \<Rightarrow> bool"
  ma_Len :: "'ma \<Rightarrow> nat"
  ma_Protocols :: "'ma \<Rightarrow> proto list"
  ma_ValueForProtocol :: "'ma \<Rightarrow> proto \<Rightarrow> string option"
  ma_SplitFirst :: "'ma \<Rightarrow> component option \<times> 'ma"
  ma_SplitLast :: "'ma \<Rightarrow> 'ma \<times> component option"
  ma_Bytes :: "'ma \<Rightarrow> bytes"
  ma_String :: "'ma \<Rightarrow> string"
  manet_IsPrivateAddr :: "'ma \<Rightarrow> bool"
  manet_IsPublicAddr :: "'ma \<Rightarrow> bool"
  peer_Decode :: "string \<Rightarrow> peer_id option"

text \<open>
  The reference library of the witnesses: an address is the list of its components, private when
  its first value starts with \<open>10.\<close> (as RFC 1918 has it), a peer ID is its own text form.
\<close>

type_synonym comps = "component list"

definition sample_private :: "comps \<Rightarrow> bool" where [env_defs]:
  "sample_private a = (case a of [] \<Rightarrow> False | c # _ \<Rightarrow> hasPrefix (snd c) ''10.'')"

fun proto_code :: "proto \<Rightarrow> nat" where
  "proto_code P_IP4 = 4" | "proto_code P_IP6 = 41" | "proto_code P_DNS = 53"
| "proto_code P_DNS4 = 54" | "proto_code P_DNS6 = 55" | "proto_code P_DNSADDR = 56"
| "proto_code P_CIRCUIT = 290" | "proto_code P_P2P = 421" | "proto_code (P_OTHER n) = n"

definition sample_bytes :: "comps \<Rightarrow> bytes" where [env_defs]:
  "sample_bytes a = concat (map (\<lambda>c. word_of_nat (proto_code (fst c)) # map (\<lambda>x. word_of_nat (of_char x)) (snd c)) a)"

definition sample_string :: "comps \<Rightarrow> string" where [env_defs]:
  "sample_string a = concat (map (\<lambda>c. CHR ''/'' # char_of (proto_code (fst c)) # CHR ''/'' # snd c) a)"

definition sample_lib :: "comps malib" where [env_defs]:
  "sample_lib = \<lparr>
     ma_IsNil = (\<lambda>a. a = []),
     ma_Len = length,
     ma_Protocols = map fst,
     ma_ValueForProtocol = (\<lambda>a p. map_option snd (List.find (\<lambda>c. fst c = p) a)),
     ma_SplitFirst = (\<lambda>a. case a of [] \<Rightarrow> (None, []) | c # r \<Rightarrow> (Some c, r)),
     ma_SplitLast = (\<lambda>a. if a = [] then ([], None) else (butlast a, Some (last a))),
     ma_Bytes = sample_bytes,
     ma_String = sample_string,
     manet_IsPrivateAddr = sample_private,
     manet_IsPublicAddr = (\<lambda>a. \<not> sample_private a),
     peer_Decode = (\<lambda>s. if s = [] then None else Some s)\<rparr>"

section \<open>Relay addresses\<close>

definition isRelayAddr :: "'ma malib \<Rightarrow> 'ma \<Rightarrow> bool" where
  "isRelayAddr M a \<longleftrightarrow> ma_ValueForProtocol M a P_CIRCUIT \<noteq> None"

fun splitRelayAddrs :: "'ma malib \<Rightarrow> 'ma list \<Rightarrow> 'ma list \<times> 'ma list" where
  "splitRelayAddrs M [] = ([], [])"
| "splitRelayAddrs M (a # as) =
     (let (direct, relay) = splitRelayAddrs M as
      in if isRelayAddr M a then (direct, a # relay) else (a # direct, relay))"

lemma splitRelayAddrs_eq:
  "splitRelayAddrs M as = (filter (\<lambda>a. \<not> isRelayAddr M a) as, filter (isRelayAddr M) as)"
  by (induction as) auto

section \<open>The order of addresses in a response\<close>

definition addrSortRank :: "'ma malib \<Rightarrow> 'ma \<Rightarrow> int" where
  "addrSortRank M addr =
     (if isRelayAddr M addr then 4
      else case ma_Protocols M addr of
             [] \<Rightarrow> 3
           | p # _ \<Rightarrow>
               (case p of
                  P_IP4 \<Rightarrow> 0 | P_IP6 \<Rightarrow> 0
                | P_DNS \<Rightarrow> 1 | P_DNS4 \<Rightarrow> 1 | P_DNS6 \<Rightarrow> 1
                | P_DNSADDR \<Rightarrow> 2
                | _ \<Rightarrow> 3))"

definition compareAddrs :: "'ma malib \<Rightarrow> 'ma \<Rightarrow> 'ma \<Rightarrow> int" where
  "compareAddrs M x y =
     (let d = addrSortRank M x - addrSortRank M y
      in if d \<noteq> 0 then d else bytes_Compare (ma_Bytes M x) (ma_Bytes M y))"

definition sortedAddrs :: "'ma malib \<Rightarrow> 'ma list \<Rightarrow> 'ma list" where
  "sortedAddrs M addrs = sort_func (compareAddrs M) addrs"

definition filterPrivateMultiaddr :: "'ma malib \<Rightarrow> 'ma list \<Rightarrow> 'ma list" where
  "filterPrivateMultiaddr M a =
     sort_func (compareAddrs M) (filter (\<lambda>addr. \<not> manet_IsPrivateAddr M addr) a)"

text \<open>
  The comparison is lexicographic on rank and bytes, which is what \<open>SortFunc\<close> needs of it whatever
  the library does.
\<close>

lemma compareAddrs_le:
  "compareAddrs M x y \<le> 0 \<longleftrightarrow>
     addrSortRank M x < addrSortRank M y \<or>
     addrSortRank M x = addrSortRank M y \<and> ma_Bytes M x \<le> ma_Bytes M y"
  by (auto simp: compareAddrs_def Let_def bytes_Compare_le)

interpretation addr_order: comparator "compareAddrs M" for M :: "'ma malib"
  by unfold_locales (auto simp: compareAddrs_le)

abbreviation addrs_ordered :: "'ma malib \<Rightarrow> 'ma list \<Rightarrow> bool" where
  "addrs_ordered M \<equiv> ordered_by (compareAddrs M)"

lemma ordered_sortedAddrs [simp]: "addrs_ordered M (sortedAddrs M as)"
  by (simp add: sortedAddrs_def addr_order.ordered_sort_func)

lemma ordered_filterPrivate [simp]: "addrs_ordered M (filterPrivateMultiaddr M as)"
  by (simp add: filterPrivateMultiaddr_def addr_order.ordered_sort_func)

lemma set_sortedAddrs [simp]: "set (sortedAddrs M as) = set as"
  by (simp add: sortedAddrs_def)

lemma mset_sortedAddrs [simp]: "mset (sortedAddrs M as) = mset as"
  by (simp add: sortedAddrs_def)

lemma length_sortedAddrs [simp]: "length (sortedAddrs M as) = length as"
  by (simp add: sortedAddrs_def)

lemma set_filterPrivate [simp]:
  "set (filterPrivateMultiaddr M as) = {a \<in> set as. \<not> manet_IsPrivateAddr M a}"
  by (simp add: filterPrivateMultiaddr_def)

lemma mset_filterPrivate:
  "mset (filterPrivateMultiaddr M as) = {#a \<in># mset as. \<not> manet_IsPrivateAddr M a#}"
  by (simp add: filterPrivateMultiaddr_def)

lemma length_filterPrivate_le: "length (filterPrivateMultiaddr M as) \<le> length as"
  by (simp add: filterPrivateMultiaddr_def)

lemma ordered_ranks: "addrs_ordered M xs \<Longrightarrow> sorted (map (addrSortRank M) xs)"
  by (induction xs) (auto simp: ordered_by_def compareAddrs_le)

text \<open>In an ordered list the relays are a suffix.\<close>

lemma addrSortRank_relay: "addrSortRank M a = 4 \<longleftrightarrow> isRelayAddr M a"
  by (auto simp: addrSortRank_def split: list.splits proto.splits)

lemma addrSortRank_le: "addrSortRank M a \<le> 4"
  by (auto simp: addrSortRank_def split: list.splits proto.splits)

lemma sorted_partition:
  fixes f :: "'a \<Rightarrow> int"
  assumes "sorted (map f xs)" and "\<And>x. x \<in> set xs \<Longrightarrow> f x \<le> m"
  shows "xs = filter (\<lambda>x. f x \<noteq> m) xs @ filter (\<lambda>x. f x = m) xs"
  using assms
proof (induction xs)
  case Nil
  then show ?case by simp
next
  case (Cons x xs)
  show ?case
  proof (cases "f x = m")
    case True
    with Cons.prems have "\<forall>y \<in> set xs. f y = m" by fastforce
    then have "filter (\<lambda>x. f x \<noteq> m) xs = []" "filter (\<lambda>x. f x = m) xs = xs"
      by (auto simp: filter_empty_conv filter_id_conv)
    with True show ?thesis by simp
  next
    case False
    with Cons show ?thesis by simp
  qed
qed

lemma ordered_relays_last:
  assumes "addrs_ordered M xs"
  shows "xs = filter (\<lambda>a. \<not> isRelayAddr M a) xs @ filter (isRelayAddr M) xs"
  using sorted_partition[OF ordered_ranks[OF assms] addrSortRank_le]
  by (simp add: addrSortRank_relay)

section \<open>Taking an address apart\<close>

definition splitPeerID :: "'ma malib \<Rightarrow> 'ma \<Rightarrow> peer_id \<times> 'ma" where
  "splitPeerID M addr =
     (let (rest, last) = ma_SplitLast M addr
      in (case last of
            None \<Rightarrow> ([], addr)
          | Some (code, value) \<Rightarrow>
              if code \<noteq> P_P2P then ([], addr)
              else (case peer_Decode M value of
                      None \<Rightarrow> ([], rest)
                    | Some i \<Rightarrow> (i, rest))))"

fun is_dnsaddr_proto :: "proto list \<Rightarrow> bool" where
  "is_dnsaddr_proto [] = False"
| "is_dnsaddr_proto (p # ps) = (if p = P_DNSADDR then True else is_dnsaddr_proto ps)"

definition isDNSAddr :: "'ma malib \<Rightarrow> 'ma \<Rightarrow> bool" where
  "isDNSAddr M addr = is_dnsaddr_proto (ma_Protocols M addr)"

fun containsDNSAddr :: "'ma malib \<Rightarrow> 'ma list \<Rightarrow> bool" where
  "containsDNSAddr M [] = False"
| "containsDNSAddr M (a # as) =
     (if \<not> ma_IsNil M a \<and> isDNSAddr M a then True else containsDNSAddr M as)"

definition resolvableDNSAddr :: "'ma malib \<Rightarrow> 'ma \<Rightarrow> bool" where
  "resolvableDNSAddr M addr =
     (let protos = ma_Protocols M addr in length protos = 1 \<and> protos ! 0 = P_DNSADDR)"

lemma is_dnsaddr_proto_iff: "is_dnsaddr_proto ps \<longleftrightarrow> P_DNSADDR \<in> set ps"
  by (induction ps) auto

lemma isDNSAddr_iff: "isDNSAddr M a \<longleftrightarrow> P_DNSADDR \<in> set (ma_Protocols M a)"
  by (simp add: isDNSAddr_def is_dnsaddr_proto_iff)

lemma containsDNSAddr_iff:
  "containsDNSAddr M as \<longleftrightarrow> (\<exists>a \<in> set as. \<not> ma_IsNil M a \<and> isDNSAddr M a)"
  by (induction as) auto

lemma resolvableDNSAddr_isDNSAddr: "resolvableDNSAddr M a \<Longrightarrow> isDNSAddr M a"
  by (auto simp: resolvableDNSAddr_def Let_def isDNSAddr_iff in_set_conv_nth)

text \<open>
  \<open>appendUnique(&out, seen, addr)\<close>: \<open>out\<close> and \<open>seen\<close> are the caller's, passed and returned.
\<close>

definition appendUnique ::
  "'ma malib \<Rightarrow> 'ma list \<Rightarrow> string set \<Rightarrow> 'ma \<Rightarrow> bool \<times> 'ma list \<times> string set" where
  "appendUnique M out seen addr =
     (if ma_Len M addr = 0 then (False, out, seen)
      else let k = ma_String M addr
           in if k \<in> seen then (False, out, seen)
              else (True, out @ [addr], insert k seen))"

lemma appendUnique_simps [simp]:
  "fst (snd (appendUnique M out seen a)) =
     (if ma_Len M a = 0 \<or> ma_String M a \<in> seen then out else out @ [a])"
  "snd (snd (appendUnique M out seen a)) =
     (if ma_Len M a = 0 \<or> ma_String M a \<in> seen then seen else insert (ma_String M a) seen)"
  by (auto simp: appendUnique_def Let_def)

section \<open>Properties\<close>

text \<open>
  What \<open>filterPrivateMultiaddr\<close> returns, for any address library and any input: exactly the
  addresses that are not private, each as often as it came in, in non-decreasing dialling rank, the
  direct ones all before the relayed ones.
\<close>

theorem filterPrivateMultiaddr_spec:
  "mset (filterPrivateMultiaddr M as) = {#a \<in># mset as. \<not> manet_IsPrivateAddr M a#} \<and>
   sorted (map (addrSortRank M) (filterPrivateMultiaddr M as)) \<and>
   (\<exists>direct relay. filterPrivateMultiaddr M as = direct @ relay \<and>
      \<not> list_ex (isRelayAddr M) direct \<and> list_all (isRelayAddr M) relay)"
proof (intro conjI)
  show "\<exists>direct relay. filterPrivateMultiaddr M as = direct @ relay \<and>
      \<not> list_ex (isRelayAddr M) direct \<and> list_all (isRelayAddr M) relay"
    by (rule exI, rule exI, rule conjI, rule ordered_relays_last[OF ordered_filterPrivate])
      (auto simp: list_ex_iff list_all_iff)
qed (simp_all add: mset_filterPrivate ordered_ranks)

text \<open>
  The order on what the comparison reads of an address: two addresses of the same rank and the same bytes
  compare equal, and what is read decides.
\<close>

definition compareKeys :: "int \<times> bytes \<Rightarrow> int \<times> bytes \<Rightarrow> int" where
  "compareKeys x y = (if fst x \<noteq> fst y then fst x - fst y else bytes_Compare (snd x) (snd y))"

interpretation key_order: comparator compareKeys
  by unfold_locales (auto simp: compareKeys_def bytes_Compare_le split: if_splits)

lemma keys_unique:
  assumes "mset (map (\<lambda>a. (addrSortRank M a, ma_Bytes M a)) ys) = mset (map (\<lambda>a. (addrSortRank M a, ma_Bytes M a)) xs)"
    and "addrs_ordered M xs" "addrs_ordered M ys"
  shows "map (ma_Bytes M) ys = map (ma_Bytes M) xs"
proof -
  have cmp: "compareAddrs M x y = compareKeys (addrSortRank M x, ma_Bytes M x) (addrSortRank M y, ma_Bytes M y)" for x y
    by (simp add: compareAddrs_def compareKeys_def Let_def)
  have "map (\<lambda>a. (addrSortRank M a, ma_Bytes M a)) ys = map (\<lambda>a. (addrSortRank M a, ma_Bytes M a)) xs"
    using assms by (intro key_order.sort_unique)
      (auto simp: ordered_by_def sorted_wrt_map cmp compareKeys_def bytes_Compare_le split: if_splits)
  from arg_cong[OF this, of "map snd"] show ?thesis by (simp add: comp_def)
qed

text \<open>
  C37. The order a sanitized or a resolved record shows its addresses in is a function of the addresses
  alone. Whatever order the addresses arrive in and whatever the sorting algorithm does with equal ones,
  an arrangement \<open>ys\<close> by rank, and within a rank by bytes, of the public addresses among \<open>as\<close> shows the
  bytes that \<open>filterPrivateMultiaddr\<close> shows, position by position, and one of all of them those of
  \<open>sortedAddrs\<close>; where the bytes tell the addresses apart, as they do for multiaddrs, it is the very list.
\<close>

theorem address_order_canonical:
  assumes "sorted_wrt (\<lambda>x y. addrSortRank M x < addrSortRank M y \<or>
      addrSortRank M x = addrSortRank M y \<and> ma_Bytes M x \<le> ma_Bytes M y) ys"
  shows "(mset ys = {#a \<in># mset as. \<not> manet_IsPrivateAddr M a#} \<longrightarrow>
      map (ma_Bytes M) ys = map (ma_Bytes M) (filterPrivateMultiaddr M as) \<and>
      (inj_on (ma_Bytes M) (set as) \<longrightarrow> ys = filterPrivateMultiaddr M as)) \<and>
    (mset ys = mset as \<longrightarrow>
      map (ma_Bytes M) ys = map (ma_Bytes M) (sortedAddrs M as) \<and>
      (inj_on (ma_Bytes M) (set as) \<longrightarrow> ys = sortedAddrs M as))"
proof -
  have ordered: "addrs_ordered M ys" using assms by (simp add: ordered_by_def compareAddrs_le)
  have same: "map (ma_Bytes M) ys = map (ma_Bytes M) zs \<and> (inj_on (ma_Bytes M) (set as) \<longrightarrow> ys = zs)"
    if "mset ys = mset zs" "addrs_ordered M zs" "set zs \<subseteq> set as" for zs
  proof -
    have bytes: "map (ma_Bytes M) ys = map (ma_Bytes M) zs"
      using that(1,2) ordered by (intro keys_unique) simp_all
    moreover have "set ys = set zs" using that(1) by (rule mset_eq_setD)
    moreover have "set ys \<union> set zs \<subseteq> set as" using that(3) \<open>set ys = set zs\<close> by simp
    ultimately show ?thesis using map_inj_on[of "ma_Bytes M" ys zs] inj_on_subset by metis
  qed
  have "set (filterPrivateMultiaddr M as) \<subseteq> set as" by auto
  then show ?thesis
    using same[of "filterPrivateMultiaddr M as"] same[of "sortedAddrs M as"] by (simp add: mset_filterPrivate)
qed

definition sample_ip :: comps where [env_defs]: "sample_ip = [(P_IP4, ''1.2.3.4'')]"
definition sample_lan :: comps where [env_defs]: "sample_lan = [(P_IP4, ''10.0.0.1'')]"
definition sample_dns :: comps where [env_defs]: "sample_dns = [(P_DNS4, ''a.io'')]"
definition sample_relay :: comps where [env_defs]: "sample_relay = [(P_IP4, ''5.6.7.8''), (P_CIRCUIT, [])]"

lemma address_order_canonical_witness:
  "[sample_ip, sample_dns, sample_relay] =
     filterPrivateMultiaddr sample_lib [sample_relay, sample_lan, sample_dns, sample_ip]"
proof -
  let ?as = "[sample_relay, sample_lan, sample_dns, sample_ip]"
  have "inj_on (ma_Bytes sample_lib) (set ?as)" by (simp add: env_defs inj_on_def)
  moreover have "mset [sample_ip, sample_dns, sample_relay] = {#a \<in># mset ?as. \<not> manet_IsPrivateAddr sample_lib a#}"
    by (simp add: env_defs hasPrefix_def)
  moreover have "sorted_wrt (\<lambda>x y. addrSortRank sample_lib x < addrSortRank sample_lib y \<or>
      addrSortRank sample_lib x = addrSortRank sample_lib y \<and> ma_Bytes sample_lib x \<le> ma_Bytes sample_lib y)
      [sample_ip, sample_dns, sample_relay]"
    by (simp add: env_defs addrSortRank_def isRelayAddr_def)
  ultimately show ?thesis
    using address_order_canonical[of sample_lib "[sample_ip, sample_dns, sample_relay]" ?as] by blast
qed

end
