(* ===== verification/DnsAddr.thy ===== *)
theory DnsAddr
  imports Multiaddr
begin

text \<open>
  dnsaddr.go: the per-request budget, the cache of resolutions, one lookup, the recursive expansion
  of a \<open>/dnsaddr\<close> and the rewriting of a record's addresses.

  What the code observes of its surroundings is a record of functions of a step counter: the clock,
  whether the request's context is done, the answer of the DNS resolver, the result of a lookup of
  the same name another request has in flight, which arm of a \<open>select\<close> fires, and what other requests
  do to the shared cache meanwhile. Every theorem holds for all of them. The state holds what the
  code changes: the cache, the request's budget and the record's room (both passed as pointers), the
  metrics, and a log of the DNS queries sent.
\<close>

section \<open>Constants, budget and cache entries\<close>

definition second :: int where "second = 1000000000"
definition minute :: int where "minute = 60 * second"

definition DNSAddrRecursionLimit :: nat where "DNSAddrRecursionLimit = 4"
definition DNSAddrCacheTTL :: int where "DNSAddrCacheTTL = 5 * minute"
definition DNSAddrFailureCacheTTL :: int where "DNSAddrFailureCacheTTL = 15 * minute"
definition MaxDNSAddrLookupsPerRequest :: int where "MaxDNSAddrLookupsPerRequest = 16"
definition MaxDNSAddrResolvedPerRecord :: int where "MaxDNSAddrResolvedPerRecord = 100"

datatype dns_metric =
    CacheHit | Resolved | EmptyAnswer | Failed | Throttled
  | Duration int

record dnsAddrBudget =
  lookups :: int

record 'ma dnsAddrCacheEntry =
  ce_addrs :: "'ma list"
  ce_ok :: bool
  ce_expires :: int

record ('c, 'ma) dns_env =
  env_now :: "nat \<Rightarrow> int"
  env_ctx_done :: "nat \<Rightarrow> bool"
  env_flight :: "nat \<Rightarrow> string \<Rightarrow> 'ma dnsAddrCacheEntry option"
  env_gone :: "nat \<Rightarrow> bool"
  env_Resolve :: "nat \<Rightarrow> 'ma \<Rightarrow> go_err + 'ma list"
  env_others :: "nat \<Rightarrow> 'c \<Rightarrow> 'c"

record ('c, 'ma) dns_state =
  ds_cache :: 'c
  ds_budget :: dnsAddrBudget
  ds_room :: int
  ds_queries :: "'ma list"
  ds_metrics :: "dns_metric list"
  ds_tick :: nat

type_synonym ('c, 'ma) dns_lru = "('c, string, 'ma dnsAddrCacheEntry) lru_lib"

definition newDNSAddrBudget :: dnsAddrBudget where
  "newDNSAddrBudget = \<lparr>lookups = MaxDNSAddrLookupsPerRequest\<rparr>"

text \<open>One observation of the surroundings: the next step number, other requests having run.\<close>

definition observe :: "('c, 'ma) dns_env \<Rightarrow> ('c, 'ma) dns_state \<Rightarrow> nat \<times> ('c, 'ma) dns_state" where
  "observe E st =
     (ds_tick st, st\<lparr>ds_tick := Suc (ds_tick st), ds_cache := env_others E (ds_tick st) (ds_cache st)\<rparr>)"

definition inc_metric :: "dns_metric \<Rightarrow> ('c, 'ma) dns_state \<Rightarrow> ('c, 'ma) dns_state" where
  "inc_metric m st = st\<lparr>ds_metrics := ds_metrics st @ [m]\<rparr>"

definition spend :: "('c, 'ma) dns_state \<Rightarrow> bool \<times> ('c, 'ma) dns_state" where
  "spend st =
     (if lookups (ds_budget st) \<le> 0 then (False, inc_metric Throttled st)
      else (True, st\<lparr>ds_budget := \<lparr>lookups = lookups (ds_budget st) - 1\<rparr>\<rparr>))"

section \<open>Cache keys\<close>

definition asciiLower :: "string \<Rightarrow> string" where
  "asciiLower s =
     map (\<lambda>c. if (of_char CHR ''A'' :: nat) \<le> of_char c \<and> of_char c \<le> (of_char CHR ''Z'' :: nat)
              then char_of (of_char c + ((of_char CHR ''a'' :: nat) - of_char CHR ''A'')) else c) s"

definition dnsAddrCacheKey :: "'ma malib \<Rightarrow> 'ma \<Rightarrow> string" where
  "dnsAddrCacheKey M addr =
     (case ma_SplitFirst M addr of
        (None, rest) \<Rightarrow> ma_String M addr
      | (Some (code, value), rest) \<Rightarrow>
          if code \<noteq> P_DNSADDR then ma_String M addr
          else let key = ''/dnsaddr/'' @ trimSuffix (asciiLower value) ''.''
               in if ma_Len M rest > 0 then key @ ma_String M rest else key)"

section \<open>One lookup\<close>

definition resolve ::
  "('c, 'ma) dns_env \<Rightarrow> ('c, 'ma) dns_lru \<Rightarrow> 'ma \<Rightarrow> string \<Rightarrow> ('c, 'ma) dns_state \<Rightarrow>
     'ma dnsAddrCacheEntry \<times> ('c, 'ma) dns_state" where
  "resolve E L addr key st =
     (let (start, st1) = observe E st;
          (tq, st2) = observe E (st1\<lparr>ds_queries := ds_queries st1 @ [addr]\<rparr>);
          answer = env_Resolve E tq addr;
          (tend, st3) = observe E st2;
          st4 = inc_metric (Duration (env_now E tend - env_now E start)) st3;
          (entry, ttl, st5) =
            (case answer of
               Inl err \<Rightarrow>
                 (\<lparr>ce_addrs = [], ce_ok = False, ce_expires = 0\<rparr>,
                  (if \<not> errors_Is err ErrDeadlineExceeded then DNSAddrFailureCacheTTL else DNSAddrCacheTTL),
                  inc_metric Failed st4)
             | Inr resolved \<Rightarrow>
                 (\<lparr>ce_addrs = resolved, ce_ok = True, ce_expires = 0\<rparr>,
                  (if length resolved = 0 then DNSAddrFailureCacheTTL else DNSAddrCacheTTL),
                  inc_metric (if length resolved = 0 then EmptyAnswer else Resolved) st4));
          (tnow, st6) = observe E st5;
          entry1 = entry\<lparr>ce_expires := env_now E tnow + ttl\<rparr>
      in (entry1, st6\<lparr>ds_cache := lru_Add L (ds_cache st6) key entry1\<rparr>))"

text \<open>
  The part of \<open>lookup\<close> after a cache miss: the context check, the budget, the shared flight and the
  \<open>select\<close> between its result and the end of the request. A flight of another request gives its
  result without a query of ours. The query outlives a request that goes away, so the cache is
  updated in either arm.
\<close>

definition lookup_miss ::
  "('c, 'ma) dns_env \<Rightarrow> ('c, 'ma) dns_lru \<Rightarrow> 'ma \<Rightarrow> string \<Rightarrow> ('c, 'ma) dns_state \<Rightarrow>
     ('ma list \<times> bool) \<times> ('c, 'ma) dns_state" where
  "lookup_miss E L addr key st =
     (let (tc, st1) = observe E st
      in if env_ctx_done E tc then (([], False), st1)
         else let (allowed, st2) = spend st1
              in if \<not> allowed then (([], False), st2)
                 else let (tf, st3) = observe E st2;
                          (entry, st4) = (case env_flight E tf key of
                                            Some shared \<Rightarrow> (shared, st3)
                                          | None \<Rightarrow> resolve E L addr key st3);
                          (ts, st5) = observe E st4
                      in if env_gone E ts then (([], False), st5)
                         else ((ce_addrs entry, ce_ok entry), st5))"

definition lookup ::
  "('c, 'ma) dns_env \<Rightarrow> ('c, 'ma) dns_lru \<Rightarrow> 'ma malib \<Rightarrow> 'ma \<Rightarrow> ('c, 'ma) dns_state \<Rightarrow>
     ('ma list \<times> bool) \<times> ('c, 'ma) dns_state" where
  "lookup E L M addr st =
     (let key = dnsAddrCacheKey M addr;
          (found, c) = lru_Get L (ds_cache st) key;
          st1 = st\<lparr>ds_cache := c\<rparr>
      in case found of
           None \<Rightarrow> lookup_miss E L addr key st1
         | Some entry \<Rightarrow>
             let (tn, st2) = observe E st1
             in if env_now E tn < ce_expires entry
                then ((ce_addrs entry, ce_ok entry), inc_metric CacheHit st2)
                else lookup_miss E L addr key st2)"

section \<open>Expansion\<close>

text \<open>
  The loop of \<open>expand\<close> over the results of one lookup, with the recursive call as a parameter; the
  accumulators are the two named results of the function.
\<close>

fun expand_results ::
  "'ma malib \<Rightarrow> peer_id \<Rightarrow> ('ma \<Rightarrow> ('c, 'ma) dns_state \<Rightarrow> ('ma list \<times> bool) \<times> ('c, 'ma) dns_state) \<Rightarrow>
     'ma list \<Rightarrow> 'ma list \<Rightarrow> bool \<Rightarrow> ('c, 'ma) dns_state \<Rightarrow> ('ma list \<times> bool) \<times> ('c, 'ma) dns_state" where
  "expand_results M pid nested [] out complete st = ((out, complete), st)"
| "expand_results M pid nested (r # rs) out complete st =
     (if ds_room st \<le> 0 then ((out, False), st)
      else let (i, rest) = splitPeerID M r
           in if i \<noteq> [] \<and> i \<noteq> pid then expand_results M pid nested rs out complete st
              else if ma_Len M rest = 0 then expand_results M pid nested rs out complete st
              else if isDNSAddr M rest then
                let ((sub, sub_complete), st1) = nested rest st
                in expand_results M pid nested rs (out @ sub) (complete \<and> sub_complete) st1
              else expand_results M pid nested rs (out @ [rest]) complete
                     (st\<lparr>ds_room := ds_room st - 1\<rparr>))"

fun expand ::
  "('c, 'ma) dns_env \<Rightarrow> ('c, 'ma) dns_lru \<Rightarrow> 'ma malib \<Rightarrow> peer_id \<Rightarrow> nat \<Rightarrow> 'ma \<Rightarrow>
     ('c, 'ma) dns_state \<Rightarrow> ('ma list \<times> bool) \<times> ('c, 'ma) dns_state" where
  "expand E L M pid 0 addr st = (([], False), st)"
| "expand E L M pid (Suc depth) addr st =
     (if ds_room st \<le> 0 then (([], False), st)
      else let (tc, st1) = observe E st
           in if env_ctx_done E tc then (([], False), st1)
              else let bare = snd (splitPeerID M addr)
                   in if \<not> resolvableDNSAddr M bare then (([], False), st1)
                      else let ((results, ok), st2) = lookup E L M bare st1
                           in expand_results M pid (expand E L M pid depth) results [] ok st2)"

fun append_all :: "'ma malib \<Rightarrow> 'ma list \<Rightarrow> 'ma list \<times> string set \<Rightarrow> 'ma list \<times> string set" where
  "append_all M [] os = os"
| "append_all M (r # rs) os = append_all M rs (snd (appendUnique M (fst os) (snd os) r))"

fun resolveAddrs_loop ::
  "('c, 'ma) dns_env \<Rightarrow> ('c, 'ma) dns_lru \<Rightarrow> 'ma malib \<Rightarrow> peer_id \<Rightarrow> bool \<Rightarrow> 'ma list \<Rightarrow>
     'ma list \<times> string set \<Rightarrow> ('c, 'ma) dns_state \<Rightarrow> 'ma list \<times> ('c, 'ma) dns_state" where
  "resolveAddrs_loop E L M pid keepOriginal [] os st = (fst os, st)"
| "resolveAddrs_loop E L M pid keepOriginal (addr # addrs) os st =
     (if ma_IsNil M addr \<or> \<not> isDNSAddr M addr then
        resolveAddrs_loop E L M pid keepOriginal addrs (append_all M [addr] os) st
      else if fst (splitPeerID M addr) \<noteq> [] \<and> fst (splitPeerID M addr) \<noteq> pid then
        resolveAddrs_loop E L M pid keepOriginal addrs os st
      else let ((resolved, complete), st1) = expand E L M pid DNSAddrRecursionLimit addr st;
               os1 = append_all M resolved os;
               os2 = (if keepOriginal \<or> \<not> complete \<or> length resolved = 0
                      then append_all M [addr] os1 else os1)
           in resolveAddrs_loop E L M pid keepOriginal addrs os2 st1)"

definition resolveAddrs ::
  "('c, 'ma) dns_env \<Rightarrow> ('c, 'ma) dns_lru \<Rightarrow> 'ma malib \<Rightarrow> peer_id \<Rightarrow> 'ma list \<Rightarrow> bool \<Rightarrow>
     ('c, 'ma) dns_state \<Rightarrow> 'ma list \<times> ('c, 'ma) dns_state" where
  "resolveAddrs E L M pid addrs keepOriginal st =
     (if \<not> containsDNSAddr M addrs then (addrs, st)
      else resolveAddrs_loop E L M pid keepOriginal addrs ([], {})
             (st\<lparr>ds_room := MaxDNSAddrResolvedPerRecord\<rparr>))"

text \<open>
  One iteration of each loop, so that the proofs below see a single recursive call: \<open>visit\<close> is what
  the loop body of \<open>expand\<close> adds for one result, \<open>rewrite_one\<close> what that of \<open>resolveAddrs\<close> does with
  one address.
\<close>

definition skipped :: "'ma malib \<Rightarrow> peer_id \<Rightarrow> 'ma \<Rightarrow> bool" where
  "skipped M pid r \<longleftrightarrow>
     fst (splitPeerID M r) \<noteq> [] \<and> fst (splitPeerID M r) \<noteq> pid \<or> ma_Len M (snd (splitPeerID M r)) = 0"

definition visit ::
  "'ma malib \<Rightarrow> peer_id \<Rightarrow> ('ma \<Rightarrow> ('c, 'ma) dns_state \<Rightarrow> ('ma list \<times> bool) \<times> ('c, 'ma) dns_state) \<Rightarrow>
     'ma \<Rightarrow> ('c, 'ma) dns_state \<Rightarrow> ('ma list \<times> bool) \<times> ('c, 'ma) dns_state" where
  "visit M pid nested r st =
     (if skipped M pid r then (([], True), st)
      else if isDNSAddr M (snd (splitPeerID M r)) then nested (snd (splitPeerID M r)) st
      else (([snd (splitPeerID M r)], True), st\<lparr>ds_room := ds_room st - 1\<rparr>))"

lemma expand_results_Cons:
  "expand_results M pid nested (r # rs) out complete st =
     (if ds_room st \<le> 0 then ((out, False), st)
      else let v = visit M pid nested r st
           in expand_results M pid nested rs (out @ fst (fst v)) (complete \<and> snd (fst v)) (snd v))"
  by (simp add: visit_def skipped_def Let_def case_prod_beta)

definition foreign :: "'ma malib \<Rightarrow> peer_id \<Rightarrow> 'ma \<Rightarrow> bool" where
  "foreign M pid a \<longleftrightarrow> \<not> ma_IsNil M a \<and> isDNSAddr M a \<and>
     fst (splitPeerID M a) \<noteq> [] \<and> fst (splitPeerID M a) \<noteq> pid"

definition rewrite_one ::
  "('c, 'ma) dns_env \<Rightarrow> ('c, 'ma) dns_lru \<Rightarrow> 'ma malib \<Rightarrow> peer_id \<Rightarrow> bool \<Rightarrow> 'ma \<Rightarrow>
     ('c, 'ma) dns_state \<Rightarrow> 'ma list \<times> ('c, 'ma) dns_state" where
  "rewrite_one E L M pid keep addr st =
     (if ma_IsNil M addr \<or> \<not> isDNSAddr M addr then ([addr], st)
      else if foreign M pid addr then ([], st)
      else let x = expand E L M pid DNSAddrRecursionLimit addr st
           in (fst (fst x) @ (if keep \<or> \<not> snd (fst x) \<or> fst (fst x) = [] then [addr] else []), snd x))"

lemma append_all_append: "append_all M (rs @ qs) os = append_all M qs (append_all M rs os)"
  by (induction rs arbitrary: os) auto

lemma resolveAddrs_loop_Cons:
  "resolveAddrs_loop E L M pid keep (addr # addrs) os st =
     (let v = rewrite_one E L M pid keep addr st
      in resolveAddrs_loop E L M pid keep addrs (append_all M (fst v) os) (snd v))"
  by (simp add: rewrite_one_def foreign_def Let_def case_prod_beta append_all_append)

lemma resolveAddrs_loop_eq:
  "resolveAddrs_loop E L M pid keep addrs os st =
     (let v = map_state (rewrite_one E L M pid keep) addrs st
      in (fst (append_all M (concat (fst v)) os), snd v))"
proof (induction addrs arbitrary: os st)
  case Nil
  then show ?case by simp
next
  case (Cons addr addrs)
  show ?case
    unfolding resolveAddrs_loop_Cons Cons.IH
    by (simp add: Let_def case_prod_beta append_all_append)
qed

declare expand_results.simps(2) [simp del] resolveAddrs_loop.simps(2) [simp del]

section \<open>Spending\<close>

text \<open>
  How an operation may move the request's account: the budget only falls, never below zero, and no
  more queries are sent than were paid for.
\<close>

definition paid :: "('c, 'ma) dns_state \<Rightarrow> int" where
  "paid st = lookups (ds_budget st) + int (length (ds_queries st))"

definition frugal :: "('c, 'ma) dns_state \<Rightarrow> ('c, 'ma) dns_state \<Rightarrow> bool" where
  "frugal st st' \<longleftrightarrow>
     lookups (ds_budget st') \<le> lookups (ds_budget st) \<and>
     (0 \<le> lookups (ds_budget st) \<longrightarrow> 0 \<le> lookups (ds_budget st')) \<and>
     paid st' \<le> paid st"

lemma frugal_refl [frugal_intros]: "frugal st st"
  by (simp add: frugal_def)

lemma frugal_trans: "frugal a b \<Longrightarrow> frugal b c \<Longrightarrow> frugal a c"
  by (auto simp: frugal_def)

lemma observe_simps [state_simps]:
  "fst (observe E st) = ds_tick st"
  "ds_budget (snd (observe E st)) = ds_budget st"
  "ds_queries (snd (observe E st)) = ds_queries st"
  "ds_room (snd (observe E st)) = ds_room st"
  "ds_metrics (snd (observe E st)) = ds_metrics st"
  by (simp_all add: observe_def)

lemma inc_metric_simps [state_simps]:
  "ds_budget (inc_metric m st) = ds_budget st"
  "ds_queries (inc_metric m st) = ds_queries st"
  "ds_room (inc_metric m st) = ds_room st"
  "ds_cache (inc_metric m st) = ds_cache st"
  "ds_tick (inc_metric m st) = ds_tick st"
  "ds_metrics (inc_metric m st) = ds_metrics st @ [m]"
  by (simp_all add: inc_metric_def)

lemma spend_simps [state_simps]:
  "fst (spend st) = (0 < lookups (ds_budget st))"
  "ds_queries (snd (spend st)) = ds_queries st"
  "ds_room (snd (spend st)) = ds_room st"
  "lookups (ds_budget (snd (spend st))) =
     (if 0 < lookups (ds_budget st) then lookups (ds_budget st) - 1 else lookups (ds_budget st))"
  by (auto simp: spend_def inc_metric_def)

lemma resolve_simps [state_simps]:
  "ds_budget (snd (resolve E L addr key st)) = ds_budget st"
  "ds_room (snd (resolve E L addr key st)) = ds_room st"
  "ds_queries (snd (resolve E L addr key st)) = ds_queries st @ [addr]"
  by (simp_all add: resolve_def Let_def case_prod_beta state_simps split: sum.split)

text \<open>The entry a query leaves, and the state it leaves it in.\<close>

definition entry_ttl :: "go_err + 'ma list \<Rightarrow> int" where
  "entry_ttl answer =
     (case answer of
        Inl err \<Rightarrow> if errors_Is err ErrDeadlineExceeded then DNSAddrCacheTTL else DNSAddrFailureCacheTTL
      | Inr resolved \<Rightarrow> if resolved = [] then DNSAddrFailureCacheTTL else DNSAddrCacheTTL)"

lemma resolve_entry:
  "fst (resolve E L addr key st) =
     (let answer = env_Resolve E (Suc (ds_tick st)) addr
      in \<lparr>ce_addrs = (case answer of Inl err \<Rightarrow> [] | Inr resolved \<Rightarrow> resolved),
          ce_ok = (case answer of Inl err \<Rightarrow> False | Inr resolved \<Rightarrow> True),
          ce_expires = env_now E (ds_tick st + 3) + entry_ttl answer\<rparr>)"
  by (simp add: resolve_def Let_def case_prod_beta observe_def inc_metric_def entry_ttl_def
      numeral_3_eq_3 split: sum.split)

lemma resolve_state:
  assumes "\<And>s. P s \<Longrightarrow> P (snd (observe E s))" and "\<And>s m. P s \<Longrightarrow> P (inc_metric m s)"
    and "\<And>s qs. P s \<Longrightarrow> P (s\<lparr>ds_queries := qs\<rparr>)" and "P st"
  obtains s where "P s"
    "snd (resolve E L addr key st) = s\<lparr>ds_cache := lru_Add L (ds_cache s) key (fst (resolve E L addr key st))\<rparr>"
proof (cases "env_Resolve E (fst (observe E ((snd (observe E st))\<lparr>ds_queries := ds_queries (snd (observe E st)) @ [addr]\<rparr>))) addr")
  case (Inl err)
  show ?thesis
    by (rule that[rotated], simp add: resolve_def Let_def case_prod_beta Inl, intro assms)
next
  case (Inr resolved)
  show ?thesis
    by (rule that[rotated], simp add: resolve_def Let_def case_prod_beta Inr, intro assms)
qed

lemma lookup_miss_room [state_simps]: "ds_room (snd (lookup_miss E L addr key st)) = ds_room st"
  by (simp add: lookup_miss_def Let_def case_prod_beta state_simps split: option.split)

lemma lookup_room [state_simps]: "ds_room (snd (lookup E L M addr st)) = ds_room st"
  by (simp add: lookup_def Let_def case_prod_beta state_simps split: option.split)

lemma frugal_lookup_miss [frugal_intros]: "frugal st (snd (lookup_miss E L addr key st))"
  by (simp add: lookup_miss_def Let_def case_prod_beta state_simps frugal_def paid_def split: option.split)

lemma frugal_via:
  "frugal st1 st' \<Longrightarrow> ds_budget st1 = ds_budget st \<Longrightarrow> ds_queries st1 = ds_queries st \<Longrightarrow> frugal st st'"
  by (simp add: frugal_def paid_def)

text \<open>
  The two outcomes of \<open>lookup\<close>: the entry of a cache hit, or what \<open>lookup_miss\<close> does from a state
  with the same account.
\<close>

lemma lookup_cases:
  fixes E :: "('c, 'ma) dns_env" and L :: "('c, 'ma) dns_lru"
  obtains (hit) entry c tn where
      "fst (lru_Get L (ds_cache st) (dnsAddrCacheKey M addr)) = Some entry" "env_now E tn < ce_expires entry"
      "lookup E L M addr st = ((ce_addrs entry, ce_ok entry),
         inc_metric CacheHit (st\<lparr>ds_tick := Suc (ds_tick st), ds_cache := c\<rparr>))"
  | (miss) c t where
      "lookup E L M addr st =
         lookup_miss E L addr (dnsAddrCacheKey M addr) (st\<lparr>ds_tick := t, ds_cache := c\<rparr>)"
proof -
  obtain found c where get: "lru_Get L (ds_cache st) (dnsAddrCacheKey M addr) = (found, c)" by force
  have keep: "st\<lparr>ds_tick := ds_tick st, ds_cache := c\<rparr> = st\<lparr>ds_cache := c\<rparr>" by (cases st) simp
  show ?thesis
  proof (cases found)
    case None
    with get show ?thesis by (intro miss[where c = c and t = "ds_tick st", unfolded keep]) (simp add: lookup_def)
  next
    case (Some entry)
    let ?d = "env_others E (ds_tick st) c"
    show ?thesis
    proof (cases "env_now E (ds_tick st) < ce_expires entry")
      case True
      with Some get show ?thesis
        by (intro hit[where entry = entry and tn = "ds_tick st" and c = ?d]) (auto simp: lookup_def observe_def)
    next
      case False
      with Some get show ?thesis
        by (intro miss[where c = ?d and t = "Suc (ds_tick st)"]) (auto simp: lookup_def observe_def)
    qed
  qed
qed

lemma frugal_lookup [frugal_intros]: "frugal st (snd (lookup E L M addr st))"
proof (cases rule: lookup_cases[of L st M addr E])
  case hit
  then show ?thesis by (simp add: frugal_def paid_def state_simps)
next
  case (miss c t)
  show ?thesis
    unfolding miss by (rule frugal_via[OF frugal_lookup_miss]) simp_all
qed

text \<open>The loop is frugal when its recursive call is; so is the expansion, by induction on the depth.\<close>

lemma frugal_visit:
  "(\<And>a st. frugal st (snd (nested a st))) \<Longrightarrow> frugal st (snd (visit M pid nested r st))"
  by (simp add: visit_def frugal_def paid_def)

lemma frugal_expand_results:
  assumes "\<And>a st. frugal st (snd (nested a st))"
  shows "frugal st (snd (expand_results M pid nested rs out complete st))"
proof (induction rs arbitrary: out complete st)
  case Nil
  then show ?case by (simp add: frugal_refl)
next
  case (Cons r rs)
  show ?case
    by (simp add: expand_results_Cons Let_def frugal_refl frugal_trans[OF frugal_visit Cons.IH] assms)
qed

lemma frugal_expand [frugal_intros]: "frugal st (snd (expand E L M pid depth addr st))"
proof (induction depth arbitrary: addr st)
  case 0
  then show ?case by (simp add: frugal_refl)
next
  case (Suc depth)
  let ?st1 = "snd (observe E st)"
  let ?bare = "snd (splitPeerID M addr)"
  have 1: "frugal st ?st1" by (simp add: frugal_def paid_def state_simps)
  have 2: "frugal ?st1 (snd (lookup E L M ?bare ?st1))" by (rule frugal_lookup)
  have 3: "frugal s (snd (expand_results M pid (expand E L M pid depth) rs out c s))" for rs out c s
    by (rule frugal_expand_results) (rule Suc.IH)
  show ?case
    by (simp add: Let_def case_prod_beta frugal_refl 1 frugal_trans[OF frugal_trans[OF 1 2] 3])
qed

lemma frugal_rewrite_one: "frugal st (snd (rewrite_one E L M pid keep addr st))"
  by (simp add: rewrite_one_def Let_def frugal_refl frugal_expand)

lemma frugal_resolveAddrs_loop: "frugal st (snd (resolveAddrs_loop E L M pid keep addrs os st))"
  using map_state_rel[of frugal addrs, OF frugal_refl frugal_trans frugal_rewrite_one]
  by (simp add: resolveAddrs_loop_eq Let_def)

lemma frugal_resolveAddrs [frugal_intros]: "frugal st (snd (resolveAddrs E L M pid addrs keep st))"
  by (auto simp: resolveAddrs_def frugal_refl intro: frugal_via[OF frugal_resolveAddrs_loop])

section \<open>Room\<close>

text \<open>Every address an expansion returns was paid for with one unit of the record's room.\<close>

lemma expand_results_room:
  assumes "\<And>a st. int (length (fst (fst (nested a st)))) = ds_room st - ds_room (snd (nested a st))"
    and "\<And>a st. 0 \<le> ds_room st \<Longrightarrow> 0 \<le> ds_room (snd (nested a st))"
  shows "int (length (fst (fst (expand_results M pid nested rs out complete st)))) - int (length out)
           = ds_room st - ds_room (snd (expand_results M pid nested rs out complete st)) \<and>
         (0 \<le> ds_room st \<longrightarrow> 0 \<le> ds_room (snd (expand_results M pid nested rs out complete st)))"
proof (induction rs arbitrary: out complete st)
  case Nil
  then show ?case by simp
next
  case (Cons r rs)
  let ?v = "visit M pid nested r st"
  have "int (length (fst (fst ?v))) = ds_room st - ds_room (snd ?v)" "0 < ds_room st \<Longrightarrow> 0 \<le> ds_room (snd ?v)"
    using assms(1) assms(2)[of st] by (simp_all add: visit_def)
  with Cons[where out = "out @ fst (fst ?v)" and complete = "complete \<and> snd (fst ?v)" and st = "snd ?v"]
  show ?case by (simp add: expand_results_Cons Let_def)
qed

lemma expand_room:
  "int (length (fst (fst (expand E L M pid depth addr st))))
     = ds_room st - ds_room (snd (expand E L M pid depth addr st)) \<and>
   (0 \<le> ds_room st \<longrightarrow> 0 \<le> ds_room (snd (expand E L M pid depth addr st)))"
proof (induction depth arbitrary: addr st)
  case 0
  then show ?case by simp
next
  case (Suc depth)
  note loop = expand_results_room[of "expand E L M pid depth", OF conjunct1[OF Suc.IH] mp[OF conjunct2[OF Suc.IH]],
      where out = "[]", simplified]
  show ?case
    using loop by (simp add: Let_def case_prod_beta state_simps)
qed

section \<open>What a record gets back\<close>

text \<open>\<open>seen\<close> is the set of the text forms of \<open>out\<close>, and no text form occurs twice.\<close>

definition dedup_inv :: "'ma malib \<Rightarrow> 'ma list \<times> string set \<Rightarrow> bool" where
  "dedup_inv M os \<longleftrightarrow> snd os = ma_String M ` set (fst os) \<and> distinct (map (ma_String M) (fst os))
     \<and> (\<forall>a \<in> set (fst os). ma_Len M a \<noteq> 0)"

lemma appendUnique_inv: "dedup_inv M os \<Longrightarrow> dedup_inv M (snd (appendUnique M (fst os) (snd os) r))"
  by (auto simp: dedup_inv_def)

lemma append_all_inv: "dedup_inv M os \<Longrightarrow> dedup_inv M (append_all M rs os)"
  by (induction rs arbitrary: os) (simp_all add: appendUnique_inv)

lemma append_all_length: "length (fst (append_all M rs os)) \<le> length (fst os) + length rs"
proof (induction rs arbitrary: os)
  case Nil
  then show ?case by simp
next
  case (Cons r rs)
  show ?case
    using Cons[of "snd (appendUnique M (fst os) (snd os) r)"] by (simp split: if_splits)
qed

lemma append_all_set:
  "set (fst os) \<subseteq> set (fst (append_all M rs os))"
  "set (fst (append_all M rs os)) \<subseteq> set (fst os) \<union> set rs"
proof -
  show "set (fst os) \<subseteq> set (fst (append_all M rs os))"
  proof (induction rs arbitrary: os)
    case (Cons r rs)
    show ?case using Cons[of "snd (appendUnique M (fst os) (snd os) r)"] by (auto split: if_splits)
  qed simp
  show "set (fst (append_all M rs os)) \<subseteq> set (fst os) \<union> set rs"
  proof (induction rs arbitrary: os)
    case (Cons r rs)
    show ?case using Cons[of "snd (appendUnique M (fst os) (snd os) r)"] by (auto split: if_splits)
  qed simp
qed

lemma append_all_strings:
  "dedup_inv M os \<Longrightarrow>
   ma_String M ` set (fst (append_all M rs os)) =
     ma_String M ` set (fst os) \<union> ma_String M ` {r \<in> set rs. ma_Len M r \<noteq> 0}"
proof (induction rs arbitrary: os)
  case Nil
  then show ?case by simp
next
  case (Cons r rs)
  from Cons.IH[OF appendUnique_inv[OF Cons.prems]] show ?case
    using Cons.prems by (auto simp: dedup_inv_def split: if_splits)
qed

text \<open>The addresses before duplicates are dropped.\<close>

lemma rewrite_one_room:
  assumes "0 \<le> ds_room st"
  shows "int (length (fst (rewrite_one E L M pid keep addr st)))
           \<le> 1 + ds_room st - ds_room (snd (rewrite_one E L M pid keep addr st))"
    and "0 \<le> ds_room (snd (rewrite_one E L M pid keep addr st))"
  using assms expand_room[of E L M pid DNSAddrRecursionLimit addr st]
  by (auto simp: rewrite_one_def Let_def)

lemma rewrite_all_room:
  "0 \<le> ds_room st \<Longrightarrow>
   int (length (concat (fst (map_state (rewrite_one E L M pid keep) addrs st))))
     \<le> int (length addrs) + ds_room st"
proof (induction addrs arbitrary: st)
  case Nil
  then show ?case by simp
next
  case (Cons addr addrs)
  show ?case
    using Cons.IH[OF rewrite_one_room(2)[OF Cons.prems], of E L M pid keep addr]
      rewrite_one_room(1)[OF Cons.prems, of E L M pid keep addr]
    by (simp add: Let_def case_prod_beta)
qed

section \<open>Where the new addresses come from\<close>

text \<open>
  \<open>Pub key x\<close>: the address \<open>x\<close> was published under the name with this key. \<open>leads_to M pid Pub d addr r\<close>:
  within \<open>d\<close> hops over published addresses that carry no peer ID or that of \<open>pid\<close>, the indirection \<open>addr\<close>
  leads to \<open>r\<close>, which is no indirection itself and has its \<open>/p2p\<close> part removed.
\<close>

primrec leads_to ::
  "'ma malib \<Rightarrow> peer_id \<Rightarrow> (string \<Rightarrow> 'ma \<Rightarrow> bool) \<Rightarrow> nat \<Rightarrow> 'ma \<Rightarrow> 'ma \<Rightarrow> bool" where
  "leads_to M pid Pub 0 = (\<lambda>addr r. False)"
| "leads_to M pid Pub (Suc d) = (\<lambda>addr r.
     \<exists>x. Pub (dnsAddrCacheKey M (snd (splitPeerID M addr))) x \<and> fst (splitPeerID M x) \<in> {[], pid} \<and>
       (let n = snd (splitPeerID M x)
        in if isDNSAddr M n then leads_to M pid Pub d n r else r = n \<and> ma_Len M r \<noteq> 0))"

declare leads_to.simps(2) [simp del]

text \<open>
  \<open>sourced E L M Pub st\<close>: everything the resolver can be told is published: what DNS answers for a name,
  what a query shared with another request brings, what the cache holds and what others put into it.
\<close>

definition cache_sourced :: "('c, 'ma) dns_lru \<Rightarrow> (string \<Rightarrow> 'ma \<Rightarrow> bool) \<Rightarrow> 'c \<Rightarrow> bool" where
  "cache_sourced L Pub c \<longleftrightarrow> (\<forall>k e. lru_Peek L c k = Some e \<longrightarrow> (\<forall>x \<in> set (ce_addrs e). Pub k x))"

definition sourced ::
  "('c, 'ma) dns_env \<Rightarrow> ('c, 'ma) dns_lru \<Rightarrow> 'ma malib \<Rightarrow> (string \<Rightarrow> 'ma \<Rightarrow> bool) \<Rightarrow> ('c, 'ma) dns_state \<Rightarrow> bool" where
  "sourced E L M Pub st \<longleftrightarrow> lru_lawful L \<and>
     (\<forall>t a xs. env_Resolve E t a = Inr xs \<longrightarrow> (\<forall>x \<in> set xs. Pub (dnsAddrCacheKey M a) x)) \<and>
     (\<forall>t k e. env_flight E t k = Some e \<longrightarrow> (\<forall>x \<in> set (ce_addrs e). Pub k x)) \<and>
     (\<forall>t c. cache_sourced L Pub c \<longrightarrow> cache_sourced L Pub (env_others E t c)) \<and>
     cache_sourced L Pub (ds_cache st)"

section \<open>A resolver whose answers do not change\<close>

text \<open>
  The expansion without the room counter: every address a name stands for, depth first, and whether
  nothing was left out.
\<close>

definition share :: "'ma malib \<Rightarrow> peer_id \<Rightarrow> ('ma \<Rightarrow> 'ma list \<times> bool) \<Rightarrow> 'ma \<Rightarrow> 'ma list \<times> bool" where
  "share M pid nested r =
     (if skipped M pid r then ([], True)
      else if isDNSAddr M (snd (splitPeerID M r)) then nested (snd (splitPeerID M r))
      else ([snd (splitPeerID M r)], True))"

primrec full_expansion ::
  "'ma malib \<Rightarrow> peer_id \<Rightarrow> ('ma \<Rightarrow> 'ma list \<times> bool) \<Rightarrow> nat \<Rightarrow> 'ma \<Rightarrow> 'ma list \<times> bool" where
  "full_expansion M pid ask 0 = (\<lambda>addr. ([], False))"
| "full_expansion M pid ask (Suc depth) = (\<lambda>addr.
     (let bare = snd (splitPeerID M addr)
      in if \<not> resolvableDNSAddr M bare then ([], False)
         else let (results, ok) = ask bare
              in (concat (map (\<lambda>r. fst (share M pid (full_expansion M pid ask depth) r)) results),
                  ok \<and> list_all (\<lambda>r. snd (share M pid (full_expansion M pid ask depth) r)) results)))"

text \<open>How an expansion with room \<open>n\<close> relates to the unlimited one it approximates.\<close>

definition approximates :: "int \<Rightarrow> 'ma list \<times> bool \<Rightarrow> 'ma list \<times> bool \<Rightarrow> bool" where
  "approximates n full got \<longleftrightarrow>
     fst got = take (nat n) (fst full) \<and>
     (snd got \<longrightarrow> snd full \<and> int (length (fst full)) \<le> n) \<and>
     (snd full \<and> int (length (fst full)) < n \<longrightarrow> snd got)"

lemma approximates_append:
  assumes "approximates n f v" and "approximates (n - int (length (fst v))) F g"
    and "int (length (fst v)) \<le> n"
  shows "approximates n (fst f @ fst F, snd f \<and> snd F) (fst v @ fst g, snd v \<and> snd g)"
proof -
  have room: "nat (n - int (length (fst v))) = nat n - length (fst v)"
    by (simp add: nat_diff_distrib')
  show ?thesis
  proof (cases "int (length (fst f)) \<le> n")
    case True
    then have "fst v = fst f" using assms(1) by (simp add: approximates_def nat_le_iff)
    with True assms room show ?thesis by (auto simp: approximates_def nat_le_iff)
  next
    case False
    then have "nat n \<le> length (fst f)" by linarith
    then have "length (fst v) = nat n" using assms(1) by (simp add: approximates_def)
    with False assms show ?thesis by (auto simp: approximates_def)
  qed
qed

text \<open>
  The contract between the expansion and the lookups it makes: in a \<open>steady\<close> state every lookup of
  \<open>a\<close> answers \<open>ask a\<close>, and nothing the expansion does ends the steadiness. The laws are about
  \<open>lookup\<close>; the lemmas inside are about its client \<open>expand\<close>.
\<close>

locale lookup_invariant =
  fixes E :: "('c, 'ma) dns_env" and L :: "('c, 'ma) dns_lru" and M :: "'ma malib"
    and steady :: "('c, 'ma) dns_state \<Rightarrow> bool"
  assumes steady_lookup: "steady st \<Longrightarrow> steady (snd (lookup E L M a st))"
    and steady_observe: "steady st \<Longrightarrow> steady (snd (observe E st))"
    and steady_room: "steady st \<Longrightarrow> steady (st\<lparr>ds_room := n\<rparr>)"
begin

lemma steady_expand_results:
  assumes "\<And>a st. steady st \<Longrightarrow> steady (snd (nested a st))" and "steady st"
  shows "steady (snd (expand_results M pid nested rs out ok st))"
  using assms(2)
proof (induction rs arbitrary: out ok st)
  case Nil
  then show ?case by simp
next
  case (Cons r rs)
  then have "steady (snd (visit M pid nested r st))"
    using assms(1) by (simp add: visit_def steady_room)
  with Cons show ?case by (simp add: expand_results_Cons Let_def)
qed

lemma steady_expand: "steady st \<Longrightarrow> steady (snd (expand E L M pid depth addr st))"
  by (induction depth arbitrary: addr st)
    (simp_all add: Let_def case_prod_beta steady_observe steady_lookup steady_expand_results)

lemma steady_rewrite_one: "steady st \<Longrightarrow> steady (snd (rewrite_one E L M pid keep addr st))"
  by (simp add: rewrite_one_def Let_def steady_expand)

end

text \<open>Where every answer of a lookup is published under the name asked, so is what the expansion finds.\<close>

locale publishing = lookup_invariant E L M steady
  for E :: "('c, 'ma) dns_env" and L :: "('c, 'ma) dns_lru" and M :: "'ma malib" and steady +
  fixes Pub :: "string \<Rightarrow> 'ma \<Rightarrow> bool"
  assumes lookup_published: "steady st \<Longrightarrow> x \<in> set (fst (fst (lookup E L M a st))) \<Longrightarrow> Pub (dnsAddrCacheKey M a) x"
begin

lemma expand_results_leads:
  assumes steady: "\<And>a st. steady st \<Longrightarrow> steady (snd (nested a st))"
    and nested: "\<And>a st r. steady st \<Longrightarrow> r \<in> set (fst (fst (nested a st))) \<Longrightarrow> leads_to M pid Pub d a r"
    and bare: "\<forall>x \<in> set rs. Pub (dnsAddrCacheKey M (snd (splitPeerID M addr))) x"
    and "steady st" "\<forall>r \<in> set out. leads_to M pid Pub (Suc d) addr r"
  shows "\<forall>r \<in> set (fst (fst (expand_results M pid nested rs out ok st))). leads_to M pid Pub (Suc d) addr r"
  using bare assms(4,5)
proof (induction rs arbitrary: out ok st)
  case Nil
  then show ?case by simp
next
  case (Cons x rs)
  let ?v = "visit M pid nested x st"
  have v: "leads_to M pid Pub (Suc d) addr r" if "r \<in> set (fst (fst ?v))" for r
  proof -
    have x: "\<not> skipped M pid x" using that by (auto simp: visit_def)
    have "if isDNSAddr M (snd (splitPeerID M x)) then leads_to M pid Pub d (snd (splitPeerID M x)) r
        else r = snd (splitPeerID M x)"
      using that x nested[OF Cons.prems(2)] by (simp add: visit_def split: if_splits)
    with x Cons.prems(1) show ?thesis
      by (auto simp: leads_to.simps(2) skipped_def Let_def intro!: exI[of _ x] split: if_splits)
  qed
  moreover have "steady (snd ?v)" using steady Cons.prems(2) by (simp add: visit_def steady_room)
  ultimately have "\<forall>r \<in> set (fst (fst (expand_results M pid nested rs (out @ fst (fst ?v)) (ok \<and> snd (fst ?v)) (snd ?v)))).
      leads_to M pid Pub (Suc d) addr r"
    using Cons.prems by (intro Cons.IH) auto
  with Cons.prems(3) show ?case by (simp add: expand_results_Cons Let_def)
qed

lemma expand_leads:
  "steady st \<Longrightarrow> r \<in> set (fst (fst (expand E L M pid depth addr st))) \<Longrightarrow> leads_to M pid Pub depth addr r"
proof (induction depth arbitrary: addr st r)
  case 0
  then show ?case by simp
next
  case (Suc depth)
  let ?bare = "snd (splitPeerID M addr)" and ?st1 = "snd (observe E st)"
  have st1: "steady ?st1" by (rule steady_observe[OF Suc.prems(1)])
  have "\<forall>x \<in> set (fst (fst (lookup E L M ?bare ?st1))). Pub (dnsAddrCacheKey M ?bare) x"
    using lookup_published[OF st1] by blast
  then have "\<forall>r \<in> set (fst (fst (expand_results M pid (expand E L M pid depth) (fst (fst (lookup E L M ?bare ?st1))) []
      (snd (fst (lookup E L M ?bare ?st1))) (snd (lookup E L M ?bare ?st1))))). leads_to M pid Pub (Suc depth) addr r"
    by (intro expand_results_leads steady_lookup[OF st1]) (auto intro: steady_expand Suc.IH)
  with Suc.prems(2) show ?case by (auto simp: Let_def case_prod_beta split: if_splits)
qed

lemma rewrite_one_set:
  assumes "steady st" and "a \<in> set (fst (rewrite_one E L M pid keep addr st))"
  shows "a = addr \<and> \<not> foreign M pid a \<or>
    isDNSAddr M addr \<and> \<not> foreign M pid addr \<and> leads_to M pid Pub DNSAddrRecursionLimit addr a"
  using assms(2) expand_leads[OF assms(1)] by (auto simp: rewrite_one_def foreign_def Let_def split: if_splits)

lemma rewrite_all_set:
  "steady st \<Longrightarrow> a \<in> set (concat (fst (map_state (rewrite_one E L M pid keep) addrs st))) \<Longrightarrow>
     a \<in> set addrs \<and> \<not> foreign M pid a \<or>
     (\<exists>addr \<in> set addrs. isDNSAddr M addr \<and> \<not> foreign M pid addr \<and> leads_to M pid Pub DNSAddrRecursionLimit addr a)"
proof (induction addrs arbitrary: st)
  case Nil
  then show ?case by simp
next
  case (Cons addr addrs)
  consider "a \<in> set (fst (rewrite_one E L M pid keep addr st))"
    | "a \<in> set (concat (fst (map_state (rewrite_one E L M pid keep) addrs (snd (rewrite_one E L M pid keep addr st)))))"
    using Cons.prems(2) by (auto simp: Let_def case_prod_beta)
  then show ?case
  proof cases
    case 1
    from rewrite_one_set[OF Cons.prems(1) this] show ?thesis by auto
  next
    case 2
    from Cons.IH[OF steady_rewrite_one[OF Cons.prems(1)] this] show ?thesis by auto
  qed
qed

end

lemma cache_sourced_add:
  assumes "lru_lawful L" "cache_sourced L Pub c" "\<forall>x \<in> set (ce_addrs e). Pub k x"
  shows "cache_sourced L Pub (lru_Add L c k e)"
  unfolding cache_sourced_def
proof (intro allI impI)
  fix k' e' assume e': "lru_Peek L (lru_Add L c k e) k' = Some e'"
  show "\<forall>x \<in> set (ce_addrs e'). Pub k' x"
  proof (cases "k' = k")
    case True
    with e' assms lru_Peek_Add[OF assms(1)] show ?thesis by simp
  next
    case False
    from lru_Peek_Add_other[OF assms(1) False e'] assms(2) show ?thesis by (simp add: cache_sourced_def)
  qed
qed

lemma sourced_cong: "sourced E L M Pub st \<Longrightarrow> ds_cache st' = ds_cache st \<Longrightarrow> sourced E L M Pub st'"
  by (simp add: sourced_def)

lemma sourced_observe: "sourced E L M Pub st \<Longrightarrow> sourced E L M Pub (snd (observe E st))"
  by (simp add: sourced_def observe_def)

lemma resolve_sourced:
  assumes "sourced E L M Pub st"
  shows "set (ce_addrs (fst (resolve E L addr (dnsAddrCacheKey M addr) st))) \<subseteq> Collect (Pub (dnsAddrCacheKey M addr))"
    and "sourced E L M Pub (snd (resolve E L addr (dnsAddrCacheKey M addr) st))"
proof -
  let ?k = "dnsAddrCacheKey M addr"
  have L: "lru_lawful L" using assms by (simp add: sourced_def)
  show pub: "set (ce_addrs (fst (resolve E L addr ?k st))) \<subseteq> Collect (Pub ?k)"
  proof (cases "env_Resolve E (Suc (ds_tick st)) addr")
    case (Inr xs)
    with assms show ?thesis by (auto simp: resolve_entry sourced_def Let_def)
  qed (simp add: resolve_entry Let_def)
  obtain s where "sourced E L M Pub s"
    "snd (resolve E L addr ?k st) = s\<lparr>ds_cache := lru_Add L (ds_cache s) ?k (fst (resolve E L addr ?k st))\<rparr>"
    by (rule resolve_state[where P = "sourced E L M Pub", OF _ _ _ assms])
      (auto intro: sourced_observe sourced_cong simp: state_simps)
  then show "sourced E L M Pub (snd (resolve E L addr ?k st))"
    using cache_sourced_add[OF L, of Pub "ds_cache s" "fst (resolve E L addr ?k st)" ?k] pub by (auto simp: sourced_def)
qed

lemma lookup_miss_sourced:
  fixes E :: "('c, 'ma) dns_env"
  assumes "sourced E L M Pub st"
  shows "set (fst (fst (lookup_miss E L addr (dnsAddrCacheKey M addr) st))) \<subseteq> Collect (Pub (dnsAddrCacheKey M addr)) \<and>
    sourced E L M Pub (snd (lookup_miss E L addr (dnsAddrCacheKey M addr) st))"
proof -
  have sp: "sourced E L M Pub (snd (spend s))" if "sourced E L M Pub s" for s
    using that by (auto simp: spend_def inc_metric_def intro: sourced_cong)
  have fl: "set (ce_addrs e) \<subseteq> Collect (Pub k)" if "env_flight E t k = Some e" for t k e
    using that assms by (auto simp: sourced_def)
  show ?thesis
    using assms
    by (simp add: lookup_miss_def Let_def case_prod_beta sourced_observe sp resolve_sourced fl split: option.split)
qed

lemma lookup_sourced:
  assumes "sourced E L M Pub st"
  shows "set (fst (fst (lookup E L M addr st))) \<subseteq> Collect (Pub (dnsAddrCacheKey M addr)) \<and>
    sourced E L M Pub (snd (lookup E L M addr st))"
proof -
  let ?k = "dnsAddrCacheKey M addr"
  have L: "lru_lawful L" using assms by (simp add: sourced_def)
  obtain found c where get: "lru_Get L (ds_cache st) ?k = (found, c)" by force
  with lru_Get_snd[OF L, of "ds_cache st" ?k] assms
  have st1: "sourced E L M Pub (st\<lparr>ds_cache := c\<rparr>)" by (simp add: sourced_def cache_sourced_def)
  have hit: "set (ce_addrs e) \<subseteq> Collect (Pub ?k)" if "found = Some e" for e
  proof -
    have "lru_Peek L (ds_cache st) ?k = Some e" using that get lru_Get_fst[OF L, of "ds_cache st" ?k] by simp
    with assms show ?thesis unfolding sourced_def cache_sourced_def by blast
  qed
  have obs: "sourced E L M Pub (inc_metric m (snd (observe E (st\<lparr>ds_cache := c\<rparr>))))" for m
    by (rule sourced_cong[OF sourced_observe[OF st1]]) (simp add: inc_metric_simps)
  show ?thesis
    using st1 hit obs
    by (simp add: lookup_def get Let_def case_prod_beta lookup_miss_sourced sourced_observe split: option.split)
qed

interpretation published_names: publishing E L M "sourced E L M Pub" Pub
  for E :: "('c, 'ma) dns_env" and L M Pub
proof unfold_locales
  show "Pub (dnsAddrCacheKey M a) x" if "sourced E L M Pub st" "x \<in> set (fst (fst (lookup E L M a st)))" for st x a
    using lookup_sourced[OF that(1), of a] that(2) by blast
qed (simp_all add: lookup_sourced sourced_observe sourced_cong)

text \<open>
  The names an expansion asks for, when \<open>ask\<close> answers them: those of the address itself and of every
  indirection on the way, down to the depth. \<open>covered\<close>: all of them are \<open>known\<close>.
\<close>

primrec covered ::
  "'ma malib \<Rightarrow> peer_id \<Rightarrow> ('ma \<Rightarrow> bool) \<Rightarrow> ('ma \<Rightarrow> 'ma list \<times> bool) \<Rightarrow> nat \<Rightarrow> 'ma \<Rightarrow> bool" where
  "covered M pid known ask 0 = (\<lambda>addr. True)"
| "covered M pid known ask (Suc depth) = (\<lambda>addr.
     (let bare = snd (splitPeerID M addr)
      in resolvableDNSAddr M bare \<longrightarrow> known bare \<and>
           list_all (\<lambda>r. \<not> skipped M pid r \<and> isDNSAddr M (snd (splitPeerID M r)) \<longrightarrow>
               covered M pid known ask depth (snd (splitPeerID M r))) (fst (ask bare))))"

locale name_service =
  fixes E :: "('c, 'ma) dns_env" and L :: "('c, 'ma) dns_lru" and M :: "'ma malib"
    and steady :: "('c, 'ma) dns_state \<Rightarrow> bool" and known :: "'ma \<Rightarrow> bool" and ask :: "'ma \<Rightarrow> 'ma list \<times> bool"
  assumes lookup_known: "steady st \<Longrightarrow> known a \<Longrightarrow> fst (lookup E L M a st) = ask a \<and> steady (snd (lookup E L M a st))"
    and known_observe: "steady st \<Longrightarrow> steady (snd (observe E st))"
    and known_room: "steady st \<Longrightarrow> steady (st\<lparr>ds_room := n\<rparr>)"
    and steady_ctx: "steady st \<Longrightarrow> \<not> env_ctx_done E t"
begin

lemma expand_results_approximates:
  assumes nested: "\<And>a st. cov a \<Longrightarrow> steady st \<Longrightarrow> 0 \<le> ds_room st \<Longrightarrow>
      steady (snd (nested a st)) \<and> approximates (ds_room st) (full a) (fst (nested a st)) \<and>
      ds_room (snd (nested a st)) = ds_room st - int (length (fst (fst (nested a st))))"
    and "list_all (\<lambda>r. \<not> skipped M pid r \<and> isDNSAddr M (snd (splitPeerID M r)) \<longrightarrow> cov (snd (splitPeerID M r))) rs"
    and "steady st" "0 \<le> ds_room st"
  shows "\<exists>got. fst (expand_results M pid nested rs out ok st) = (out @ fst got, ok \<and> snd got) \<and>
     steady (snd (expand_results M pid nested rs out ok st)) \<and>
     approximates (ds_room st) (concat (map (\<lambda>r. fst (share M pid full r)) rs),
       list_all (\<lambda>r. snd (share M pid full r)) rs) got"
  using assms(2-)
proof (induction rs arbitrary: out ok st)
  case Nil
  then show ?case by (auto simp: approximates_def)
next
  case (Cons r rs)
  show ?case
  proof (cases "ds_room st \<le> 0")
    case True
    with Cons.prems show ?thesis
      by (intro exI[of _ "([], False)"]) (auto simp: expand_results_Cons approximates_def)
  next
    case False
    let ?v = "visit M pid nested r st" and ?f = "share M pid full r"
    have cov: "\<not> skipped M pid r \<Longrightarrow> isDNSAddr M (snd (splitPeerID M r)) \<Longrightarrow> cov (snd (splitPeerID M r))"
      and rest: "list_all (\<lambda>r. \<not> skipped M pid r \<and> isDNSAddr M (snd (splitPeerID M r)) \<longrightarrow> cov (snd (splitPeerID M r))) rs"
      using Cons.prems(1) by simp_all
    have v: "steady (snd ?v)" "approximates (ds_room st) ?f (fst ?v)"
      "ds_room (snd ?v) = ds_room st - int (length (fst (fst ?v)))"
      using False Cons.prems(2) nested[OF cov, of st]
      by (auto simp: visit_def share_def approximates_def known_room)
    then have room: "0 \<le> ds_room (snd ?v)"
      using False by (auto simp: approximates_def)
    from Cons.IH[OF rest v(1) room, of "out @ fst (fst ?v)" "ok \<and> snd (fst ?v)"]
    obtain got where got: "fst (expand_results M pid nested (r # rs) out ok st) =
        (out @ fst (fst ?v) @ fst got, ok \<and> snd (fst ?v) \<and> snd got)"
      "steady (snd (expand_results M pid nested (r # rs) out ok st))"
      "approximates (ds_room (snd ?v)) (concat (map (\<lambda>r. fst (share M pid full r)) rs),
         list_all (\<lambda>r. snd (share M pid full r)) rs) got"
      using False by (auto simp: expand_results_Cons Let_def)
    have "approximates (ds_room st) (concat (map (\<lambda>r. fst (share M pid full r)) (r # rs)),
       list_all (\<lambda>r. snd (share M pid full r)) (r # rs)) (fst (fst ?v) @ fst got, snd (fst ?v) \<and> snd got)"
      using approximates_append[OF v(2) got(3)[unfolded v(3)]] v(3) room by simp
    with got(1,2) show ?thesis by auto
  qed
qed

lemma expand_approximates:
  assumes "covered M pid known ask depth addr" and "steady st" and "0 \<le> ds_room st"
  shows "steady (snd (expand E L M pid depth addr st)) \<and>
    approximates (ds_room st) (full_expansion M pid ask depth addr) (fst (expand E L M pid depth addr st))"
  using assms
proof (induction depth arbitrary: addr st)
  case 0
  then show ?case by (simp add: approximates_def)
next
  case (Suc depth)
  let ?bare = "snd (splitPeerID M addr)" and ?st1 = "snd (observe E st)"
  have st1: "steady ?st1" "\<not> env_ctx_done E (fst (observe E st))"
    using Suc.prems(2) by (simp_all add: known_observe steady_ctx)
  show ?case
  proof (cases "resolvableDNSAddr M ?bare")
    case False
    with Suc.prems st1 show ?thesis by (auto simp: Let_def case_prod_beta approximates_def)
  next
    case True
    let ?st2 = "snd (lookup E L M ?bare ?st1)"
    from True Suc.prems(1) have known: "known ?bare" and cov: "list_all (\<lambda>r. \<not> skipped M pid r \<and>
        isDNSAddr M (snd (splitPeerID M r)) \<longrightarrow> covered M pid known ask depth (snd (splitPeerID M r))) (fst (ask ?bare))"
      by (simp_all add: Let_def)
    have ans: "fst (lookup E L M ?bare ?st1) = ask ?bare" and st2: "steady ?st2"
      using lookup_known[OF st1(1) known] by simp_all
    have room: "ds_room ?st2 = ds_room st" by (simp add: state_simps)
    have nested: "steady (snd (expand E L M pid depth a s)) \<and>
        approximates (ds_room s) (full_expansion M pid ask depth a) (fst (expand E L M pid depth a s)) \<and>
        ds_room (snd (expand E L M pid depth a s)) = ds_room s - int (length (fst (fst (expand E L M pid depth a s))))"
      if "covered M pid known ask depth a" "steady s" "0 \<le> ds_room s" for a s
      using Suc.IH[OF that] expand_room[of E L M pid depth a s] by simp
    obtain got where
      "fst (expand_results M pid (expand E L M pid depth) (fst (ask ?bare)) [] (snd (ask ?bare)) ?st2)
         = (fst got, snd (ask ?bare) \<and> snd got)"
      "steady (snd (expand_results M pid (expand E L M pid depth) (fst (ask ?bare)) [] (snd (ask ?bare)) ?st2))"
      "approximates (ds_room st)
         (concat (map (\<lambda>r. fst (share M pid (full_expansion M pid ask depth) r)) (fst (ask ?bare))),
          list_all (\<lambda>r. snd (share M pid (full_expansion M pid ask depth) r)) (fst (ask ?bare))) got"
      using expand_results_approximates
            [where full = "full_expansion M pid ask depth" and nested = "expand E L M pid depth" and pid = pid
               and cov = "covered M pid known ask depth" and rs = "fst (ask ?bare)" and out = "[]"
               and ok = "snd (ask ?bare)", OF nested cov st2]
        Suc.prems(3) room by auto
    then show ?thesis
      using True Suc.prems st1 ans by (auto simp: Let_def case_prod_beta approximates_def)
  qed
qed

end

text \<open>
  The provider: a cache that holds the unexpired entries \<open>W\<close>, for as many or as few names as \<open>W\<close> has, no
  cancellation, and no other request that changes or evicts these entries. A bounded cache can hold any
  \<open>W\<close> with no more names than its size.
\<close>

definition warm ::
  "('c, 'ma) dns_env \<Rightarrow> ('c, 'ma) dns_lru \<Rightarrow> (string \<rightharpoonup> 'ma dnsAddrCacheEntry) \<Rightarrow> ('c, 'ma) dns_state \<Rightarrow> bool" where
  "warm E L W st \<longleftrightarrow> lru_lawful L \<and> (\<forall>t. \<not> env_ctx_done E t) \<and>
     (\<forall>k e. W k = Some e \<longrightarrow> lru_Peek L (ds_cache st) k = Some e \<and> (\<forall>t. env_now E t < ce_expires e) \<and>
        (\<forall>t c. lru_Peek L c k = Some e \<longrightarrow> lru_Peek L (env_others E t c) k = Some e))"

definition known_name :: "'ma malib \<Rightarrow> (string \<rightharpoonup> 'ma dnsAddrCacheEntry) \<Rightarrow> 'ma \<Rightarrow> bool" where
  "known_name M W a \<longleftrightarrow> W (dnsAddrCacheKey M a) \<noteq> None"

definition cached_answer :: "'ma malib \<Rightarrow> (string \<rightharpoonup> 'ma dnsAddrCacheEntry) \<Rightarrow> 'ma \<Rightarrow> 'ma list \<times> bool" where
  "cached_answer M W a =
     (case W (dnsAddrCacheKey M a) of None \<Rightarrow> ([], False) | Some e \<Rightarrow> (ce_addrs e, ce_ok e))"

lemma lookup_warm:
  assumes warm: "warm E L W st" and "known_name M W a"
  shows "fst (lookup E L M a st) = cached_answer M W a"
    and "warm E L W (snd (lookup E L M a st))"
    and "ds_budget (snd (lookup E L M a st)) = ds_budget st"
    and "ds_queries (snd (lookup E L M a st)) = ds_queries st"
    and "ds_metrics (snd (lookup E L M a st)) = ds_metrics st @ [CacheHit]"
proof -
  let ?k = "dnsAddrCacheKey M a"
  have L: "lru_lawful L" using warm by (simp add: warm_def)
  obtain e where e: "W ?k = Some e" using assms(2) by (auto simp: known_name_def)
  with warm have held: "lru_Peek L (ds_cache st) ?k = Some e" "env_now E (ds_tick st) < ce_expires e"
    by (auto simp: warm_def)
  obtain c where c: "lru_Get L (ds_cache st) ?k = (Some e, c)"
    using lru_Get_fst[OF L, of "ds_cache st" ?k] held(1) by (cases "lru_Get L (ds_cache st) ?k") auto
  have peek: "lru_Peek L c k = lru_Peek L (ds_cache st) k" for k
    using lru_Get_snd[OF L, of "ds_cache st" ?k k] c by simp
  have eq: "lookup E L M a st = (cached_answer M W a,
      inc_metric CacheHit (st\<lparr>ds_tick := Suc (ds_tick st), ds_cache := env_others E (ds_tick st) c\<rparr>))"
    using c held(2) e by (simp add: lookup_def observe_def cached_answer_def Let_def)
  then show "fst (lookup E L M a st) = cached_answer M W a"
    and "ds_budget (snd (lookup E L M a st)) = ds_budget st"
    and "ds_queries (snd (lookup E L M a st)) = ds_queries st"
    and "ds_metrics (snd (lookup E L M a st)) = ds_metrics st @ [CacheHit]"
    by (simp_all add: state_simps)
  show "warm E L W (snd (lookup E L M a st))"
    using warm peek by (simp add: eq warm_def state_simps)
qed

lemma warm_observe: "warm E L W st \<Longrightarrow> warm E L W (snd (observe E st))"
  by (simp add: warm_def observe_def)

interpretation warm_names: name_service E L M "warm E L W" "known_name M W" "cached_answer M W"
  for E :: "('c, 'ma) dns_env" and L M W
  by unfold_locales (simp_all add: lookup_warm warm_observe, simp_all add: warm_def)

section \<open>A resolver that yields nothing\<close>

locale outage = lookup_invariant E L M steady
  for E :: "('c, 'ma) dns_env" and L :: "('c, 'ma) dns_lru" and M :: "'ma malib" and steady +
  assumes lookup_nothing: "steady st \<Longrightarrow> fst (fst (lookup E L M a st)) = []"
begin

lemma expand_nothing: "steady st \<Longrightarrow> fst (fst (expand E L M pid depth addr st)) = []"
  using lookup_nothing[OF steady_observe]
  by (cases depth) (auto simp: Let_def case_prod_beta)

lemma rewrite_all_nothing:
  "steady st \<Longrightarrow>
   concat (fst (map_state (rewrite_one E L M pid keep) addrs st)) = filter (\<lambda>a. \<not> foreign M pid a) addrs"
proof (induction addrs arbitrary: st)
  case Nil
  then show ?case by simp
next
  case (Cons addr addrs)
  have "fst (rewrite_one E L M pid keep addr st) = (if foreign M pid addr then [] else [addr])"
    using expand_nothing[OF Cons.prems] by (auto simp: rewrite_one_def foreign_def Let_def)
  with Cons.IH[OF steady_rewrite_one[OF Cons.prems]] show ?case
    by (simp add: Let_def case_prod_beta)
qed

end

text \<open>
  The provider: the DNS resolver fails on every query, requests in flight bring nothing, and what the
  cache holds is empty or expired.
\<close>

definition dark :: "('c, 'ma) dns_env \<Rightarrow> ('c, 'ma) dns_lru \<Rightarrow> ('c, 'ma) dns_state \<Rightarrow> bool" where
  "dark E L st \<longleftrightarrow> lru_lawful L \<and>
     (\<forall>t a. \<exists>err. env_Resolve E t a = Inl err) \<and>
     (\<forall>t k e. env_flight E t k = Some e \<longrightarrow> ce_addrs e = []) \<and>
     (\<forall>t c k. lru_Peek L (env_others E t c) k = lru_Peek L c k) \<and>
     (\<forall>k e. lru_Peek L (ds_cache st) k = Some e \<longrightarrow> ce_addrs e = [] \<or> (\<forall>t. ce_expires e \<le> env_now E t))"

lemma dark_observe: "dark E L st \<Longrightarrow> dark E L (snd (observe E st))"
  by (simp add: dark_def observe_def)

lemma dark_cong: "dark E L st \<Longrightarrow> ds_cache st' = ds_cache st \<Longrightarrow> dark E L st'"
  by (simp add: dark_def)

lemma dark_add:
  assumes "dark E L st" and "ce_addrs e = []"
  shows "dark E L (st\<lparr>ds_cache := lru_Add L (ds_cache st) k e\<rparr>)"
proof -
  have L: "lru_lawful L" using assms(1) by (simp add: dark_def)
  have "ce_addrs e' = [] \<or> (\<forall>t. ce_expires e' \<le> env_now E t)"
    if "lru_Peek L (lru_Add L (ds_cache st) k e) k' = Some e'" for k' e'
  proof (cases "k' = k")
    case True
    with that assms(2) lru_Peek_Add[OF L] show ?thesis by simp
  next
    case False
    from lru_Peek_Add_other[OF L this that] assms(1) show ?thesis by (simp add: dark_def)
  qed
  then show ?thesis using assms(1) by (simp add: dark_def)
qed

lemma resolve_dark:
  assumes "dark E L st"
  shows "ce_addrs (fst (resolve E L addr key st)) = []"
    and "dark E L (snd (resolve E L addr key st))"
proof -
  obtain err where "env_Resolve E (Suc (ds_tick st)) addr = Inl err"
    using assms unfolding dark_def by blast
  then show empty: "ce_addrs (fst (resolve E L addr key st)) = []"
    by (simp add: resolve_entry Let_def)
  obtain s where "dark E L s"
    "snd (resolve E L addr key st) = s\<lparr>ds_cache := lru_Add L (ds_cache s) key (fst (resolve E L addr key st))\<rparr>"
    by (rule resolve_state[where P = "dark E L", OF _ _ _ assms])
      (auto intro: dark_observe dark_cong simp: state_simps)
  then show "dark E L (snd (resolve E L addr key st))"
    using empty by (simp add: dark_add)
qed

lemma lookup_miss_dark:
  assumes "dark E L st"
  shows "fst (fst (lookup_miss E L addr key st)) = [] \<and> dark E L (snd (lookup_miss E L addr key st))"
proof -
  have st: "dark E L s" if "ds_cache s = ds_cache s'" "dark E L s'" for s s'
    using that by (auto intro: dark_cong)
  have sp: "dark E L (snd (spend s))" if "dark E L s" for s
    using that by (auto simp: spend_def inc_metric_def intro: dark_cong)
  have fl: "ce_addrs e = []" if "env_flight E t key = Some e" for t e
    using that assms by (auto simp: dark_def)
  show ?thesis
    using assms
    by (simp add: lookup_miss_def Let_def case_prod_beta dark_observe sp resolve_dark fl split: option.split)
qed

lemma lookup_dark:
  assumes "dark E L st"
  shows "fst (fst (lookup E L M addr st)) = [] \<and> dark E L (snd (lookup E L M addr st))"
proof -
  have L: "lru_lawful L" using assms by (simp add: dark_def)
  obtain found c where get: "lru_Get L (ds_cache st) (dnsAddrCacheKey M addr) = (found, c)" by force
  with lru_Get_snd[OF L, of "ds_cache st" "dnsAddrCacheKey M addr"] assms
  have st1: "dark E L (st\<lparr>ds_cache := c\<rparr>)" by (simp add: dark_def)
  have hit: "ce_addrs e = []" if "found = Some e" "env_now E t < ce_expires e" for e t
  proof -
    have "lru_Peek L (ds_cache st) (dnsAddrCacheKey M addr) = Some e"
      using that(1) get lru_Get_fst[OF L, of "ds_cache st" "dnsAddrCacheKey M addr"] by simp
    with assms have "ce_addrs e = [] \<or> (\<forall>t. ce_expires e \<le> env_now E t)" unfolding dark_def by blast
    with that(2) show ?thesis by (meson not_le)
  qed
  show ?thesis
    using st1 hit
    by (auto simp: lookup_def get Let_def case_prod_beta lookup_miss_dark dark_observe state_simps
        intro: dark_cong[OF dark_observe] split: option.split)
qed

interpretation dark_names: outage E L M "dark E L" for E :: "('c, 'ma) dns_env" and L M
  by unfold_locales (simp_all add: lookup_dark dark_observe dark_cong)

section \<open>Properties\<close>

definition sample_env ::
  "(comps \<Rightarrow> go_err + comps list) \<Rightarrow> (string \<rightharpoonup> comps dnsAddrCacheEntry, comps) dns_env" where [env_defs]:
  "sample_env f = \<lparr>env_now = (\<lambda>_. 0), env_ctx_done = (\<lambda>_. False), env_flight = (\<lambda>_ _. None),
     env_gone = (\<lambda>_. False), env_Resolve = (\<lambda>_. f), env_others = (\<lambda>_ c. c)\<rparr>"

definition sample_dns_state ::
  "(string \<rightharpoonup> comps dnsAddrCacheEntry) \<Rightarrow> (string \<rightharpoonup> comps dnsAddrCacheEntry, comps) dns_state" where [env_defs]:
  "sample_dns_state c = \<lparr>ds_cache = c, ds_budget = newDNSAddrBudget, ds_room = MaxDNSAddrResolvedPerRecord,
     ds_queries = [], ds_metrics = [], ds_tick = 0\<rparr>"

definition sample_dnsaddr :: comps where [env_defs]: "sample_dnsaddr = [(P_DNSADDR, ''a.io'')]"



text \<open>
  A DNS outage degrades to not resolving: when every lookup yields nothing, a record keeps all its
  addresses in order, without duplicates, except the indirections that name another peer; and it
  does so whether or not the request's filter asked for replacement.
\<close>

theorem outage_keeps_indirections:
  assumes "dark E L st" and "containsDNSAddr M addrs"
  shows "fst (resolveAddrs E L M pid addrs keep st) =
    fst (append_all M (filter (\<lambda>a. \<not> foreign M pid a) addrs) ([], {}))"
  using assms dark_names.rewrite_all_nothing[OF dark_names.steady_room[OF assms(1)], where addrs = addrs]
  by (simp add: resolveAddrs_def resolveAddrs_loop_eq Let_def)

lemma outage_keeps_indirections_witness:
  "fst (resolveAddrs (sample_env (\<lambda>_. Inl (ErrText ''SERVFAIL''))) map_lru sample_lib ''P''
     [sample_ip, sample_dnsaddr] False (sample_dns_state Map.empty)) = [sample_ip, sample_dnsaddr]"
proof -
  have "dark (sample_env (\<lambda>_. Inl (ErrText ''SERVFAIL''))) map_lru (sample_dns_state Map.empty)"
    by (simp add: dark_def, simp add: env_defs)
  moreover have "containsDNSAddr sample_lib [sample_ip, sample_dnsaddr]"
    by (simp add: env_defs isDNSAddr_def)
  ultimately show ?thesis
    by (simp add: outage_keeps_indirections) (simp add: env_defs foreign_def splitPeerID_def appendUnique_def)
qed

text \<open>
  C22. Threading the room through the recursion only truncates. While the names this expansion asks for
  are answered from the cache (that is all the hypotheses ask of it: \<open>W\<close> may hold these names only), no
  one evicts them and the request lives, \<open>expand\<close> returns the first \<open>room\<close> addresses of the unlimited
  depth-first expansion; it says "complete" only if the unlimited expansion is whole and fits, and does
  say so when it is whole and leaves room to spare.
\<close>

theorem expand_refines_full_expansion:
  assumes "warm E L W st" and "0 \<le> ds_room st"
    and "covered M pid (known_name M W) (cached_answer M W) depth addr"
  shows "case (expand E L M pid depth addr st, full_expansion M pid (cached_answer M W) depth addr) of
    (((out, complete), st'), (full, whole)) \<Rightarrow>
      out = take (nat (ds_room st)) full \<and>
      (complete \<longrightarrow> whole \<and> int (length full) \<le> ds_room st) \<and>
      (whole \<and> int (length full) < ds_room st \<longrightarrow> complete)"
  using warm_names.expand_approximates[OF assms(3,1,2)]
  by (auto simp: approximates_def split: prod.splits)

definition warm_entry :: "comps list \<Rightarrow> comps dnsAddrCacheEntry" where [env_defs]:
  "warm_entry as = \<lparr>ce_addrs = as, ce_ok = True, ce_expires = 1\<rparr>"

lemma warm_sample:
  "warm (sample_env (\<lambda>_. Inr [])) map_lru W (sample_dns_state W)" if "\<And>k e. W k = Some e \<Longrightarrow> ce_expires e = 1"
  using that by (simp add: warm_def, simp add: env_defs)

lemma expand_refines_full_expansion_witness:
  "fst (expand (sample_env (\<lambda>_. Inr [])) map_lru sample_lib ''P'' 4 sample_dnsaddr
     (sample_dns_state [dnsAddrCacheKey sample_lib sample_dnsaddr \<mapsto> warm_entry [sample_ip, sample_dns]])) =
   ([sample_ip, sample_dns], True)"
proof -
  let ?W = "[dnsAddrCacheKey sample_lib sample_dnsaddr \<mapsto> warm_entry [sample_ip, sample_dns]]"
  let ?st = "sample_dns_state ?W"
  have w: "warm (sample_env (\<lambda>_. Inr [])) map_lru ?W ?st"
    by (rule warm_sample) (auto simp: warm_entry_def split: if_splits)
  have r: "ds_room ?st = 100" by (simp add: sample_dns_state_def MaxDNSAddrResolvedPerRecord_def)
  have ask: "cached_answer sample_lib ?W sample_dnsaddr = ([sample_ip, sample_dns], True)" "known_name sample_lib ?W sample_dnsaddr"
    by (simp_all add: cached_answer_def known_name_def warm_entry_def)
  have split: "splitPeerID sample_lib sample_dnsaddr = ([], sample_dnsaddr)" "resolvableDNSAddr sample_lib sample_dnsaddr"
    by (simp_all add: env_defs splitPeerID_def resolvableDNSAddr_def)
  have share: "share sample_lib ''P'' f a = ([a], True)" "\<not> isDNSAddr sample_lib (snd (splitPeerID sample_lib a))"
    if "a = sample_ip \<or> a = sample_dns" for f a
    using that by (auto simp: env_defs splitPeerID_def share_def skipped_def isDNSAddr_def)
  have full: "full_expansion sample_lib ''P'' (cached_answer sample_lib ?W) 4 sample_dnsaddr = ([sample_ip, sample_dns], True)"
    by (simp add: numeral_eq_Suc split ask share)
  have "covered sample_lib ''P'' (known_name sample_lib ?W) (cached_answer sample_lib ?W) 4 sample_dnsaddr"
    by (simp add: numeral_eq_Suc split ask share)
  from expand_refines_full_expansion[OF w _ this] r full show ?thesis by (auto split: prod.splits)
qed

end
