(* ===== verification/DnsCache.thy ===== *)
theory DnsCache
  imports DnsAddr
begin

text \<open>
  The cache behind \<open>/dnsaddr\<close> resolution: which names share an entry, how long an answer is kept and
  that it is then free, and what re-entering a cached name costs.
\<close>

section \<open>Keys\<close>

lemma asciiLower_eq: "asciiLower s = map ascii_lower_char s"
proof -
  have "of_char CHR ''A'' = (65 :: nat)" "of_char CHR ''Z'' = (90 :: nat)" "of_char CHR ''a'' = (97 :: nat)"
    by code_simp+
  then show ?thesis by (simp add: asciiLower_def ascii_lower_char_def cong: if_cong)
qed

lemma ascii_lower_slash: "ascii_lower_char c = CHR ''/'' \<longleftrightarrow> c = CHR ''/''"
proof (cases "of_char c \<ge> (65::nat) \<and> of_char c \<le> (90::nat)")
  case True
  then have "of_char (ascii_lower_char c) = (of_char c + 32 :: nat)"
    by (simp add: ascii_lower_char_def of_char_of take_bit_eq_mod)
  moreover have "of_char CHR ''/'' = (47 :: nat)" by code_simp
  ultimately show ?thesis using True by auto
next
  case False
  then show ?thesis by (auto simp: ascii_lower_char_def)
qed

lemma trimSuffix_subset: "set (trimSuffix s p) \<subseteq> set s"
  by (auto simp: trimSuffix_def cutSuffix_def dest: in_set_takeD)

definition host_form :: "string \<Rightarrow> string" where
  "host_form h = trimSuffix (asciiLower h) ''.''"

lemma host_form_no_slash: "CHR ''/'' \<notin> set h \<Longrightarrow> CHR ''/'' \<notin> set (host_form h)"
proof -
  assume h: "CHR ''/'' \<notin> set h"
  have "CHR ''/'' \<notin> set (asciiLower h)"
  proof
    assume "CHR ''/'' \<in> set (asciiLower h)"
    then obtain c where "c \<in> set h" "ascii_lower_char c = CHR ''/''"
      unfolding asciiLower_eq set_map by (metis imageE)
    with h show False by (metis ascii_lower_slash)
  qed
  then show ?thesis
    unfolding host_form_def by (rule contra_subsetD[OF trimSuffix_subset])
qed

lemma takeWhile_separator:
  "c \<notin> set u \<Longrightarrow> t = [] \<or> hd t = c \<Longrightarrow> takeWhile (\<lambda>a. a \<noteq> c) (u @ t) = u"
proof (induction u)
  case Nil
  then show ?case by (cases t) simp_all
next
  case (Cons a u)
  then show ?case by auto
qed

lemma split_at_separator:
  assumes "c \<notin> set x" "c \<notin> set y" "r = [] \<or> hd r = c" "s = [] \<or> hd s = c"
  shows "x @ r = y @ s \<longleftrightarrow> x = y \<and> r = s"
proof
  assume eq: "x @ r = y @ s"
  from takeWhile_separator[OF assms(1,3)] takeWhile_separator[OF assms(2,4)] eq
  have "x = y" by simp
  with eq show "x = y \<and> r = s" by simp
qed simp

definition rest_form :: "'ma malib \<Rightarrow> 'ma \<Rightarrow> string" where
  "rest_form M r = (if ma_Len M r > 0 then ma_String M r else [])"

lemma key_eq:
  "ma_SplitFirst M a = (Some (P_DNSADDR, h), r) \<Longrightarrow>
     dnsAddrCacheKey M a = ''/dnsaddr/'' @ host_form h @ rest_form M r"
  by (simp add: dnsAddrCacheKey_def host_form_def rest_form_def Let_def)

section \<open>Hits\<close>

text \<open>A state whose cache holds an unexpired entry for the name answers from it, for free.\<close>

lemma lookup_hit:
  assumes "lru_lawful L" and "lru_Peek L (ds_cache st) (dnsAddrCacheKey M a) = Some entry"
    and "env_now E (ds_tick st) < ce_expires entry"
  shows "fst (lookup E L M a st) = (ce_addrs entry, ce_ok entry) \<and>
    ds_budget (snd (lookup E L M a st)) = ds_budget st \<and>
    ds_queries (snd (lookup E L M a st)) = ds_queries st \<and>
    ds_metrics (snd (lookup E L M a st)) = ds_metrics st @ [CacheHit]"
proof -
  obtain c where "lru_Get L (ds_cache st) (dnsAddrCacheKey M a) = (Some entry, c)"
    using lru_Get_fst[OF assms(1), of "ds_cache st" "dnsAddrCacheKey M a"] assms(2)
    by (cases "lru_Get L (ds_cache st) (dnsAddrCacheKey M a)") auto
  with assms(3) show ?thesis
    by (simp add: lookup_def Let_def observe_def inc_metric_def)
qed

section \<open>The cost of names that point at themselves\<close>

definition hits :: "('c, 'ma) dns_state \<Rightarrow> nat" where
  "hits st = count_list (ds_metrics st) CacheHit"

text \<open>An entry for a name whose TXT record lists the name itself, \<open>n\<close> times, and nothing else.\<close>

definition self_reference :: "'ma malib \<Rightarrow> nat \<Rightarrow> 'ma \<Rightarrow> 'ma dnsAddrCacheEntry \<Rightarrow> bool" where
  "self_reference M n x e \<longleftrightarrow> splitPeerID M x = ([], x) \<and> resolvableDNSAddr M x \<and> ma_Len M x \<noteq> 0 \<and>
     ce_addrs e = replicate n x \<and> ce_ok e"

text \<open>
  The states in which that one entry is cached, and what a cached walk that finds no address leaves
  behind, \<open>k\<close> cache reads later.
\<close>

definition holds_entry ::
  "('c, 'ma) dns_env \<Rightarrow> ('c, 'ma) dns_lru \<Rightarrow> 'ma malib \<Rightarrow> 'ma \<Rightarrow> 'ma dnsAddrCacheEntry \<Rightarrow> ('c, 'ma) dns_state \<Rightarrow> bool" where
  "holds_entry E L M x e st \<longleftrightarrow> warm E L [dnsAddrCacheKey M x \<mapsto> e] st"

definition idle_walk ::
  "('c, 'ma) dns_env \<Rightarrow> ('c, 'ma) dns_lru \<Rightarrow> 'ma malib \<Rightarrow> 'ma \<Rightarrow> 'ma dnsAddrCacheEntry \<Rightarrow> nat \<Rightarrow>
     ('c, 'ma) dns_state \<Rightarrow> ('c, 'ma) dns_state \<Rightarrow> bool" where
  "idle_walk E L M x e k st st' \<longleftrightarrow> holds_entry E L M x e st' \<and> ds_room st' = ds_room st \<and>
     ds_budget st' = ds_budget st \<and> ds_queries st' = ds_queries st \<and> hits st' = hits st + k"

lemma idle_walk_trans: "idle_walk E L M x e k a b \<Longrightarrow> idle_walk E L M x e l b c \<Longrightarrow> idle_walk E L M x e (k + l) a c"
  by (simp add: idle_walk_def)

lemma idle_walk_lookup:
  assumes "holds_entry E L M x e st"
  shows "idle_walk E L M x e 1 st (snd (lookup E L M x (snd (observe E st))))"
    and "fst (lookup E L M x (snd (observe E st))) = (ce_addrs e, ce_ok e)"
proof -
  have "known_name M [dnsAddrCacheKey M x \<mapsto> e] x" by (simp add: known_name_def)
  from lookup_warm[OF warm_observe[OF assms[unfolded holds_entry_def]] this]
  show "idle_walk E L M x e 1 st (snd (lookup E L M x (snd (observe E st))))"
    and "fst (lookup E L M x (snd (observe E st))) = (ce_addrs e, ce_ok e)"
    by (simp_all add: idle_walk_def holds_entry_def hits_def state_simps cached_answer_def)
qed

lemma expand_results_self_reference:
  assumes x: "self_reference M n x e"
    and nested: "\<And>s. holds_entry E L M x e s \<Longrightarrow> 0 < ds_room s \<Longrightarrow>
      fst (fst (nested x s)) = [] \<and> idle_walk E L M x e k s (snd (nested x s))"
    and "holds_entry E L M x e st" "0 < ds_room st"
  shows "fst (fst (expand_results M pid nested (replicate m x) out ok st)) = out \<and>
    idle_walk E L M x e (m * k) st (snd (expand_results M pid nested (replicate m x) out ok st))"
  using assms(3,4)
proof (induction m arbitrary: ok st)
  case 0
  then show ?case by (simp add: idle_walk_def)
next
  case (Suc m)
  have v: "visit M pid nested x st = nested x st"
    using x resolvableDNSAddr_isDNSAddr[of M x] by (auto simp: self_reference_def visit_def skipped_def)
  note n = nested[OF Suc.prems]
  have "holds_entry E L M x e (snd (nested x st))" "0 < ds_room (snd (nested x st))"
    using n Suc.prems by (auto simp: idle_walk_def)
  from Suc.IH[OF this] n Suc.prems show ?case
    by (auto simp: expand_results_Cons Let_def v intro: idle_walk_trans)
qed

lemma expand_self_reference:
  assumes "self_reference M n x e" and "holds_entry E L M x e st" and "0 < ds_room st"
  shows "fst (fst (expand E L M pid depth x st)) = [] \<and>
    idle_walk E L M x e (\<Sum>i<depth. n ^ i) st (snd (expand E L M pid depth x st))"
  using assms(2,3)
proof (induction depth arbitrary: st)
  case 0
  then show ?case by (simp add: idle_walk_def)
next
  case (Suc depth)
  let ?st2 = "snd (lookup E L M x (snd (observe E st)))"
  have walk: "idle_walk E L M x e 1 st ?st2" by (rule idle_walk_lookup(1)[OF Suc.prems(1)])
  then have st2: "holds_entry E L M x e ?st2" "0 < ds_room ?st2" using Suc.prems by (auto simp: idle_walk_def)
  have ans: "fst (lookup E L M x (snd (observe E st))) = (replicate n x, True)"
    using idle_walk_lookup(2)[OF Suc.prems(1)] assms(1) by (simp add: self_reference_def)
  have cost: "(\<Sum>i<Suc depth. n ^ i) = 1 + n * (\<Sum>i<depth. n ^ i)"
    by (simp add: sum.lessThan_Suc_shift sum_distrib_left del: sum.lessThan_Suc)
  have ctx: "\<not> env_ctx_done E t" for t using Suc.prems(1) by (simp add: holds_entry_def warm_def)
  note loop = expand_results_self_reference[where nested = "expand E L M pid depth" and pid = pid
      and m = n and out = "[]" and ok = True, OF assms(1) Suc.IH st2]
  then show ?case
    using Suc.prems(2) assms(1) ans ctx idle_walk_trans[OF walk, of "n * (\<Sum>i<depth. n ^ i)"]
    unfolding cost by (simp add: Let_def case_prod_beta self_reference_def)
qed

section \<open>Spellings of a name\<close>

text \<open>
  Two characters that are the same letter up to ASCII case, and two spellings of a host name: letter by
  letter the same, each with or without the trailing dot of a fully qualified name.
\<close>

definition same_letter :: "char \<Rightarrow> char \<Rightarrow> bool" where
  "same_letter c d \<longleftrightarrow> c = d \<or>
     (of_char c \<in> {65..90 :: nat} \<and> of_char d = (of_char c + 32 :: nat)) \<or>
     (of_char d \<in> {65..90 :: nat} \<and> of_char c = (of_char d + 32 :: nat))"

definition same_host :: "string \<Rightarrow> string \<Rightarrow> bool" where
  "same_host h g \<longleftrightarrow>
     (\<exists>u v. (h = u \<or> h = u @ ''.'') \<and> (g = v \<or> g = v @ ''.'') \<and> (u = [] \<or> last u \<noteq> CHR ''.'') \<and> list_all2 same_letter u v)"

lemma of_char_dot: "(of_char CHR ''.'' :: nat) = 46"
  by code_simp

lemma upper_lower:
  fixes a b :: char
  assumes "of_char a \<in> {65..90 :: nat}" and "of_char b = (of_char a + 32 :: nat)"
  shows "ascii_lower_char a = ascii_lower_char b" and "a \<noteq> CHR ''.''" and "b \<noteq> CHR ''.''"
proof -
  have "ascii_lower_char a = char_of (of_char a + 32 :: nat)" using assms(1) by (simp add: ascii_lower_char_def)
  also have "\<dots> = b" unfolding assms(2)[symmetric] by (rule char_of_char)
  also have "b = ascii_lower_char b" using assms by (simp add: ascii_lower_char_def)
  finally show "ascii_lower_char a = ascii_lower_char b" .
  show "a \<noteq> CHR ''.''" using assms(1) of_char_dot by (intro notI) simp
  show "b \<noteq> CHR ''.''" using assms of_char_dot by (intro notI) simp
qed

lemma same_letter_lower: "same_letter c d \<Longrightarrow> ascii_lower_char c = ascii_lower_char d"
  unfolding same_letter_def by (elim disjE conjE) (simp_all add: upper_lower(1))

lemma same_letter_dot: "same_letter c d \<Longrightarrow> c = CHR ''.'' \<longleftrightarrow> d = CHR ''.''"
  unfolding same_letter_def by (elim disjE conjE) (simp_all add: upper_lower(2,3))

lemma trim_dot: "u = [] \<or> last u \<noteq> CHR ''.'' \<Longrightarrow> trimSuffix u ''.'' = u" "trimSuffix (u @ ''.'') ''.'' = u"
proof -
  show "trimSuffix u ''.'' = u" if "u = [] \<or> last u \<noteq> CHR ''.''"
    using that by (cases u rule: rev_cases) (auto simp: trimSuffix_def cutSuffix_def hasSuffix_def)
  show "trimSuffix (u @ ''.'') ''.'' = u"
    by (simp add: trimSuffix_def cutSuffix_def hasSuffix_def)
qed

lemma lower_dot: "ascii_lower_char c = CHR ''.'' \<longleftrightarrow> c = CHR ''.''"
proof (cases "of_char c \<ge> (65::nat) \<and> of_char c \<le> (90::nat)")
  case True
  then have "of_char (ascii_lower_char c) = (of_char c + 32 :: nat)"
    by (simp add: ascii_lower_char_def of_char_of take_bit_eq_mod)
  moreover have "of_char CHR ''.'' = (46 :: nat)" by code_simp
  ultimately show ?thesis using True by auto
qed (auto simp: ascii_lower_char_def)

lemma same_host_form:
  assumes "same_host h g"
  shows "host_form h = host_form g"
proof -
  from assms obtain u v where uv: "h = u \<or> h = u @ ''.''" "g = v \<or> g = v @ ''.''" "u = [] \<or> last u \<noteq> CHR ''.''"
    "list_all2 same_letter u v" unfolding same_host_def by blast
  have low: "asciiLower u = asciiLower v"
    using uv(4) unfolding asciiLower_eq by (induction rule: list_all2_induct) (simp_all add: same_letter_lower)
  have last: "v = [] \<or> last v \<noteq> CHR ''.''"
    using uv(3,4) by (cases u rule: rev_cases; cases v rule: rev_cases)
      (auto simp: list_all2_append2 list_all2_Cons2 list_all2_append1 list_all2_Cons1 dest: list_all2_lengthD same_letter_dot)
  have dot: "asciiLower (w @ ''.'') = asciiLower w @ ''.''" for w
    by (simp add: asciiLower_eq) (simp add: lower_dot)
  have trim: "host_form w = asciiLower w" if "w = [] \<or> last w \<noteq> CHR ''.''" for w
    unfolding host_form_def using that by (intro trim_dot(1)) (auto simp: asciiLower_eq last_map lower_dot)
  have trim_dotted: "host_form (w @ ''.'') = asciiLower w" for w
    unfolding host_form_def dot by (rule trim_dot(2))
  show ?thesis using uv(1,2) trim[OF uv(3)] trim[OF last] trim_dotted low by auto
qed

section \<open>Properties\<close>

text \<open>
  Two \<open>/dnsaddr\<close> addresses share a cache entry exactly when their hosts agree up to ASCII case and
  a trailing dot and everything after the host is the same, byte for byte. The hypotheses are the
  text form of multiaddrs: a host holds no slash, what follows it starts with one.
\<close>

theorem dnsAddrCacheKey_iff:
  assumes "ma_SplitFirst M a = (Some (P_DNSADDR, h), r)"
    and "ma_SplitFirst M b = (Some (P_DNSADDR, g), s)"
    and "CHR ''/'' \<notin> set h" and "CHR ''/'' \<notin> set g"
    and "rest_form M r = [] \<or> hd (rest_form M r) = CHR ''/''"
    and "rest_form M s = [] \<or> hd (rest_form M s) = CHR ''/''"
  shows "dnsAddrCacheKey M a = dnsAddrCacheKey M b \<longleftrightarrow>
    host_form h = host_form g \<and> rest_form M r = rest_form M s"
  using key_eq[OF assms(1)] key_eq[OF assms(2)]
    split_at_separator[OF host_form_no_slash[OF assms(3)] host_form_no_slash[OF assms(4)] assms(5,6)]
  by simp

lemma dnsAddrCacheKey_iff_witness:
  "(dnsAddrCacheKey sample_lib [(P_DNSADDR, ''A.io.'')] = dnsAddrCacheKey sample_lib [(P_DNSADDR, ''a.io'')])
     = (host_form ''A.io.'' = host_form ''a.io'' \<and> rest_form sample_lib [] = rest_form sample_lib [])"
  by (rule dnsAddrCacheKey_iff) (simp_all add: env_defs rest_form_def)

text \<open>
  C23. A name just resolved is answered from the cache, however it is spelled: until the entry expires, a
  lookup of the bare \<open>/dnsaddr\<close> of any host that is the same up to ASCII case and a trailing dot returns
  the same addresses and the same verdict on whether they are the whole truth, sends no query and spends
  no budget. The entry lives five minutes when the name resolved to something or the query timed out,
  fifteen when it failed or resolved to nothing.
\<close>

theorem resolved_name_is_cached:
  assumes "lru_lawful L"
    and "ma_SplitFirst M addr = (Some (P_DNSADDR, h), r)" "ma_Len M r = 0"
    and "ma_SplitFirst M a = (Some (P_DNSADDR, g), r')" "ma_Len M r' = 0"
    and "same_host h g"
    and "resolve E L addr (dnsAddrCacheKey M addr) st = (entry, st1)"
    and "ds_cache st2 = ds_cache st1" and "env_now E (ds_tick st2) < ce_expires entry"
  shows "ce_expires entry = env_now E (ds_tick st + 3) +
      (case env_Resolve E (Suc (ds_tick st)) addr of
         Inl err \<Rightarrow> if errors_Is err ErrDeadlineExceeded then 5 * minute else 15 * minute
       | Inr xs \<Rightarrow> if xs = [] then 15 * minute else 5 * minute) \<and>
    (ce_addrs entry, ce_ok entry) =
      (case env_Resolve E (Suc (ds_tick st)) addr of Inl err \<Rightarrow> ([], False) | Inr xs \<Rightarrow> (xs, True)) \<and>
    fst (lookup E L M a st2) = (ce_addrs entry, ce_ok entry) \<and>
    ds_queries (snd (lookup E L M a st2)) = ds_queries st2 \<and>
    ds_budget (snd (lookup E L M a st2)) = ds_budget st2"
proof -
  let ?key = "dnsAddrCacheKey M addr"
  have key: "dnsAddrCacheKey M a = ?key"
    using key_eq[OF assms(2)] key_eq[OF assms(4)] same_host_form[OF assms(6)] assms(3,5) by (simp add: rest_form_def)
  have entry: "entry = fst (resolve E L addr ?key st)" and st1: "st1 = snd (resolve E L addr ?key st)"
    using assms(7) by simp_all
  obtain s where "st1 = s\<lparr>ds_cache := lru_Add L (ds_cache s) ?key entry\<rparr>"
    unfolding entry st1
    by (rule resolve_state[where P = "\<lambda>_. True" and E = E and L = L and st = st and addr = addr and key = ?key])
      simp_all
  then have "lru_Peek L (ds_cache st2) (dnsAddrCacheKey M a) = Some entry"
    using assms(8) key lru_Peek_Add[OF assms(1)] by simp
  from lookup_hit[OF assms(1) this assms(9)] show ?thesis
    by (simp add: entry resolve_entry entry_ttl_def DNSAddrCacheTTL_def DNSAddrFailureCacheTTL_def Let_def split: sum.split)
qed

lemma resolved_name_is_cached_witness:
  "fst (lookup (sample_env (\<lambda>_. Inr [sample_ip])) map_lru sample_lib [(P_DNSADDR, ''A.Io.'')]
      (snd (resolve (sample_env (\<lambda>_. Inr [sample_ip])) map_lru sample_dnsaddr
        (dnsAddrCacheKey sample_lib sample_dnsaddr) (sample_dns_state Map.empty)))) = ([sample_ip], True)"
proof -
  let ?E = "sample_env (\<lambda>_. Inr [sample_ip])" and ?st = "sample_dns_state Map.empty"
  let ?key = "dnsAddrCacheKey sample_lib sample_dnsaddr"
  obtain entry st1 where r: "resolve ?E map_lru sample_dnsaddr ?key ?st = (entry, st1)" by force
  have e: "entry = fst (resolve ?E map_lru sample_dnsaddr ?key ?st)" by (simp add: r)
  have "env_now ?E (ds_tick st1) < ce_expires entry"
    unfolding e resolve_entry by (simp add: env_defs entry_ttl_def DNSAddrCacheTTL_def minute_def second_def)
  moreover have "ce_addrs entry = [sample_ip]" "ce_ok entry" unfolding e resolve_entry by (simp_all add: env_defs)
  moreover have "list_all2 same_letter ''a.io'' ''A.Io''" by (simp add: same_letter_def)
  then have "same_host ''a.io'' ''A.Io.''"
    unfolding same_host_def by (intro exI[of _ "''a.io''"] exI[of _ "''A.Io''"]) simp
  moreover have "ma_SplitFirst sample_lib sample_dnsaddr = (Some (P_DNSADDR, ''a.io''), [])"
    "ma_SplitFirst sample_lib [(P_DNSADDR, ''A.Io.'')] = (Some (P_DNSADDR, ''A.Io.''), [])" "ma_Len sample_lib [] = 0"
    by (simp_all add: env_defs)
  ultimately show ?thesis
    using resolved_name_is_cached[OF lru_lawful_map_lru _ _ _ _ _ r refl, where a = "[(P_DNSADDR, ''A.Io.'')]"
        and h = "''a.io''" and g = "''A.Io.''" and r = "[]" and r' = "[]"] r by simp
qed

text \<open>
  C39. The room bounds the addresses an expansion builds, not its work. Where the one TXT record of a name
  is cached and lists only the name itself, \<open>n\<close> times, the entry is read from the cache
  \<open>1 + n + n^2 + n^3\<close> times by one expansion, which finds no address, spends no budget and leaves the room
  untouched, whatever else the cache holds: the fan-out the comment on \<open>expand\<close> rules out happens whenever
  no entry consumes room. (The entry must not expire or be evicted meanwhile, nor the request end.)
\<close>

theorem self_reference_fans_out:
  assumes "self_reference M n x e" and "warm E L [dnsAddrCacheKey M x \<mapsto> e] st" and "0 < ds_room st"
  shows "let (res, st') = expand E L M pid DNSAddrRecursionLimit x st
    in fst res = [] \<and> hits st' = hits st + (1 + n + n ^ 2 + n ^ 3) \<and>
       ds_room st' = ds_room st \<and> ds_budget st' = ds_budget st \<and> ds_queries st' = ds_queries st"
  using expand_self_reference[OF assms(1) _ assms(3), of E L pid DNSAddrRecursionLimit] assms(2)
  by (simp add: holds_entry_def case_prod_beta idle_walk_def DNSAddrRecursionLimit_def numeral_eq_Suc)

lemma self_reference_fans_out_witness:
  "hits (snd (expand (sample_env (\<lambda>_. Inr [])) map_lru sample_lib ''P'' DNSAddrRecursionLimit sample_dnsaddr
     (sample_dns_state [dnsAddrCacheKey sample_lib sample_dnsaddr \<mapsto> warm_entry (replicate 60 sample_dnsaddr)]))) = 219661"
proof -
  let ?e = "warm_entry (replicate 60 sample_dnsaddr)"
  let ?W = "[dnsAddrCacheKey sample_lib sample_dnsaddr \<mapsto> ?e]"
  have x: "self_reference sample_lib 60 sample_dnsaddr ?e"
    by (simp add: self_reference_def resolvableDNSAddr_def splitPeerID_def env_defs)
  have w: "warm (sample_env (\<lambda>_. Inr [])) map_lru ?W (sample_dns_state ?W)"
    by (rule warm_sample) (auto simp: warm_entry_def split: if_splits)
  have r: "0 < ds_room (sample_dns_state ?W)" "hits (sample_dns_state ?W) = 0"
    by (simp_all add: sample_dns_state_def MaxDNSAddrResolvedPerRecord_def hits_def)
  show ?thesis
    using self_reference_fans_out[OF x w r(1), of "''P''"] r(2) by (simp add: case_prod_beta)
qed

end
