(* ===== verification/DnsMode.thy ===== *)
theory DnsMode
  imports Prelude
begin

text \<open>
  What a request does with a \<open>/dnsaddr\<close> (the last part of dnsaddr.go): the four resolution modes and
  their parser, the reading of \<open>filter-addrs\<close> by the HTTP middleware, and the table that combines
  the two. A mode is the string it is in the code, so a value the parser never saw is a mode too.
\<close>

section \<open>Modes\<close>

type_synonym DNSAddrResolution = string

definition DNSAddrResolutionAppend :: DNSAddrResolution where "DNSAddrResolutionAppend = ''append''"
definition DNSAddrResolutionReplace :: DNSAddrResolution where "DNSAddrResolutionReplace = ''replace''"
definition DNSAddrResolutionFiltered :: DNSAddrResolution where "DNSAddrResolutionFiltered = ''filtered''"
definition DNSAddrResolutionNever :: DNSAddrResolution where "DNSAddrResolutionNever = ''never''"

lemmas mode_defs = DNSAddrResolutionAppend_def DNSAddrResolutionReplace_def
  DNSAddrResolutionFiltered_def DNSAddrResolutionNever_def

text \<open>The message of an error stands for its format string; its arguments are left out.\<close>

definition ParseDNSAddrResolution :: "string \<Rightarrow> go_err + DNSAddrResolution" where
  "ParseDNSAddrResolution s =
     (if s = DNSAddrResolutionAppend then Inr DNSAddrResolutionAppend
      else if s = DNSAddrResolutionReplace then Inr DNSAddrResolutionReplace
      else if s = DNSAddrResolutionFiltered then Inr DNSAddrResolutionFiltered
      else if s = DNSAddrResolutionNever then Inr DNSAddrResolutionNever
      else Inl (ErrText ''invalid dnsaddr resolution mode''))"

lemma ParseDNSAddrResolution_accepts:
  "ParseDNSAddrResolution m = Inr m \<longleftrightarrow>
     m = ''append'' \<or> m = ''replace'' \<or> m = ''filtered'' \<or> m = ''never''"
  by (auto simp: ParseDNSAddrResolution_def mode_defs)

section \<open>The filter of a request\<close>

datatype dnsAddrAction = dnsAddrSkip | dnsAddrReplace | dnsAddrAppend

record addrFilter =
  matchesDNSAddr :: bool

definition parseAddrFilter :: "(string \<Rightarrow> string) \<Rightarrow> string \<Rightarrow> addrFilter" where
  "parseAddrFilter uni param =
     \<lparr>matchesDNSAddr = List.member (str_Split CHR '','' (str_ToLower uni param)) ''dnsaddr''\<rparr>"

definition addrFilter_action :: "addrFilter \<Rightarrow> dnsAddrAction" where
  "addrFilter_action f = (if matchesDNSAddr f then dnsAddrAppend else dnsAddrReplace)"

text \<open>
  The part of a request the middleware reads and writes: the URL path, the first value of
  \<open>filter-addrs\<close> in the query (empty when absent) and the filter its context carries.
\<close>

record http_request =
  req_Path :: string
  req_FilterAddrs :: string
  req_Filter :: "addrFilter option"

definition withAddrFilter :: "(string \<Rightarrow> string) \<Rightarrow> (http_request \<Rightarrow> 'w) \<Rightarrow> http_request \<Rightarrow> 'w" where
  "withAddrFilter uni next r =
     (let filtered = hasPrefix (req_Path r) ''/routing/v1/providers/'' \<or>
                     hasPrefix (req_Path r) ''/routing/v1/peers/'';
          f = req_FilterAddrs r;
          r' = (if f \<noteq> [] \<and> filtered then r\<lparr>req_Filter := Some (parseAddrFilter uni f)\<rparr> else r)
      in next r')"

text \<open>\<open>m.action(ctx)\<close>, where \<open>fopt\<close> is what the context carries.\<close>

definition mode_action :: "DNSAddrResolution \<Rightarrow> addrFilter option \<Rightarrow> dnsAddrAction" where
  "mode_action m fopt =
     (if m = DNSAddrResolutionNever then dnsAddrSkip
      else if m = DNSAddrResolutionFiltered then
        (case fopt of Some f \<Rightarrow> addrFilter_action f | None \<Rightarrow> dnsAddrSkip)
      else if m = DNSAddrResolutionReplace then
        (case fopt of Some f \<Rightarrow> addrFilter_action f | None \<Rightarrow> dnsAddrReplace)
      else (case fopt of Some f \<Rightarrow> addrFilter_action f | None \<Rightarrow> dnsAddrAppend))"

section \<open>Entries of a filter\<close>

text \<open>\<open>e\<close> is a whole entry of the comma-separated list \<open>s\<close>.\<close>

definition entry_of :: "char \<Rightarrow> string \<Rightarrow> string \<Rightarrow> bool" where
  "entry_of c e s \<longleftrightarrow> c \<notin> set e \<and>
     (\<exists>pre post. s = pre @ e @ post \<and> (pre = [] \<or> last pre = c) \<and> (post = [] \<or> hd post = c))"

lemma str_Split_prepend:
  "c \<notin> set e \<Longrightarrow> str_Split c (e @ s) = (e @ hd (str_Split c s)) # tl (str_Split c s)"
proof (induction e)
  case Nil
  then show ?case by simp
next
  case (Cons x e)
  then show ?case by auto
qed

lemma str_Split_entry: "c \<notin> set e \<Longrightarrow> str_Split c e = [e]"
  using str_Split_prepend[of c e "[]"] by simp

lemma str_Split_sep: "str_Split c (pre @ c # s) = str_Split c pre @ str_Split c s"
proof (induction pre)
  case Nil
  then show ?case by simp
next
  case (Cons x pre)
  show ?case
  proof (cases "x = c")
    case False
    with Cons show ?thesis by (cases "str_Split c pre") auto
  qed (use Cons in simp)
qed

lemma str_Split_member: "e \<in> set (str_Split c s) \<longleftrightarrow> entry_of c e s"
proof
  show "e \<in> set (str_Split c s) \<Longrightarrow> entry_of c e s"
  proof (induction s rule: length_induct)
    case (1 s)
    show ?case
    proof (cases "c \<in> set s")
      case False
      with 1(2) have "e = s" by (simp add: str_Split_entry)
      with False show ?thesis unfolding entry_of_def by (intro conjI exI[of _ "[]"]) auto
    next
      case True
      then obtain f t where s: "s = f @ c # t" "c \<notin> set f" by (metis split_list_first)
      have "e = f \<or> e \<in> set (str_Split c t)"
        using 1(2) s by (simp add: str_Split_sep str_Split_entry)
      then show ?thesis
      proof
        assume "e = f"
        with s show ?thesis unfolding entry_of_def by (intro conjI exI[of _ "[]"] exI[of _ "c # t"]) auto
      next
        assume "e \<in> set (str_Split c t)"
        with 1(1) s have "entry_of c e t" by simp
        then obtain pre post where t: "c \<notin> set e" "t = pre @ e @ post"
          "pre = [] \<or> last pre = c" "post = [] \<or> hd post = c" unfolding entry_of_def by blast
        then have "s = (f @ c # pre) @ e @ post" "last (f @ c # pre) = c" using s by auto
        with t show ?thesis unfolding entry_of_def by blast
      qed
    qed
  qed
next
  assume "entry_of c e s"
  then obtain pre post where e: "c \<notin> set e" and s: "s = pre @ e @ post"
    and pre: "pre = [] \<or> last pre = c" and post: "post = [] \<or> hd post = c" unfolding entry_of_def by blast
  have mem: "e \<in> set (str_Split c (e @ post))"
    using post e by (cases post) (auto simp: str_Split_entry str_Split_sep)
  show "e \<in> set (str_Split c s)"
  proof (cases "pre = []")
    case True
    with mem s show ?thesis by simp
  next
    case False
    with pre have "pre = butlast pre @ [c]" by (metis append_butlast_last_id)
    then have "s = butlast pre @ c # (e @ post)" using s by (metis append.assoc append_Cons append_Nil)
    with mem show ?thesis by (simp add: str_Split_sep)
  qed
qed

text \<open>The mode an unfiltered response is named after.\<close>

definition unfiltered_action :: "DNSAddrResolution \<Rightarrow> dnsAddrAction" where
  "unfiltered_action m =
     (if m = DNSAddrResolutionAppend then dnsAddrAppend
      else if m = DNSAddrResolutionReplace then dnsAddrReplace else dnsAddrSkip)"

section \<open>Properties\<close>

text \<open>
  Parsing a mode accepts exactly the four documented names and returns the name; two accepted
  modes that treat every request alike are the same mode, and the zero value treats every request
  as \<open>append\<close> does.
\<close>

theorem ParseDNSAddrResolution_spec:
  "{(s, m). ParseDNSAddrResolution s = Inr m} =
     {(m, m) | m. m = ''append'' \<or> m = ''replace'' \<or> m = ''filtered'' \<or> m = ''never''} \<and>
   inj_on mode_action {m. ParseDNSAddrResolution m = Inr m} \<and>
   mode_action [] = mode_action ''append''"
proof (intro conjI)
  show "inj_on mode_action {m. ParseDNSAddrResolution m = Inr m}"
  proof (rule inj_onI, simp only: mem_Collect_eq ParseDNSAddrResolution_accepts)
    fix m m'
    assume "mode_action m = mode_action m'"
    then have "mode_action m None = mode_action m' None"
      "mode_action m (Some \<lparr>matchesDNSAddr = False\<rparr>) = mode_action m' (Some \<lparr>matchesDNSAddr = False\<rparr>)"
      by simp_all
    moreover assume "m = ''append'' \<or> m = ''replace'' \<or> m = ''filtered'' \<or> m = ''never''"
      "m' = ''append'' \<or> m' = ''replace'' \<or> m' = ''filtered'' \<or> m' = ''never''"
    ultimately show "m = m'"
      by (elim disjE) (simp_all add: mode_action_def mode_defs addrFilter_action_def)
  qed
qed (auto simp: ParseDNSAddrResolution_def mode_action_def mode_defs fun_eq_iff split: if_splits)

text \<open>
  What a request does with a \<open>/dnsaddr\<close>, from its path and query to the action the router takes,
  for any ASCII filter. Mode \<open>never\<close> leaves it alone. Otherwise a non-empty \<open>filter-addrs\<close> on the
  providers or peers endpoint replaces it, unless some entry of the filter, up to case, is \<open>dnsaddr\<close>
  and keeps it; every other request follows the mode.
\<close>

theorem request_action_table:
  assumes "req_Filter r = None" and "is_ascii (req_FilterAddrs r)"
    and "ParseDNSAddrResolution m = Inr m"
  shows "withAddrFilter uni (\<lambda>r'. mode_action m (req_Filter r')) r =
    (if m = ''never'' then dnsAddrSkip
     else if req_FilterAddrs r \<noteq> [] \<and>
         ((\<exists>rest. req_Path r = ''/routing/v1/providers/'' @ rest) \<or> (\<exists>rest. req_Path r = ''/routing/v1/peers/'' @ rest))
       then (if entry_of CHR '','' ''dnsaddr'' (map ascii_lower_char (req_FilterAddrs r))
             then dnsAddrAppend else dnsAddrReplace)
     else unfiltered_action m)"
proof -
  let ?seen = "req_FilterAddrs r \<noteq> [] \<and> ((\<exists>rest. req_Path r = ''/routing/v1/providers/'' @ rest) \<or>
    (\<exists>rest. req_Path r = ''/routing/v1/peers/'' @ rest))"
  have ctx: "withAddrFilter uni (\<lambda>r'. mode_action m (req_Filter r')) r =
      mode_action m (if ?seen then Some (parseAddrFilter uni (req_FilterAddrs r)) else None)"
    by (simp add: withAddrFilter_def Let_def hasPrefix_iff assms(1))
  have act: "addrFilter_action (parseAddrFilter uni (req_FilterAddrs r)) =
      (if entry_of CHR '','' ''dnsaddr'' (map ascii_lower_char (req_FilterAddrs r))
       then dnsAddrAppend else dnsAddrReplace)"
    by (simp add: parseAddrFilter_def str_ToLower_def addrFilter_action_def str_Split_member assms(2))
  have m: "m = ''append'' \<or> m = ''replace'' \<or> m = ''filtered'' \<or> m = ''never''"
    using assms(3) by (simp add: ParseDNSAddrResolution_accepts)
  show ?thesis
  proof (cases ?seen)
    case True
    with ctx act m show ?thesis by (auto simp: mode_action_def mode_defs)
  next
    case False
    with m show ?thesis
      unfolding ctx if_not_P[OF False] by (auto simp: mode_action_def unfiltered_action_def mode_defs)
  qed
qed

lemma request_action_table_witness:
  "withAddrFilter id (\<lambda>r'. mode_action ''append'' (req_Filter r'))
     \<lparr>req_Path = ''/routing/v1/peers/x'', req_FilterAddrs = ''ws'', req_Filter = None\<rparr> = dnsAddrReplace"
proof -
  have "map ascii_lower_char ''ws'' = ''ws''" by (simp add: ascii_lower_char_def)
  moreover have "\<not> entry_of CHR '','' ''dnsaddr'' ''ws''"
    unfolding str_Split_member[symmetric] by simp
  ultimately show ?thesis
    by (subst request_action_table) (simp_all add: is_ascii_def ParseDNSAddrResolution_def mode_defs)
qed

end
