(* ===== verification/AddrBook.thy ===== *)
theory AddrBook
  imports Multiaddr
begin

text \<open>
  The peer address cache (cached_addr_book.go): its state, its options, the handlers of the two
  event-bus events and of the probe timer, the replacement of a peer's addresses after an identify,
  the reads and writes of the routers, and the failure bookkeeping behind the probe back-off. The
  probe loop that runs beside these is in \<open>Probing\<close>.

  The libp2p address book, the LRU cache and the vendored constants are parameters.
  \<open>addrbook_lawful\<close> states the documented contract of \<open>peerstore.AddrBook\<close> as its effect on the TTL
  each address is held with; addresses disappearing when their TTL runs out is the library's doing
  and happens between the operations modelled here.
\<close>

section \<open>Time and machine integers\<close>

text \<open>
  \<open>time.Duration\<close> is an \<open>int64\<close> of nanoseconds: products and shifts wrap. \<open>time.Time\<close> is a number of
  nanoseconds, the zero time is 0, and \<open>Sub\<close> saturates.
\<close>

definition int64 :: "int \<Rightarrow> int" where "int64 x = signed_take_bit 63 x"
definition max_int64 :: int where "max_int64 = 2 ^ 63 - 1"

definition time_Sub :: "int \<Rightarrow> int \<Rightarrow> int" where
  "time_Sub a b = max (- (2 ^ 63)) (min max_int64 (a - b))"

definition time_zero :: int where "time_zero = 0"

definition shl64 :: "64 word \<Rightarrow> int" where
  "shl64 k = (if 64 \<le> unat k then 0 else int64 (2 ^ unat k))"

definition time_Hour :: int where "time_Hour = 3600 * 10 ^ 9"

definition PeerProbeThreshold :: int where "PeerProbeThreshold = time_Hour"
definition MaxConcurrentProbes :: nat where "MaxConcurrentProbes = 20"
definition DefaultMaxConcurrentFindPeers :: nat where "DefaultMaxConcurrentFindPeers = 512"

section \<open>Libraries\<close>

datatype connectedness = NotConnected | Connected | CanConnect | CannotConnect | Limited
datatype direction = DirUnknown | DirInbound | DirOutbound

text \<open>Constants of go-libp2p and go-libp2p-kad-dht.\<close>

record lib_consts =
  DefaultProvideValidity :: int
  ConnectedAddrTTL :: int
  ReservationTTL :: int

text \<open>
  \<open>peerstore.AddrBook\<close>. The last three fields are what the contract speaks of: the TTL an address is
  held with, the form an address is stored in for a peer (\<open>None\<close> where the book refuses it, as one
  that names another peer), and the peer and addresses of a signed record.
\<close>

record ('ab, 'ma, 'env) addrbook_lib =
  ab_New :: 'ab
  ab_AddAddrs :: "'ab \<Rightarrow> peer_id \<Rightarrow> 'ma list \<Rightarrow> int \<Rightarrow> 'ab"
  ab_SetAddrs :: "'ab \<Rightarrow> peer_id \<Rightarrow> 'ma list \<Rightarrow> int \<Rightarrow> 'ab"
  ab_UpdateAddrs :: "'ab \<Rightarrow> peer_id \<Rightarrow> int \<Rightarrow> int \<Rightarrow> 'ab"
  ab_ClearAddrs :: "'ab \<Rightarrow> peer_id \<Rightarrow> 'ab"
  ab_Addrs :: "'ab \<Rightarrow> peer_id \<Rightarrow> 'ma list"
  ab_PeersWithAddrs :: "'ab \<Rightarrow> peer_id list"
  ab_Certified :: bool
  ab_ConsumePeerRecord :: "'ab \<Rightarrow> 'env \<Rightarrow> int \<Rightarrow> (bool \<times> go_err option) \<times> 'ab"
  ab_TTL :: "'ab \<Rightarrow> peer_id \<Rightarrow> 'ma \<Rightarrow> int option"
  ab_Stored :: "peer_id \<Rightarrow> 'ma \<Rightarrow> 'ma option"
  ab_RecordOf :: "'env \<Rightarrow> peer_id \<times> 'ma list"

definition stored_set :: "('ab, 'ma, 'env) addrbook_lib \<Rightarrow> peer_id \<Rightarrow> 'ma list \<Rightarrow> 'ma set" where
  "stored_set B p as = {b. \<exists>a \<in> set as. ab_Stored B p a = Some b}"

text \<open>Adding only ever extends a TTL.\<close>

definition ttl_extended :: "int \<Rightarrow> int option \<Rightarrow> int option" where
  "ttl_extended ttl old = Some (case old of None \<Rightarrow> ttl | Some t \<Rightarrow> max t ttl)"

definition ttl_added ::
  "('ab, 'ma, 'env) addrbook_lib \<Rightarrow> 'ab \<Rightarrow> peer_id \<Rightarrow> 'ma list \<Rightarrow> int \<Rightarrow> peer_id \<Rightarrow> 'ma \<Rightarrow> int option" where
  "ttl_added B b p as ttl q x =
     (if q = p \<and> 0 < ttl \<and> x \<in> stored_set B p as then ttl_extended ttl (ab_TTL B b q x) else ab_TTL B b q x)"

definition addrbook_lawful :: "('ab, 'ma, 'env) addrbook_lib \<Rightarrow> bool" where
  "addrbook_lawful B \<longleftrightarrow>
     (\<forall>q x. ab_TTL B (ab_New B) q x = None) \<and>
     (\<forall>b p as ttl q x. ab_TTL B (ab_AddAddrs B b p as ttl) q x = ttl_added B b p as ttl q x) \<and>
     (\<forall>b p as ttl q x. 0 < ttl \<longrightarrow> ab_TTL B (ab_SetAddrs B b p as ttl) q x =
        (if q = p \<and> x \<in> stored_set B p as then Some ttl else ab_TTL B b q x)) \<and>
     (\<forall>b p old new q x. 0 < new \<longrightarrow> ab_TTL B (ab_UpdateAddrs B b p old new) q x =
        (if q = p \<and> ab_TTL B b q x = Some old then Some new else ab_TTL B b q x)) \<and>
     (\<forall>b p q x. ab_TTL B (ab_ClearAddrs B b p) q x = (if q = p then None else ab_TTL B b q x)) \<and>
     (\<forall>b p. set (ab_Addrs B b p) = {x. ab_TTL B b p x \<noteq> None}) \<and>
     (\<forall>b p x. ab_TTL B b p x \<noteq> None \<longrightarrow> ab_Stored B p x = Some x) \<and>
     (\<forall>b env ttl q x. ab_TTL B (snd (ab_ConsumePeerRecord B b env ttl)) q x =
        (if fst (fst (ab_ConsumePeerRecord B b env ttl))
         then ttl_added B b (fst (ab_RecordOf B env)) (snd (ab_RecordOf B env)) ttl q x
         else ab_TTL B b q x))"

lemma addrbook_lawfulD:
  assumes "addrbook_lawful B"
  shows ab_TTL_Add: "ab_TTL B (ab_AddAddrs B b p as ttl) q x = ttl_added B b p as ttl q x"
    and ab_TTL_Set: "0 < ttl \<Longrightarrow> ab_TTL B (ab_SetAddrs B b p as ttl) q x =
        (if q = p \<and> x \<in> stored_set B p as then Some ttl else ab_TTL B b q x)"
    and ab_TTL_Update: "0 < new \<Longrightarrow> ab_TTL B (ab_UpdateAddrs B b p old new) q x =
        (if q = p \<and> ab_TTL B b q x = Some old then Some new else ab_TTL B b q x)"
    and ab_TTL_Clear: "ab_TTL B (ab_ClearAddrs B b p) q x = (if q = p then None else ab_TTL B b q x)"
    and ab_Addrs_set: "set (ab_Addrs B b p) = {x. ab_TTL B b p x \<noteq> None}"
    and ab_Stored_self: "ab_TTL B b p x \<noteq> None \<Longrightarrow> ab_Stored B p x = Some x"
    and ab_TTL_Consume: "ab_TTL B (snd (ab_ConsumePeerRecord B b env ttl)) q x =
        (if fst (fst (ab_ConsumePeerRecord B b env ttl))
         then ttl_added B b (fst (ab_RecordOf B env)) (snd (ab_RecordOf B env)) ttl q x
         else ab_TTL B b q x)"
  using assms by (auto simp: addrbook_lawful_def)

section \<open>State\<close>

record peerState =
  lastConnTime :: int
  lastFailedConnTime :: int
  connectFailures :: "64 word"

definition peerState_zero :: peerState where
  "peerState_zero = \<lparr>lastConnTime = time_zero, lastFailedConnTime = time_zero, connectFailures = 0\<rparr>"

text \<open>
  \<open>findPeerSlots\<close> is a channel of capacity \<open>findPeerCap\<close> that only ever holds that many tokens. The
  three metrics the code keeps in step with this state are fields too.
\<close>

record ('ab, 'c) cachedAddrBook =
  addrBook :: 'ab
  hostPeerstore :: "'ab option"
  peerCache :: 'c
  probingEnabled :: bool
  isProbing :: bool
  allowPrivateIPs :: bool
  recentlyConnectedTTL :: int
  relayAddrTTL :: int
  findPeerCap :: nat
  findPeerSlots :: nat
  findPeerLookupsInFlight :: int
  findPeerLookupsRejected :: nat
  peerStateSize :: nat

record ('ab, 'c, 'ma, 'env) book_env =
  be_AB :: "('ab, 'ma, 'env) addrbook_lib"
  be_LRU :: "('c, peer_id, peerState) lru_lib"
  be_MA :: "'ma malib"
  be_K :: lib_consts

definition MaxBackoffDuration :: "lib_consts \<Rightarrow> int" where
  "MaxBackoffDuration K = DefaultProvideValidity K"

definition DefaultRecentlyConnectedAddrTTL :: "lib_consts \<Rightarrow> int" where
  "DefaultRecentlyConnectedAddrTTL K = DefaultProvideValidity K"

definition DefaultRelayAddrTTL :: "lib_consts \<Rightarrow> int" where
  "DefaultRelayAddrTTL K = int64 (2 * ReservationTTL K)"

section \<open>Construction\<close>

type_synonym ('ab, 'c) AddrBookOption = "('ab, 'c) cachedAddrBook \<Rightarrow> go_err + ('ab, 'c) cachedAddrBook"

definition WithHostPeerstore :: "'ab \<Rightarrow> ('ab, 'c) AddrBookOption" where
  "WithHostPeerstore ps cab = Inr (cab\<lparr>hostPeerstore := Some ps\<rparr>)"

definition WithAllowPrivateIPs :: "('ab, 'c) AddrBookOption" where
  "WithAllowPrivateIPs cab = Inr (cab\<lparr>allowPrivateIPs := True\<rparr>)"

definition WithRecentlyConnectedTTL :: "int \<Rightarrow> ('ab, 'c) AddrBookOption" where
  "WithRecentlyConnectedTTL ttl cab = Inr (cab\<lparr>recentlyConnectedTTL := ttl\<rparr>)"

definition WithRelayAddrTTL :: "int \<Rightarrow> ('ab, 'c) AddrBookOption" where
  "WithRelayAddrTTL ttl cab = Inr (cab\<lparr>relayAddrTTL := ttl\<rparr>)"

definition WithActiveProbing :: "bool \<Rightarrow> ('ab, 'c) AddrBookOption" where
  "WithActiveProbing enabled cab = Inr (cab\<lparr>probingEnabled := enabled\<rparr>)"

definition WithMaxConcurrentFindPeers :: "int \<Rightarrow> ('ab, 'c) AddrBookOption" where
  "WithMaxConcurrentFindPeers n cab =
     (if n < 1 then Inl (ErrText ''max concurrent find peers must be at least 1'')
      else Inr (cab\<lparr>findPeerCap := nat n, findPeerSlots := 0\<rparr>))"

fun apply_opts :: "('ab, 'c) AddrBookOption list \<Rightarrow> ('ab, 'c) AddrBookOption" where
  "apply_opts [] cab = Inr cab"
| "apply_opts (opt # opts) cab = (case opt cab of Inl err \<Rightarrow> Inl err | Inr cab' \<Rightarrow> apply_opts opts cab')"

text \<open>\<open>new_lru\<close> is what \<open>lru.New(PeerCacheSize)\<close> returned.\<close>

definition newCachedAddrBook ::
  "('ab, 'c, 'ma, 'env) book_env \<Rightarrow> go_err + 'c \<Rightarrow> ('ab, 'c) AddrBookOption list \<Rightarrow>
     go_err + ('ab, 'c) cachedAddrBook" where
  "newCachedAddrBook E new_lru opts =
     (case new_lru of
        Inl err \<Rightarrow> Inl err
      | Inr c \<Rightarrow>
          let cab = \<lparr>addrBook = ab_New (be_AB E), hostPeerstore = None, peerCache = c,
                     probingEnabled = False, isProbing = False, allowPrivateIPs = False,
                     recentlyConnectedTTL = DefaultRecentlyConnectedAddrTTL (be_K E),
                     relayAddrTTL = DefaultRelayAddrTTL (be_K E),
                     findPeerCap = DefaultMaxConcurrentFindPeers, findPeerSlots = 0,
                     findPeerLookupsInFlight = 0, findPeerLookupsRejected = 0, peerStateSize = 0\<rparr>
          in apply_opts opts cab)"

section \<open>FindPeer slots\<close>

text \<open>
  In Go the slot, an item of a buffered channel, and the gauge are taken and given back by two statements;
  an operation here is both. Equalities between the two hold between operations: for the moment inside one
  the gauge is behind by the operations under way.
\<close>

definition tryAcquireFindPeerSlot :: "('ab, 'c) cachedAddrBook \<Rightarrow> bool \<times> ('ab, 'c) cachedAddrBook" where
  "tryAcquireFindPeerSlot cab =
     (if findPeerSlots cab < findPeerCap cab
      then (True, cab\<lparr>findPeerSlots := findPeerSlots cab + 1,
                      findPeerLookupsInFlight := findPeerLookupsInFlight cab + 1\<rparr>)
      else (False, cab\<lparr>findPeerLookupsRejected := findPeerLookupsRejected cab + 1\<rparr>))"

text \<open>Receiving from an empty channel blocks, so there is no next state then.\<close>

definition releaseFindPeerSlot :: "('ab, 'c) cachedAddrBook \<Rightarrow> ('ab, 'c) cachedAddrBook option" where
  "releaseFindPeerSlot cab =
     (if findPeerSlots cab = 0 then None
      else Some (cab\<lparr>findPeerSlots := findPeerSlots cab - 1,
                     findPeerLookupsInFlight := findPeerLookupsInFlight cab - 1\<rparr>))"

section \<open>TTLs\<close>

definition hasValidConnectedness :: "connectedness \<Rightarrow> bool" where
  "hasValidConnectedness c \<longleftrightarrow> c = Connected \<or> c = Limited"

definition getTTL :: "('ab, 'c, 'ma, 'env) book_env \<Rightarrow> ('ab, 'c) cachedAddrBook \<Rightarrow> connectedness \<Rightarrow> int" where
  "getTTL E cab c = (if hasValidConnectedness c then ConnectedAddrTTL (be_K E) else recentlyConnectedTTL cab)"

definition capRelayAddrTTL ::
  "('ab, 'c, 'ma, 'env) book_env \<Rightarrow> peer_id \<Rightarrow> ('ab, 'c) cachedAddrBook \<Rightarrow> ('ab, 'c) cachedAddrBook" where
  "capRelayAddrTTL E p cab =
     (let (_, relayAddrs) = splitRelayAddrs (be_MA E) (ab_Addrs (be_AB E) (addrBook cab) p)
      in if length relayAddrs > 0
         then cab\<lparr>addrBook := ab_SetAddrs (be_AB E) (addrBook cab) p relayAddrs (relayAddrTTL cab)\<rparr>
         else cab)"

section \<open>Events\<close>

definition replacePeerAddrs ::
  "('ab, 'c, 'ma, 'env) book_env \<Rightarrow> peer_id \<Rightarrow> 'env option \<Rightarrow> 'ma list \<Rightarrow> 'ma list \<Rightarrow> int \<Rightarrow>
     ('ab, 'c) cachedAddrBook \<Rightarrow> ('ab, 'c) cachedAddrBook" where
  "replacePeerAddrs E p signedRec listenAddrs connAddrs ttl cab =
     (if signedRec = None \<and> length listenAddrs = 0 \<and> length connAddrs = 0 then cab
      else
        let cab1 = cab\<lparr>addrBook := ab_ClearAddrs (be_AB E) (addrBook cab) p\<rparr>;
            (accepted, cab2) =
              (case signedRec of
                 None \<Rightarrow> (False, cab1)
               | Some env \<Rightarrow>
                   if ab_Certified (be_AB E)
                   then let ((ok, err), b) = ab_ConsumePeerRecord (be_AB E) (addrBook cab1) env ttl
                        in (ok, cab1\<lparr>addrBook := b\<rparr>)
                   else (False, cab1));
            cab3 = (if \<not> accepted
                    then cab2\<lparr>addrBook := ab_AddAddrs (be_AB E) (addrBook cab2) p listenAddrs ttl\<rparr>
                    else cab2);
            cab4 = capRelayAddrTTL E p cab3
        in if length connAddrs > 0
           then cab4\<lparr>addrBook := ab_AddAddrs (be_AB E) (addrBook cab4) p connAddrs (ConnectedAddrTTL (be_K E))\<rparr>
           else cab4)"

text \<open>The libp2p host as one handler sees it.\<close>

record 'ma host =
  host_Connectedness :: "peer_id \<Rightarrow> connectedness"
  host_ConnsToPeer :: "peer_id \<Rightarrow> (direction \<times> 'ma) list"

definition on_identified ::
  "('ab, 'c, 'ma, 'env) book_env \<Rightarrow> 'ma host \<Rightarrow> int \<Rightarrow> peer_id \<Rightarrow> 'env option \<Rightarrow> 'ma list \<Rightarrow>
     ('ab, 'c) cachedAddrBook \<Rightarrow> ('ab, 'c) cachedAddrBook" where
  "on_identified E H now p signedRec listenAddrs cab =
     (let pState = (case lru_Peek (be_LRU E) (peerCache cab) p of Some s \<Rightarrow> s | None \<Rightarrow> peerState_zero);
          pState1 = pState\<lparr>lastConnTime := now, lastFailedConnTime := time_zero, connectFailures := 0\<rparr>;
          c = lru_Add (be_LRU E) (peerCache cab) p pState1;
          cab1 = cab\<lparr>peerCache := c, peerStateSize := lru_Len (be_LRU E) c\<rparr>;
          ttl = getTTL E cab1 (host_Connectedness H p);
          connAddrs = map snd (filter (\<lambda>(dir, _). dir \<noteq> DirInbound) (host_ConnsToPeer H p))
      in replacePeerAddrs E p signedRec listenAddrs connAddrs ttl cab1)"

definition on_connectedness ::
  "('ab, 'c, 'ma, 'env) book_env \<Rightarrow> peer_id \<Rightarrow> connectedness \<Rightarrow>
     ('ab, 'c) cachedAddrBook \<Rightarrow> ('ab, 'c) cachedAddrBook" where
  "on_connectedness E p c cab =
     (if \<not> hasValidConnectedness c
      then capRelayAddrTTL E p (cab\<lparr>addrBook :=
             ab_UpdateAddrs (be_AB E) (addrBook cab) p (ConnectedAddrTTL (be_K E)) (recentlyConnectedTTL cab)\<rparr>)
      else cab)"

text \<open>Whether the tick starts a probe, and the state it leaves.\<close>

definition on_probe_tick :: "('ab, 'c) cachedAddrBook \<Rightarrow> bool \<times> ('ab, 'c) cachedAddrBook" where
  "on_probe_tick cab =
     (if \<not> probingEnabled cab then (False, cab)
      else if isProbing cab then (False, cab)
      else (True, cab\<lparr>isProbing := True\<rparr>))"

section \<open>Reads and writes of the routers\<close>

definition GetCachedAddrs :: "('ab, 'c, 'ma, 'env) book_env \<Rightarrow> ('ab, 'c) cachedAddrBook \<Rightarrow> peer_id \<Rightarrow> 'ma list" where
  "GetCachedAddrs E cab p =
     (let cachedAddrs = ab_Addrs (be_AB E) (addrBook cab) p;
          cachedAddrs1 = (case hostPeerstore cab of
                            Some ps \<Rightarrow> if length cachedAddrs = 0 then ab_Addrs (be_AB E) ps p else cachedAddrs
                          | None \<Rightarrow> cachedAddrs)
      in if length cachedAddrs1 = 0 then [] else cachedAddrs1)"

definition CacheAddrs ::
  "('ab, 'c, 'ma, 'env) book_env \<Rightarrow> peer_id \<Rightarrow> 'ma list \<Rightarrow> ('ab, 'c) cachedAddrBook \<Rightarrow> ('ab, 'c) cachedAddrBook" where
  "CacheAddrs E p addrs cab =
     (if length addrs = 0 then cab
      else
        let maddrs = filter (\<lambda>a. allowPrivateIPs cab \<or> manet_IsPublicAddr (be_MA E) a) addrs
        in if length maddrs = 0 then cab
           else
             let (direct, relayAddrs) = splitRelayAddrs (be_MA E) maddrs;
                 b1 = ab_AddAddrs (be_AB E) (addrBook cab) p direct (recentlyConnectedTTL cab);
                 b2 = ab_AddAddrs (be_AB E) b1 p relayAddrs (relayAddrTTL cab)
             in cab\<lparr>addrBook := b2\<rparr>)"

definition RecordFailedConnection ::
  "('ab, 'c, 'ma, 'env) book_env \<Rightarrow> int \<Rightarrow> peer_id \<Rightarrow> ('ab, 'c) cachedAddrBook \<Rightarrow> ('ab, 'c) cachedAddrBook" where
  "RecordFailedConnection E now p cab =
     (let found = lru_Peek (be_LRU E) (peerCache cab) p;
          pState = (case found of Some s \<Rightarrow> s | None \<Rightarrow> peerState_zero)
      in if found \<noteq> None \<and> connectFailures pState > 1 \<and>
            time_Sub now (lastFailedConnTime pState) > MaxBackoffDuration (be_K E)
         then let c = lru_Remove (be_LRU E) (peerCache cab) p
              in cab\<lparr>addrBook := ab_ClearAddrs (be_AB E) (addrBook cab) p,
                     peerCache := c, peerStateSize := lru_Len (be_LRU E) c\<rparr>
         else cab\<lparr>peerCache := lru_Add (be_LRU E) (peerCache cab) p
                    (pState\<lparr>lastFailedConnTime := now, connectFailures := connectFailures pState + 1\<rparr>)\<rparr>)"

definition backoff :: "lib_consts \<Rightarrow> 64 word \<Rightarrow> int" where
  "backoff K n =
     (if n > 0 then min (int64 (PeerProbeThreshold * shl64 (n - 1))) (MaxBackoffDuration K)
      else PeerProbeThreshold)"

definition ShouldProbePeer ::
  "('ab, 'c, 'ma, 'env) book_env \<Rightarrow> int \<Rightarrow> ('ab, 'c) cachedAddrBook \<Rightarrow> peer_id \<Rightarrow> bool" where
  "ShouldProbePeer E now cab p =
     (case lru_Peek (be_LRU E) (peerCache cab) p of
        None \<Rightarrow> True
      | Some pState \<Rightarrow> time_Sub now (lastFailedConnTime pState) > backoff (be_K E) (connectFailures pState))"

lemma map_snd_filter:
  "map snd (filter (\<lambda>(dir, _). dir \<noteq> d) xs) = [a. (dir, a) \<leftarrow> xs, dir \<noteq> d]"
  by (induction xs) auto

section \<open>How each operation changes the TTLs\<close>

abbreviation book_ttl :: "('ab, 'c, 'ma, 'env) book_env \<Rightarrow> ('ab, 'c) cachedAddrBook \<Rightarrow> peer_id \<Rightarrow> 'ma \<Rightarrow> int option" where
  "book_ttl E cab \<equiv> ab_TTL (be_AB E) (addrBook cab)"

definition public_only :: "('ab, 'c, 'ma, 'env) book_env \<Rightarrow> ('ab, 'c) cachedAddrBook \<Rightarrow> 'ma list \<Rightarrow> 'ma list" where
  "public_only E cab as = filter (\<lambda>a. allowPrivateIPs cab \<or> manet_IsPublicAddr (be_MA E) a) as"

lemma stored_set_Nil [simp]: "stored_set B p [] = {}"
  by (simp add: stored_set_def)

lemma ttl_added_Nil [simp]: "ttl_added B b p [] ttl q x = ab_TTL B b q x"
  by (simp add: ttl_added_def)

lemma stored_set_own:
  assumes "addrbook_lawful B"
  shows "stored_set B p (filter P (ab_Addrs B b p)) = {x. ab_TTL B b p x \<noteq> None \<and> P x}"
  using ab_Stored_self[OF assms] by (fastforce simp: stored_set_def ab_Addrs_set[OF assms])

lemma capRelayAddrTTL_ttl:
  assumes "addrbook_lawful (be_AB E)" and "0 < relayAddrTTL cab"
  shows "book_ttl E (capRelayAddrTTL E p cab) q x =
    (if q = p \<and> isRelayAddr (be_MA E) x \<and> book_ttl E cab q x \<noteq> None then Some (relayAddrTTL cab)
     else book_ttl E cab q x)"
proof -
  let ?as = "filter (isRelayAddr (be_MA E)) (ab_Addrs (be_AB E) (addrBook cab) p)"
  have "stored_set (be_AB E) p ?as = {x. book_ttl E cab p x \<noteq> None \<and> isRelayAddr (be_MA E) x}"
    by (rule stored_set_own[OF assms(1)])
  then show ?thesis
    using stored_set_Nil[of "be_AB E" p]
    by (auto simp: capRelayAddrTTL_def splitRelayAddrs_eq ab_TTL_Set[OF assms] simp del: stored_set_Nil)
qed

lemma capRelayAddrTTL_fields [simp]:
  "recentlyConnectedTTL (capRelayAddrTTL E p cab) = recentlyConnectedTTL cab"
  "relayAddrTTL (capRelayAddrTTL E p cab) = relayAddrTTL cab"
  "peerCache (capRelayAddrTTL E p cab) = peerCache cab"
  "isProbing (capRelayAddrTTL E p cab) = isProbing cab"
  by (simp_all add: capRelayAddrTTL_def case_prod_beta)

text \<open>The addresses an identify advertises: its signed record where the book takes it, else its listen list.\<close>

definition consumed ::
  "('ab, 'c, 'ma, 'env) book_env \<Rightarrow> ('ab, 'c) cachedAddrBook \<Rightarrow> peer_id \<Rightarrow> 'env option \<Rightarrow> int \<Rightarrow> bool" where
  "consumed E cab p signedRec ttl =
     (case signedRec of
        None \<Rightarrow> False
      | Some env \<Rightarrow> ab_Certified (be_AB E) \<and>
          fst (fst (ab_ConsumePeerRecord (be_AB E) (ab_ClearAddrs (be_AB E) (addrBook cab) p) env ttl)))"

definition advertised ::
  "('ab, 'c, 'ma, 'env) book_env \<Rightarrow> ('ab, 'c) cachedAddrBook \<Rightarrow> peer_id \<Rightarrow> 'env option \<Rightarrow> 'ma list \<Rightarrow> int \<Rightarrow> 'ma list" where
  "advertised E cab p signedRec listenAddrs ttl =
     (if consumed E cab p signedRec ttl then snd (ab_RecordOf (be_AB E) (the signedRec)) else listenAddrs)"

text \<open>
  What the code means the book to hold for the peer after an identify: connection addresses for as
  long as the connection lasts, advertised relays for the relay TTL, the rest for \<open>ttl\<close>.
\<close>

definition identified_ttl ::
  "('ab, 'c, 'ma, 'env) book_env \<Rightarrow> peer_id \<Rightarrow> 'ma list \<Rightarrow> 'ma list \<Rightarrow> int \<Rightarrow> int \<Rightarrow> 'ma \<Rightarrow> int option" where
  "identified_ttl E p adv conns ttl relay x =
     (if x \<in> stored_set (be_AB E) p conns then Some (ConnectedAddrTTL (be_K E))
      else if x \<in> stored_set (be_AB E) p adv then Some (if isRelayAddr (be_MA E) x then relay else ttl)
      else None)"

lemma replacePeerAddrs_ttl:
  assumes law: "addrbook_lawful (be_AB E)"
    and ttl: "0 < ttl" "ttl \<le> ConnectedAddrTTL (be_K E)"
    and relay: "0 < relayAddrTTL cab" "relayAddrTTL cab \<le> ConnectedAddrTTL (be_K E)"
    and rec: "\<And>env. signedRec = Some env \<Longrightarrow> fst (ab_RecordOf (be_AB E) env) = p"
    and some: "signedRec \<noteq> None \<or> listenAddrs \<noteq> [] \<or> connAddrs \<noteq> []"
  shows "book_ttl E (replacePeerAddrs E p signedRec listenAddrs connAddrs ttl cab) q x =
    (if q = p then identified_ttl E p (advertised E cab p signedRec listenAddrs ttl) connAddrs ttl (relayAddrTTL cab) x
     else book_ttl E cab q x)"
proof -
  let ?B = "be_AB E" and ?adv = "advertised E cab p signedRec listenAddrs ttl"
  let ?cab1 = "cab\<lparr>addrBook := ab_ClearAddrs ?B (addrBook cab) p\<rparr>"
  define s2 where "s2 = (case signedRec of None \<Rightarrow> (False, ?cab1)
     | Some env \<Rightarrow> if ab_Certified ?B
         then let ((ok, err), b) = ab_ConsumePeerRecord ?B (addrBook ?cab1) env ttl in (ok, ?cab1\<lparr>addrBook := b\<rparr>)
         else (False, ?cab1))"
  define cab3 where "cab3 = (if \<not> fst s2
      then (snd s2)\<lparr>addrBook := ab_AddAddrs ?B (addrBook (snd s2)) p listenAddrs ttl\<rparr> else snd s2)"
  have cab3: "book_ttl E cab3 r y =
      (if r = p then if y \<in> stored_set ?B p ?adv then Some ttl else None else book_ttl E cab r y)" for r y
    using rec ttl(1) unfolding cab3_def s2_def
    by (auto simp: advertised_def consumed_def case_prod_beta Let_def ab_TTL_Add[OF law] ab_TTL_Clear[OF law]
        ab_TTL_Consume[OF law] ttl_added_def ttl_extended_def split: option.splits)
  have ttl3: "relayAddrTTL cab3 = relayAddrTTL cab"
    by (simp add: cab3_def s2_def case_prod_beta Let_def split: option.splits)
  have guard: "\<not> (signedRec = None \<and> length listenAddrs = 0 \<and> length connAddrs = 0)" using some by auto
  have run: "replacePeerAddrs E p signedRec listenAddrs connAddrs ttl cab =
      (let cab4 = capRelayAddrTTL E p cab3 in if length connAddrs > 0
         then cab4\<lparr>addrBook := ab_AddAddrs ?B (addrBook cab4) p connAddrs (ConnectedAddrTTL (be_K E))\<rparr> else cab4)"
    unfolding replacePeerAddrs_def if_not_P[OF guard] cab3_def s2_def by (simp add: Let_def case_prod_beta)
  have cab4: "book_ttl E (capRelayAddrTTL E p cab3) r y =
      (if r = p then if y \<in> stored_set ?B p ?adv
         then Some (if isRelayAddr (be_MA E) y then relayAddrTTL cab else ttl) else None else book_ttl E cab r y)"
    for r y using capRelayAddrTTL_ttl[OF law, of cab3 p r y] relay(1) by (simp add: ttl3 cab3)
  have "0 < ConnectedAddrTTL (be_K E)" using ttl by simp
  then show ?thesis
    using ttl relay
    by (simp add: run Let_def ab_TTL_Add[OF law] ttl_added_def ttl_extended_def cab4 identified_ttl_def)
qed

lemma CacheAddrs_ttl:
  assumes law: "addrbook_lawful (be_AB E)" and ttl: "0 < recentlyConnectedTTL cab" "0 < relayAddrTTL cab"
  shows "book_ttl E (CacheAddrs E p as cab) q x =
    (let direct = filter (\<lambda>a. \<not> isRelayAddr (be_MA E) a) (public_only E cab as);
         relays = filter (isRelayAddr (be_MA E)) (public_only E cab as);
         t1 = (if q = p \<and> x \<in> stored_set (be_AB E) p direct
               then ttl_extended (recentlyConnectedTTL cab) (book_ttl E cab q x) else book_ttl E cab q x)
     in if q = p \<and> x \<in> stored_set (be_AB E) p relays then ttl_extended (relayAddrTTL cab) t1 else t1)"
proof (cases "public_only E cab as = []")
  case True
  then have "CacheAddrs E p as cab = cab" by (simp add: CacheAddrs_def public_only_def Let_def)
  with True show ?thesis by simp
next
  case False
  then have "as \<noteq> []" by (auto simp: public_only_def)
  with False ttl show ?thesis
    by (simp add: CacheAddrs_def Let_def splitRelayAddrs_eq ab_TTL_Add[OF law] ttl_added_def
        flip: public_only_def)
qed

section \<open>A book for the witnesses\<close>

text \<open>Addresses with their TTLs, newest entry first; a signed record is its peer and addresses.\<close>

type_synonym sample_book = "((peer_id \<times> comps) \<times> int) list"

definition sample_add :: "sample_book \<Rightarrow> peer_id \<Rightarrow> comps list \<Rightarrow> int \<Rightarrow> sample_book" where [env_defs]:
  "sample_add b p as ttl =
     (if 0 < ttl then map (\<lambda>a. ((p, a), the (ttl_extended ttl (map_of b (p, a))))) as @ b else b)"

definition sample_set :: "sample_book \<Rightarrow> peer_id \<Rightarrow> comps list \<Rightarrow> int \<Rightarrow> sample_book" where [env_defs]:
  "sample_set b p as ttl = map (\<lambda>a. ((p, a), ttl)) as @ b"

definition sample_update :: "sample_book \<Rightarrow> peer_id \<Rightarrow> int \<Rightarrow> int \<Rightarrow> sample_book" where [env_defs]:
  "sample_update b p old new = map (\<lambda>(k, t). (k, if fst k = p \<and> t = old then new else t)) b"

definition sample_addrbook :: "(sample_book, comps, peer_id \<times> comps list) addrbook_lib" where [env_defs]:
  "sample_addrbook = \<lparr>
     ab_New = [], ab_AddAddrs = sample_add, ab_SetAddrs = sample_set, ab_UpdateAddrs = sample_update,
     ab_ClearAddrs = (\<lambda>b p. filter (\<lambda>(k, t). fst k \<noteq> p) b),
     ab_Addrs = (\<lambda>b p. remdups (map (\<lambda>(k, t). snd k) (filter (\<lambda>(k, t). fst k = p) b))),
     ab_PeersWithAddrs = (\<lambda>b. remdups (map (\<lambda>(k, t). fst k) b)),
     ab_Certified = True,
     ab_ConsumePeerRecord = (\<lambda>b env ttl. ((True, None), sample_add b (fst env) (snd env) ttl)),
     ab_TTL = (\<lambda>b p a. map_of b (p, a)), ab_Stored = (\<lambda>p a. Some a), ab_RecordOf = (\<lambda>env. env)\<rparr>"

lemma map_of_map_key: "map_of (map (\<lambda>a. ((p, a), f a)) as) (q, x) = (if q = p \<and> x \<in> set as then Some (f x) else None)"
  by (induction as) auto

lemma map_of_filter_peer: "map_of (filter (\<lambda>(k, t). fst k \<noteq> p) b) (q, x) = (if q = p then None else map_of b (q, x))"
  by (induction b) auto

lemma map_of_update:
  "map_of (map (\<lambda>(k, t). (k, if fst k = p \<and> t = old then new else t)) b) (q, x) =
     (if q = p \<and> map_of b (q, x) = Some old then Some new else map_of b (q, x))"
  by (induction b) auto

lemma map_of_addrs: "set (map (\<lambda>(k, t). snd k) (filter (\<lambda>(k, t). fst k = p) b)) = {x. map_of b (p, x) \<noteq> None}"
  by (induction b) auto

lemma addrbook_lawful_sample [simp]: "addrbook_lawful sample_addrbook"
proof -
  have add: "map_of (sample_add b p as ttl) (q, x) = (if q = p \<and> 0 < ttl \<and> x \<in> set as
      then ttl_extended ttl (map_of b (q, x)) else map_of b (q, x))" for b p as ttl q x
    by (auto simp: sample_add_def map_add_def map_of_map_key ttl_extended_def)
  show ?thesis
    unfolding addrbook_lawful_def
    by (intro conjI) (simp_all add: sample_addrbook_def ttl_added_def stored_set_def add sample_set_def
        sample_update_def map_add_def map_of_map_key map_of_filter_peer map_of_update map_of_addrs
        del: set_map set_filter cong: conj_cong)
qed

definition sample_consts :: lib_consts where [env_defs]:
  "sample_consts = \<lparr>DefaultProvideValidity = 48 * time_Hour, ConnectedAddrTTL = max_int64 - 1,
     ReservationTTL = time_Hour\<rparr>"

type_synonym sample_cab = "(sample_book, peer_id \<rightharpoonup> peerState) cachedAddrBook"

definition sample_book_env :: "(sample_book, peer_id \<rightharpoonup> peerState, comps, peer_id \<times> comps list) book_env" where
  [env_defs]: "sample_book_env = \<lparr>be_AB = sample_addrbook, be_LRU = map_lru, be_MA = sample_lib, be_K = sample_consts\<rparr>"

definition sample_cab :: sample_cab where [env_defs]:
  "sample_cab = \<lparr>addrBook = [], hostPeerstore = None, peerCache = Map.empty, probingEnabled = True,
     isProbing = False, allowPrivateIPs = False, recentlyConnectedTTL = 48 * time_Hour,
     relayAddrTTL = 2 * time_Hour, findPeerCap = 2, findPeerSlots = 0, findPeerLookupsInFlight = 0,
     findPeerLookupsRejected = 0, peerStateSize = 0\<rparr>"

lemma sample_book_env_simps [simp]:
  "be_AB sample_book_env = sample_addrbook" "be_LRU sample_book_env = map_lru"
  "be_MA sample_book_env = sample_lib" "be_K sample_book_env = sample_consts"
  by (simp_all add: sample_book_env_def)

lemma newCachedAddrBook_sample:
  "newCachedAddrBook sample_book_env (Inr Map.empty) [WithActiveProbing True, WithMaxConcurrentFindPeers 2]
     = Inr sample_cab"
  by (simp add: newCachedAddrBook_def env_defs WithActiveProbing_def WithMaxConcurrentFindPeers_def
      DefaultRecentlyConnectedAddrTTL_def DefaultRelayAddrTTL_def time_Hour_def int64_def signed_take_bit_eq_if_positive
      bit_iff_odd take_bit_eq_mod)

section \<open>Properties\<close>

text \<open>
  C20. A completed identify replaces what the book held for the peer. Afterwards it holds exactly
  the remote addresses of the peer's non-inbound connections, for as long as those last, and the
  advertised addresses (of the signed record where it is accepted, else the listen addresses):
  relays for the relay TTL, the rest for the peer's TTL. No other peer is touched, and an identify
  that carries nothing at all leaves the book as it was.
\<close>

theorem identify_replaces_addrs:
  assumes "addrbook_lawful (be_AB E)"
    and "0 < recentlyConnectedTTL cab" "recentlyConnectedTTL cab \<le> ConnectedAddrTTL (be_K E)"
    and "0 < relayAddrTTL cab" "relayAddrTTL cab \<le> ConnectedAddrTTL (be_K E)"
    and "\<And>env. signedRec = Some env \<Longrightarrow> fst (ab_RecordOf (be_AB E) env) = p"
  shows "book_ttl E (on_identified E H now p signedRec listenAddrs cab) q x =
    (let conns = [a. (dir, a) \<leftarrow> host_ConnsToPeer H p, dir \<noteq> DirInbound];
         ttl = getTTL E cab (host_Connectedness H p)
     in if q \<noteq> p \<or> signedRec = None \<and> listenAddrs = [] \<and> conns = [] then book_ttl E cab q x
        else identified_ttl E p (advertised E cab p signedRec listenAddrs ttl) conns ttl (relayAddrTTL cab) x)"
proof -
  define c where "c = lru_Add (be_LRU E) (peerCache cab) p
     ((case lru_Peek (be_LRU E) (peerCache cab) p of Some s \<Rightarrow> s | None \<Rightarrow> peerState_zero)
       \<lparr>lastConnTime := now, lastFailedConnTime := time_zero, connectFailures := 0\<rparr>)"
  define cab1 where "cab1 = cab\<lparr>peerCache := c, peerStateSize := lru_Len (be_LRU E) c\<rparr>"
  define conns where "conns = [a. (dir, a) \<leftarrow> host_ConnsToPeer H p, dir \<noteq> DirInbound]"
  define ttl where "ttl = getTTL E cab (host_Connectedness H p)"
  have conns: "map snd (filter (\<lambda>(dir, _). dir \<noteq> DirInbound) (host_ConnsToPeer H p)) = conns"
    unfolding conns_def by (rule map_snd_filter)
  have same: "getTTL E cab1 k = getTTL E cab k" "book_ttl E cab1 = book_ttl E cab" "relayAddrTTL cab1 = relayAddrTTL cab"
    "advertised E cab1 p signedRec listenAddrs ttl = advertised E cab p signedRec listenAddrs ttl" for k
    by (auto simp add: cab1_def getTTL_def advertised_def consumed_def split: option.split)
  have run: "on_identified E H now p signedRec listenAddrs cab =
      replacePeerAddrs E p signedRec listenAddrs conns ttl cab1"
    unfolding on_identified_def conns by (simp add: Let_def same ttl_def flip: c_def cab1_def)
  have ttl: "0 < ttl" "ttl \<le> ConnectedAddrTTL (be_K E)"
    using assms(2,3) by (auto simp: ttl_def getTTL_def)
  show ?thesis
  proof (cases "signedRec = None \<and> listenAddrs = [] \<and> conns = []")
    case True
    then have "replacePeerAddrs E p signedRec listenAddrs conns ttl cab1 = cab1"
      by (simp add: replacePeerAddrs_def)
    with True show ?thesis unfolding run by (simp add: same flip: conns_def)
  next
    case False
    then show ?thesis
      using replacePeerAddrs_ttl[OF assms(1) ttl, of cab1 signedRec p listenAddrs conns q x] assms(4,5,6)
      unfolding run Let_def conns_def[symmetric] ttl_def[symmetric] same by (auto simp: same)
  qed
qed

lemma identify_replaces_addrs_witness:
  "let H = \<lparr>host_Connectedness = (\<lambda>_. Connected), host_ConnsToPeer = (\<lambda>_. [(DirInbound, sample_ip)])\<rparr>;
       cab = on_identified sample_book_env H 7 ''P'' None [sample_relay, sample_dns]
               (sample_cab\<lparr>addrBook := [((''P'', sample_ip), 5)]\<rparr>)
   in book_ttl sample_book_env cab ''P'' sample_relay = Some (2 * time_Hour) \<and>
      book_ttl sample_book_env cab ''P'' sample_ip = None"
proof -
  let ?H = "\<lparr>host_Connectedness = (\<lambda>_. Connected), host_ConnsToPeer = (\<lambda>_. [(DirInbound, sample_ip)])\<rparr>"
  let ?cab = "sample_cab\<lparr>addrBook := [((''P'', sample_ip), 5)]\<rparr>"
  have "book_ttl sample_book_env (on_identified sample_book_env ?H 7 ''P'' None [sample_relay, sample_dns] ?cab) ''P'' x
      = identified_ttl sample_book_env ''P'' [sample_relay, sample_dns] [] (max_int64 - 1) (2 * time_Hour) x" for x
    by (subst identify_replaces_addrs)
      (simp_all add: sample_cab_def sample_consts_def getTTL_def hasValidConnectedness_def time_Hour_def
        max_int64_def advertised_def consumed_def)
  then show ?thesis
    by (simp add: identified_ttl_def stored_set_def isRelayAddr_def) (simp add: env_defs)
qed

text \<open>
  A peer that disconnects keeps no address at the connected TTL: its direct ones move to the
  recently-connected TTL, its relays, whatever TTL they had, to the relay TTL. An address held for
  another time, and every other peer's, is left alone; an event that reports a valid connection
  changes nothing.
\<close>

theorem disconnect_demotes_addrs:
  assumes "addrbook_lawful (be_AB E)" and "0 < recentlyConnectedTTL cab" "0 < relayAddrTTL cab"
  shows "book_ttl E (on_connectedness E p c cab) q x =
    (if q \<noteq> p \<or> c = Connected \<or> c = Limited then book_ttl E cab q x
     else case book_ttl E cab q x of
            None \<Rightarrow> None
          | Some t \<Rightarrow> Some (if isRelayAddr (be_MA E) x then relayAddrTTL cab
                           else if t = ConnectedAddrTTL (be_K E) then recentlyConnectedTTL cab else t))"
  using assms(2,3)
  by (auto simp: on_connectedness_def hasValidConnectedness_def capRelayAddrTTL_ttl[OF assms(1)]
      ab_TTL_Update[OF assms(1)] split: option.splits)

lemma disconnect_demotes_addrs_witness:
  "let cab = on_connectedness sample_book_env ''P'' NotConnected
       (sample_cab\<lparr>addrBook := [((''P'', sample_ip), max_int64 - 1), ((''P'', sample_relay), max_int64 - 1)]\<rparr>)
   in book_ttl sample_book_env cab ''P'' sample_ip = Some (48 * time_Hour) \<and>
      book_ttl sample_book_env cab ''P'' sample_relay = Some (2 * time_Hour)"
proof -
  let ?cab = "sample_cab\<lparr>addrBook := [((''P'', sample_ip), max_int64 - 1), ((''P'', sample_relay), max_int64 - 1)]\<rparr>"
  have "0 < recentlyConnectedTTL ?cab" "0 < relayAddrTTL ?cab" by (simp_all add: env_defs time_Hour_def)
  then have "book_ttl sample_book_env (on_connectedness sample_book_env ''P'' NotConnected ?cab) ''P'' x =
      (case book_ttl sample_book_env ?cab ''P'' x of None \<Rightarrow> None
       | Some t \<Rightarrow> Some (if isRelayAddr sample_lib x then relayAddrTTL ?cab
           else if t = ConnectedAddrTTL sample_consts then recentlyConnectedTTL ?cab else t))" for x
    by (subst disconnect_demotes_addrs) (simp_all split: option.split)
  then show ?thesis
    unfolding Let_def by (simp only:) (simp add: env_defs isRelayAddr_def)
qed

text \<open>
  Addresses learnt from a provider record. \<open>CacheAddrs\<close> never shortens or drops what the book
  holds, for this peer or any other; what it adds or extends is the stored form of one of the given
  addresses that is public (unless private ones are allowed), at least for the relay TTL if it is a
  relay and for the recently-connected TTL if not; and every such address is then held.
\<close>

theorem CacheAddrs_extends:
  assumes "addrbook_lawful (be_AB E)" and "0 < recentlyConnectedTTL cab" "0 < relayAddrTTL cab"
  shows "(\<forall>q x. book_ttl E cab q x \<noteq> None \<longrightarrow> book_ttl E (CacheAddrs E p as cab) q x \<noteq> None \<and>
            the (book_ttl E cab q x) \<le> the (book_ttl E (CacheAddrs E p as cab) q x)) \<and>
    (\<forall>q x. book_ttl E (CacheAddrs E p as cab) q x \<noteq> book_ttl E cab q x \<longrightarrow>
       q = p \<and> x \<in> stored_set (be_AB E) p (public_only E cab as)) \<and>
    (\<forall>a b. a \<in> set as \<longrightarrow> allowPrivateIPs cab \<or> manet_IsPublicAddr (be_MA E) a \<longrightarrow> ab_Stored (be_AB E) p a = Some b \<longrightarrow>
       (\<exists>t. book_ttl E (CacheAddrs E p as cab) p b = Some t \<and>
          (if isRelayAddr (be_MA E) a then relayAddrTTL cab else recentlyConnectedTTL cab) \<le> t))"
proof -
  let ?d = "filter (\<lambda>a. \<not> isRelayAddr (be_MA E) a) (public_only E cab as)"
  let ?r = "filter (isRelayAddr (be_MA E)) (public_only E cab as)"
  note ttl = CacheAddrs_ttl[OF assms, of p as, unfolded Let_def]
  have sub: "stored_set (be_AB E) p ?d \<subseteq> stored_set (be_AB E) p (public_only E cab as)"
    "stored_set (be_AB E) p ?r \<subseteq> stored_set (be_AB E) p (public_only E cab as)"
    by (auto simp: stored_set_def)
  have grow: "book_ttl E (CacheAddrs E p as cab) q x \<noteq> None \<and>
      the (book_ttl E cab q x) \<le> the (book_ttl E (CacheAddrs E p as cab) q x)" if "book_ttl E cab q x = Some t" for q x t
    using that by (auto simp: ttl ttl_extended_def)
  have only: "q = p \<and> x \<in> stored_set (be_AB E) p (public_only E cab as)"
    if "book_ttl E (CacheAddrs E p as cab) q x \<noteq> book_ttl E cab q x" for q x
    using that sub by (auto simp: ttl split: if_splits)
  have held: "\<exists>t. book_ttl E (CacheAddrs E p as cab) p b = Some t \<and>
      (if isRelayAddr (be_MA E) a then relayAddrTTL cab else recentlyConnectedTTL cab) \<le> t"
    if "a \<in> set (public_only E cab as)" "ab_Stored (be_AB E) p a = Some b" for a b
  proof (cases "isRelayAddr (be_MA E) a")
    case True
    with that have "b \<in> stored_set (be_AB E) p ?r" by (auto simp: stored_set_def)
    with True show ?thesis by (auto simp: ttl ttl_extended_def split: option.splits)
  next
    case False
    with that have "b \<in> stored_set (be_AB E) p ?d" by (auto simp: stored_set_def)
    with False show ?thesis by (auto simp: ttl ttl_extended_def split: option.splits)
  qed
  show ?thesis using grow only held by (auto simp: public_only_def)
qed

lemma CacheAddrs_extends_witness:
  "\<exists>t. book_ttl sample_book_env (CacheAddrs sample_book_env ''P'' [sample_lan, sample_relay] sample_cab) ''P'' sample_relay
     = Some t \<and> 2 * time_Hour \<le> t"
proof -
  have r: "0 < recentlyConnectedTTL sample_cab" "0 < relayAddrTTL sample_cab"
    by (simp_all add: env_defs time_Hour_def)
  have "manet_IsPublicAddr sample_lib sample_relay" "isRelayAddr sample_lib sample_relay"
    "relayAddrTTL sample_cab = 2 * time_Hour"
    by (simp_all add: env_defs hasPrefix_def isRelayAddr_def)
  moreover have "ab_Stored (be_AB sample_book_env) ''P'' sample_relay = Some sample_relay"
    by (simp add: sample_addrbook_def)
  moreover note CacheAddrs_extends[of sample_book_env, OF _ r, of "''P''" "[sample_lan, sample_relay]",
      THEN conjunct2, THEN conjunct2, rule_format, of sample_relay sample_relay]
  ultimately show ?thesis by simp
qed

text \<open>
  What \<open>GetCachedAddrs\<close> serves after \<open>CacheAddrs\<close>: the public addresses just cached together
  with everything the book held for the peer; the host's peerstore only when that is nothing at all.
\<close>

theorem cached_addrs_are_served:
  assumes "addrbook_lawful (be_AB E)" and "0 < recentlyConnectedTTL cab" "0 < relayAddrTTL cab"
  shows "set (GetCachedAddrs E (CacheAddrs E p as cab) p) =
    (let own = stored_set (be_AB E) p (public_only E cab as) \<union> set (ab_Addrs (be_AB E) (addrBook cab) p)
     in if own \<noteq> {} then own
        else case hostPeerstore cab of None \<Rightarrow> {} | Some ps \<Rightarrow> set (ab_Addrs (be_AB E) ps p))"
proof -
  let ?cab = "CacheAddrs E p as cab"
  have "stored_set (be_AB E) p (public_only E cab as) =
      stored_set (be_AB E) p (filter (\<lambda>a. \<not> isRelayAddr (be_MA E) a) (public_only E cab as)) \<union>
      stored_set (be_AB E) p (filter (isRelayAddr (be_MA E)) (public_only E cab as))"
    by (auto simp: stored_set_def)
  then have own: "set (ab_Addrs (be_AB E) (addrBook ?cab) p) =
      stored_set (be_AB E) p (public_only E cab as) \<union> set (ab_Addrs (be_AB E) (addrBook cab) p)"
    by (auto simp: ab_Addrs_set[OF assms(1)] CacheAddrs_ttl[OF assms] Let_def ttl_extended_def)
  have host: "hostPeerstore ?cab = hostPeerstore cab"
    by (simp add: CacheAddrs_def Let_def case_prod_beta)
  have "ab_Addrs (be_AB E) (addrBook ?cab) p = [] \<longleftrightarrow>
      stored_set (be_AB E) p (public_only E cab as) \<union> set (ab_Addrs (be_AB E) (addrBook cab) p) = {}"
    using own by (metis set_empty)
  then show ?thesis
    using own by (auto simp: GetCachedAddrs_def Let_def host split: option.split)
qed

lemma cached_addrs_are_served_witness:
  "set (GetCachedAddrs sample_book_env (CacheAddrs sample_book_env ''P'' [sample_lan, sample_ip] sample_cab) ''P'')
     = {sample_ip}"
proof -
  have r: "0 < recentlyConnectedTTL sample_cab" "0 < relayAddrTTL sample_cab"
    by (simp_all add: env_defs time_Hour_def)
  have "stored_set sample_addrbook ''P'' (public_only sample_book_env sample_cab [sample_lan, sample_ip]) = {sample_ip}"
    by (simp add: public_only_def stored_set_def, simp add: env_defs hasPrefix_def)
  moreover have "ab_Addrs sample_addrbook (addrBook sample_cab) ''P'' = []" by (simp add: env_defs)
  ultimately show ?thesis
    using cached_addrs_are_served[of sample_book_env, OF _ r, of "''P''" "[sample_lan, sample_ip]"] by simp
qed

end
