(* ===== verification/Backoff.thy ===== *)
theory Backoff
  imports AddrBook
begin

text \<open>
  The back-off of failing peers: how long \<open>ShouldProbePeer\<close> holds a peer back after \<open>n\<close> failures,
  where its 64-bit arithmetic wraps, and how the gate and \<open>RecordFailedConnection\<close>, two calls between
  which other attempts may come, together bound the failures of a peer only tried when the gate allows it.
\<close>

section \<open>The value of the back-off\<close>

lemma int64_id: "- (2 ^ 63) \<le> x \<Longrightarrow> x < 2 ^ 63 \<Longrightarrow> int64 x = x"
  by (simp add: int64_def signed_take_bit_int_eq_self)

lemma shl64_small: "unat k \<le> 62 \<Longrightarrow> shl64 k = 2 ^ unat k"
proof -
  assume k: "unat k \<le> 62"
  have "int64 t = t" if "0 < t" "t \<le> 2 ^ 62" for t
    using that by (intro int64_id) simp_all
  moreover have "(2 :: int) ^ unat k \<le> 2 ^ 62" by (rule power_increasing[OF k]) simp
  ultimately have "int64 (2 ^ unat k) = 2 ^ unat k" by simp
  with k show ?thesis by (simp add: shl64_def)
qed

lemma unat_pred: "0 < (n :: 64 word) \<Longrightarrow> unat (n - 1) = unat n - 1"
  by (simp add: unat_sub word_le_nat_alt word_less_nat_alt)

lemma backoff_exact:
  assumes "0 < n" "unat n \<le> 22"
  shows "backoff K n = min (time_Hour * 2 ^ (unat n - 1)) (DefaultProvideValidity K)"
proof -
  have "unat (n - 1) \<le> 21" using assms by (simp add: unat_pred)
  then have "(2 :: int) ^ unat (n - 1) \<le> 2 ^ 21" by (rule power_increasing) simp
  moreover have "int64 (time_Hour * t) = time_Hour * t" if "0 < t" "t \<le> 2 ^ 21" for t
    using that by (intro int64_id) (simp_all add: time_Hour_def)
  ultimately have "int64 (time_Hour * 2 ^ unat (n - 1)) = time_Hour * 2 ^ unat (n - 1)" by simp
  with assms \<open>unat (n - 1) \<le> 21\<close> show ?thesis
    by (simp add: backoff_def shl64_small PeerProbeThreshold_def MaxBackoffDuration_def unat_pred)
qed

lemma backoff_zero: "backoff K 0 = time_Hour"
  by (simp add: backoff_def PeerProbeThreshold_def)

text \<open>The 23rd failure asks for \<open>2^22\<close> hours, which is more nanoseconds than an \<open>int64\<close> holds.\<close>

lemma backoff_23: "backoff K 23 < 0"
proof -
  have "int64 (3600 * 10 ^ 9 * 2 ^ 22) < 0"
    by (simp add: int64_def signed_take_bit_eq_if_negative bit_iff_odd take_bit_eq_mod)
  moreover have "shl64 (23 - 1) = 2 ^ 22" by (subst shl64_small) simp_all
  ultimately show ?thesis by (simp add: backoff_def PeerProbeThreshold_def time_Hour_def)
qed

lemma time_Sub_same [simp]: "time_Sub t t = 0"
  by (simp add: time_Sub_def max_int64_def)

lemma time_Sub_mono: "s \<le> t \<Longrightarrow> time_Sub s l \<le> time_Sub t l"
  by (auto simp: time_Sub_def)

section \<open>Repeated failures\<close>

abbreviation peer_state :: "('ab, 'c, 'ma, 'env) book_env \<Rightarrow> ('ab, 'c) cachedAddrBook \<Rightarrow> peer_id \<Rightarrow> peerState option" where
  "peer_state E cab p \<equiv> lru_Peek (be_LRU E) (peerCache cab) p"

text \<open>What one recorded failure does to the peer's state.\<close>

lemma RecordFailedConnection_state:
  assumes "lru_lawful (be_LRU E)"
  shows "peer_state E (RecordFailedConnection E now p cab) p =
    (case peer_state E cab p of
       None \<Rightarrow> Some \<lparr>lastConnTime = 0, lastFailedConnTime = now, connectFailures = 1\<rparr>
     | Some s \<Rightarrow>
         if connectFailures s > 1 \<and> time_Sub now (lastFailedConnTime s) > DefaultProvideValidity (be_K E) then None
         else Some (s\<lparr>lastFailedConnTime := now, connectFailures := connectFailures s + 1\<rparr>))"
  by (auto simp: RecordFailedConnection_def Let_def lru_Peek_Add[OF assms] lru_Peek_Remove[OF assms]
      MaxBackoffDuration_def peerState_zero_def time_zero_def split: option.split)

text \<open>
  Failures in a row, at the times \<open>ts\<close>: none comes so long after the one before it that the peer is
  evicted. The peer is new, or its failures were cleared.
\<close>

definition no_failures :: "('ab, 'c, 'ma, 'env) book_env \<Rightarrow> ('ab, 'c) cachedAddrBook \<Rightarrow> peer_id \<Rightarrow> bool" where
  "no_failures E cab p \<longleftrightarrow> (case peer_state E cab p of None \<Rightarrow> True | Some s \<Rightarrow> connectFailures s = 0)"

definition in_a_row :: "lib_consts \<Rightarrow> int list \<Rightarrow> bool" where
  "in_a_row K ts \<longleftrightarrow> successively (\<lambda>t t'. time_Sub t' t \<le> DefaultProvideValidity K) ts"

lemma failures_in_a_row:
  assumes L: "lru_lawful (be_LRU E)" and "no_failures E cab p" and "ts \<noteq> []" and "in_a_row (be_K E) ts"
  shows "\<exists>c. peer_state E (fold (\<lambda>t. RecordFailedConnection E t p) ts cab) p =
    Some \<lparr>lastConnTime = c, lastFailedConnTime = last ts, connectFailures = of_nat (length ts)\<rparr>"
  using assms(3,4)
proof (induction ts rule: rev_induct)
  case Nil
  then show ?case by simp
next
  case (snoc t ts)
  show ?case
  proof (cases "ts = []")
    case True
    show ?thesis
    proof (cases "peer_state E cab p")
      case None
      with True show ?thesis by (simp add: RecordFailedConnection_state[OF L])
    next
      case (Some s)
      with assms(2) have "connectFailures s = 0" by (simp add: no_failures_def)
      with Some True show ?thesis
        by (cases s) (simp add: RecordFailedConnection_state[OF L])
    qed
  next
    case False
    with snoc.prems have gap: "time_Sub t (last ts) \<le> DefaultProvideValidity (be_K E)" "in_a_row (be_K E) ts"
      by (auto simp: in_a_row_def successively_append_iff)
    from snoc.IH[OF False gap(2)] gap(1) show ?thesis
      by (auto simp: RecordFailedConnection_state[OF L])
  qed
qed

section \<open>Trying a peer only when the gate is open\<close>

text \<open>
  Attempts to reach one peer \<open>p\<close>, as the probe loop and the background lookups make them: \<open>ShouldProbePeer\<close>
  lets an attempt begin, and when it fails \<open>RecordFailedConnection\<close> is called. The two are separate calls,
  and attempts of several goroutines overlap: \<open>at_flying\<close> counts those between the two, \<open>m\<close> bounds how many
  there are at once. The peer may be identified meanwhile, and whatever happens to other peers may push
  this one out of the peer cache. Times never run backwards.
\<close>

record ('ab, 'c) attempts =
  at_cab :: "('ab, 'c) cachedAddrBook"
  at_flying :: nat
  at_now :: int

datatype ('ab, 'c, 'ma, 'env) attempt_action =
    Gate int                                                         \<comment> \<open>\<open>ShouldProbePeer\<close>\<close>
  | Fails int                                                        \<comment> \<open>\<open>RecordFailedConnection\<close>\<close>
  | Succeeds int
  | Identified int "'ma host" "'env option" "'ma list"
  | Elsewhere int "('ab, 'c) cachedAddrBook"

definition attempt_step ::
  "('ab, 'c, 'ma, 'env) book_env \<Rightarrow> peer_id \<Rightarrow> nat \<Rightarrow> ('ab, 'c) attempts \<Rightarrow> ('ab, 'c, 'ma, 'env) attempt_action \<Rightarrow>
     ('ab, 'c) attempts option" where
  "attempt_step E p m s a =
     (case a of
        Gate t \<Rightarrow>
          if t < at_now s then None
          else if ShouldProbePeer E t (at_cab s) p
               then if at_flying s < m then Some (s\<lparr>at_now := t, at_flying := at_flying s + 1\<rparr>) else None
               else Some (s\<lparr>at_now := t\<rparr>)
      | Fails t \<Rightarrow>
          if t < at_now s \<or> at_flying s = 0 then None
          else Some (s\<lparr>at_now := t, at_flying := at_flying s - 1, at_cab := RecordFailedConnection E t p (at_cab s)\<rparr>)
      | Succeeds t \<Rightarrow>
          if t < at_now s \<or> at_flying s = 0 then None else Some (s\<lparr>at_now := t, at_flying := at_flying s - 1\<rparr>)
      | Identified t H signedRec listenAddrs \<Rightarrow>
          if t < at_now s then None
          else Some (s\<lparr>at_now := t, at_cab := on_identified E H t p signedRec listenAddrs (at_cab s)\<rparr>)
      | Elsewhere t cab \<Rightarrow>
          if t < at_now s \<or> peer_state E cab p \<notin> {None, peer_state E (at_cab s) p} then None
          else Some (s\<lparr>at_now := t, at_cab := cab\<rparr>))"

definition attempts_init :: "('ab, 'c) cachedAddrBook \<Rightarrow> int \<Rightarrow> ('ab, 'c) attempts" where
  "attempts_init cab t = \<lparr>at_cab = cab, at_flying = 0, at_now = t\<rparr>"

text \<open>Past six failures only an attempt that comes after the whole back-off, hence too late, can begin.\<close>

lemma long_backoff:
  assumes "DefaultProvideValidity K = 48 * time_Hour" and "7 \<le> unat n" "unat n \<le> 22"
  shows "backoff K n = 48 * time_Hour" and "n > 1"
proof -
  have "n > 0" using assms(2) by (simp add: word_less_nat_alt)
  moreover have "(2 :: int) ^ 6 \<le> 2 ^ (unat n - 1)" using assms(2) by (intro power_increasing) simp_all
  ultimately show "backoff K n = 48 * time_Hour" using assms by (simp add: backoff_exact time_Hour_def)
  show "n > 1" using assms(2) by (simp add: word_less_nat_alt)
qed

definition attempts_inv :: "('ab, 'c, 'ma, 'env) book_env \<Rightarrow> peer_id \<Rightarrow> nat \<Rightarrow> ('ab, 'c) attempts \<Rightarrow> bool" where
  "attempts_inv E p m s \<longleftrightarrow> at_flying s \<le> m \<and>
     (case peer_state E (at_cab s) p of
        None \<Rightarrow> True
      | Some st \<Rightarrow> unat (connectFailures st) \<le> 6 + m \<and>
          (unat (connectFailures st) + at_flying s \<le> 6 + m \<or> time_Sub (at_now s) (lastFailedConnTime st) > 48 * time_Hour))"

lemma unat_word_suc: "unat (n :: 64 word) \<le> 22 \<Longrightarrow> unat (n + 1) = Suc (unat n)"
  by (simp add: unat_word_ariths)

lemma identified_state:
  assumes "lru_lawful (be_LRU E)"
  shows "peer_state E (on_identified E H now p signedRec listenAddrs cab) p =
      Some ((case peer_state E cab p of Some s \<Rightarrow> s | None \<Rightarrow> peerState_zero)
        \<lparr>lastConnTime := now, lastFailedConnTime := time_zero, connectFailures := 0\<rparr>)"
proof -
  have "peerCache (replacePeerAddrs E p signedRec ls cs ttl c) = peerCache c" for ls cs ttl and c :: "('b, 'a) cachedAddrBook"
    by (simp add: replacePeerAddrs_def Let_def case_prod_beta split: option.split)
  then show ?thesis by (simp add: on_identified_def Let_def lru_Peek_Add[OF assms])
qed

lemma later_overdue: "t \<le> t' \<Longrightarrow> x < time_Sub t l \<Longrightarrow> x < time_Sub t' l"
  using time_Sub_mono[of t t' l] by simp

lemma attempts_step:
  assumes L: "lru_lawful (be_LRU E)" and V: "DefaultProvideValidity (be_K E) = 48 * time_Hour" and m: "m \<le> 16"
    and inv: "attempts_inv E p m s" and step: "attempt_step E p m s a = Some s'"
  shows "attempts_inv E p m s'"
proof (cases a)
  case (Gate t)
  with step have t: "at_now s \<le> t" by (auto simp: attempt_step_def split: if_splits)
  show ?thesis
  proof (cases "ShouldProbePeer E t (at_cab s) p")
    case False
    with Gate step t inv show ?thesis
      by (auto simp: attempt_step_def attempts_inv_def intro: later_overdue split: option.splits if_splits)
  next
    case True
    with Gate step have s': "at_flying s < m" "s' = s\<lparr>at_now := t, at_flying := at_flying s + 1\<rparr>"
      by (auto simp: attempt_step_def split: if_splits)
    show ?thesis
    proof (cases "peer_state E (at_cab s) p")
      case None
      with s' show ?thesis by (simp add: attempts_inv_def)
    next
      case (Some st)
      have few: "unat (connectFailures st) \<le> 6 + m" using inv Some by (simp add: attempts_inv_def)
      have "time_Sub t (lastFailedConnTime st) > 48 * time_Hour" if "7 \<le> unat (connectFailures st)"
      proof -
        have "backoff (be_K E) (connectFailures st) = 48 * time_Hour" using long_backoff(1)[OF V that] few m by simp
        with True Some show ?thesis by (simp add: ShouldProbePeer_def)
      qed
      then show ?thesis using few s' Some by (force simp: attempts_inv_def)
    qed
  qed
next
  case (Fails t)
  with step have s': "at_now s \<le> t" "0 < at_flying s"
    "s' = s\<lparr>at_now := t, at_flying := at_flying s - 1, at_cab := RecordFailedConnection E t p (at_cab s)\<rparr>"
    by (auto simp: attempt_step_def split: if_splits)
  show ?thesis
  proof (cases "peer_state E (at_cab s) p")
    case None
    with s' inv show ?thesis by (auto simp: attempts_inv_def RecordFailedConnection_state[OF L])
  next
    case (Some st)
    have few: "unat (connectFailures st) \<le> 6 + m" "at_flying s \<le> m" using inv Some by (simp_all add: attempts_inv_def)
    then have suc: "unat (connectFailures st + 1) = Suc (unat (connectFailures st))" using m by (intro unat_word_suc) simp
    consider "connectFailures st > 1" "time_Sub t (lastFailedConnTime st) > 48 * time_Hour"
      | "\<not> connectFailures st > 1" | "\<not> time_Sub t (lastFailedConnTime st) > 48 * time_Hour" by blast
    then show ?thesis
    proof cases
      case 1
      with s' Some few V show ?thesis by (auto simp: attempts_inv_def RecordFailedConnection_state[OF L])
    next
      case 2
      then have "unat (connectFailures st) \<le> 1" by (simp add: word_less_nat_alt)
      with 2 s' Some few suc V show ?thesis by (auto simp: attempts_inv_def RecordFailedConnection_state[OF L])
    next
      case 3
      then have "unat (connectFailures st) + at_flying s \<le> 6 + m"
        using inv Some later_overdue[OF s'(1)] by (auto simp: attempts_inv_def)
      with 3 s' Some few suc V show ?thesis by (auto simp: attempts_inv_def RecordFailedConnection_state[OF L])
    qed
  qed
next
  case (Succeeds t)
  with step have s': "at_now s \<le> t" "s' = s\<lparr>at_now := t, at_flying := at_flying s - 1\<rparr>"
    by (auto simp: attempt_step_def split: if_splits)
  show ?thesis
  proof (cases "peer_state E (at_cab s) p")
    case None
    with s' inv show ?thesis by (simp add: attempts_inv_def)
  next
    case (Some st)
    with s' inv later_overdue[OF s'(1), of "48 * time_Hour" "lastFailedConnTime st"] show ?thesis
      by (auto simp: attempts_inv_def)
  qed
next
  case (Identified t H signedRec listenAddrs)
  with step have "s' = s\<lparr>at_now := t, at_cab := on_identified E H t p signedRec listenAddrs (at_cab s)\<rparr>"
    by (auto simp: attempt_step_def split: if_splits)
  with inv show ?thesis by (auto simp: attempts_inv_def identified_state[OF L])
next
  case (Elsewhere t cab)
  with step have "at_now s \<le> t" "peer_state E cab p = None \<or> peer_state E cab p = peer_state E (at_cab s) p"
    "s' = s\<lparr>at_now := t, at_cab := cab\<rparr>"
    by (auto simp: attempt_step_def split: if_splits)
  with inv show ?thesis
    by (auto simp: attempts_inv_def intro: later_overdue split: option.splits)
qed

lemma attempts_run:
  assumes "lru_lawful (be_LRU E)" "DefaultProvideValidity (be_K E) = 48 * time_Hour" "m \<le> 16"
    and "peer_state E cab p = None" "run_steps (attempt_step E p m) (attempts_init cab t0) as = Some s"
  shows "attempts_inv E p m s"
proof (rule run_steps_guarded[where ok = "\<lambda>a. True" and I = "attempts_inv E p m", rotated, OF _ _ assms(5)])
  show "attempts_inv E p m (attempts_init cab t0)" using assms(4) by (simp add: attempts_inv_def attempts_init_def)
qed (auto simp: list_all_iff intro: attempts_step[OF assms(1-3)])

section \<open>Properties\<close>

text \<open>
  C26. The back-off schedule. Take a peer that is new or whose failures were cleared. After \<open>n\<close> failures in
  a row at any times, \<open>n\<close> up to 22, each no later than the provider validity period after the one before,
  the peer is held back for \<open>2^(n-1)\<close> hours or that period, whichever is shorter, counted from the last of
  them. After 23 failures the product has wrapped around: the peer is due for a probe the instant it failed.
\<close>

theorem backoff_schedule:
  assumes "lru_lawful (be_LRU E)" and "no_failures E cab p" and "0 \<le> DefaultProvideValidity (be_K E)"
    and "successively (\<lambda>t t'. time_Sub t' t \<le> DefaultProvideValidity (be_K E)) ts"
    and "cab' = fold (\<lambda>t. RecordFailedConnection E t p) ts cab"
  shows "(1 \<le> length ts \<and> length ts \<le> 22 \<longrightarrow>
       (ShouldProbePeer E s cab' p \<longleftrightarrow>
          time_Sub s (last ts) > min (time_Hour * 2 ^ (length ts - 1)) (DefaultProvideValidity (be_K E)))) \<and>
    (length ts = 23 \<longrightarrow> ShouldProbePeer E (last ts) cab' p)"
proof (intro conjI impI)
  have st: "\<exists>c. peer_state E cab' p = Some \<lparr>lastConnTime = c, lastFailedConnTime = last ts, connectFailures = of_nat (length ts)\<rparr>"
    if "ts \<noteq> []"
    unfolding assms(5) by (rule failures_in_a_row[OF assms(1,2) that]) (simp add: in_a_row_def assms(4))
  show "ShouldProbePeer E s cab' p \<longleftrightarrow>
      time_Sub s (last ts) > min (time_Hour * 2 ^ (length ts - 1)) (DefaultProvideValidity (be_K E))"
    if n: "1 \<le> length ts \<and> length ts \<le> 22"
  proof -
    from n have ne: "ts \<noteq> []" by auto
    have "unat (of_nat (length ts) :: 64 word) = length ts" using n by (simp add: unat_of_nat)
    then have "backoff (be_K E) (of_nat (length ts)) = min (time_Hour * 2 ^ (length ts - 1)) (DefaultProvideValidity (be_K E))"
      using n ne by (subst backoff_exact) (simp_all add: word_less_nat_alt)
    with st[OF ne] show ?thesis by (auto simp: ShouldProbePeer_def)
  qed
  show "ShouldProbePeer E (last ts) cab' p" if n: "length ts = 23"
  proof -
    from n have "ts \<noteq> []" by auto
    from st[OF this] n show ?thesis by (auto simp: ShouldProbePeer_def backoff_23)
  qed
qed

lemma backoff_schedule_witness:
  "let cab = fold (\<lambda>t. RecordFailedConnection sample_book_env t ''P'') [7, 7 + 2 * time_Hour, 7 + 5 * time_Hour] sample_cab
   in \<not> ShouldProbePeer sample_book_env (7 + 8 * time_Hour) cab ''P'' \<and> ShouldProbePeer sample_book_env (7 + 10 * time_Hour) cab ''P''"
proof -
  let ?ts = "[7, 7 + 2 * time_Hour, 7 + 5 * time_Hour]"
  let ?cab = "fold (\<lambda>t. RecordFailedConnection sample_book_env t ''P'') ?ts sample_cab"
  have c: "be_K sample_book_env = sample_consts" "DefaultProvideValidity sample_consts = 48 * time_Hour"
    by (simp_all add: sample_book_env_def sample_consts_def)
  have n: "no_failures sample_book_env sample_cab ''P''" by (simp add: no_failures_def env_defs)
  have v: "0 \<le> DefaultProvideValidity (be_K sample_book_env)" by (simp add: c time_Hour_def)
  have row: "successively (\<lambda>t t'. time_Sub t' t \<le> DefaultProvideValidity (be_K sample_book_env)) ?ts"
    by (simp add: c time_Sub_def max_int64_def time_Hour_def)
  have gate: "ShouldProbePeer sample_book_env s ?cab ''P'' \<longleftrightarrow> time_Sub s (7 + 5 * time_Hour) > 4 * time_Hour" for s
    using backoff_schedule[OF _ n v row refl, of s] by (simp add: c time_Hour_def)
  show ?thesis unfolding Let_def gate by (simp add: time_Sub_def max_int64_def time_Hour_def)
qed

text \<open>
  C36. How far failures can pile up. Let all attempts on a peer that is not in the peer cache at first go
  through \<open>ShouldProbePeer\<close>, at most \<open>m\<close> of them, up to 16, being in flight at any one time, and interleave as
  they may, with successes, identifies and the peer's eviction by the LRU in between. Then it never counts
  more than \<open>6 + m\<close> failures (seven where attempts do not overlap), so its back-off never wraps around; and
  where an attempt begins at seven failures or more, the next failure recorded evicts the peer from the
  peer cache and the address book. (\<open>FindPeers\<close> on behalf of a client records failures without the gate
  and is not among these attempts.)
\<close>

theorem gated_failures_evict:
  assumes "lru_lawful (be_LRU E)" and "addrbook_lawful (be_AB E)"
    and "DefaultProvideValidity (be_K E) = 48 * time_Hour" and "m \<le> 16"
    and "peer_state E cab p = None" and "run_steps (attempt_step E p m) (attempts_init cab t0) as = Some s"
    and "peer_state E (at_cab s) p = Some st"
  shows "unat (connectFailures st) \<le> 6 + m \<and>
    (7 \<le> unat (connectFailures st) \<and> ShouldProbePeer E t (at_cab s) p \<and> t \<le> t' \<longrightarrow>
       peer_state E (RecordFailedConnection E t' p (at_cab s)) p = None \<and>
       (\<forall>x. book_ttl E (RecordFailedConnection E t' p (at_cab s)) p x = None))"
proof (intro conjI impI allI)
  show few: "unat (connectFailures st) \<le> 6 + m"
    using attempts_run[OF assms(1,3,4,5,6)] assms(7) by (simp add: attempts_inv_def)
  assume h: "7 \<le> unat (connectFailures st) \<and> ShouldProbePeer E t (at_cab s) p \<and> t \<le> t'"
  then have many: "7 \<le> unat (connectFailures st)" by simp
  note backoff = long_backoff[OF assms(3) many]
  have due: "connectFailures st > 1 \<and> time_Sub t' (lastFailedConnTime st) > DefaultProvideValidity (be_K E)"
    using h few assms(3,4,7) backoff later_overdue[of t t' "48 * time_Hour" "lastFailedConnTime st"]
    by (simp add: ShouldProbePeer_def)
  then show "peer_state E (RecordFailedConnection E t' p (at_cab s)) p = None"
    by (simp add: RecordFailedConnection_state[OF assms(1)] assms(7))
  show "book_ttl E (RecordFailedConnection E t' p (at_cab s)) p x = None" for x
    using due by (simp add: RecordFailedConnection_def Let_def assms(7) MaxBackoffDuration_def ab_TTL_Clear[OF assms(2)])
qed

lemma gated_failures_evict_witness:
  "\<exists>s st. run_steps (attempt_step sample_book_env ''P'' 2) (attempts_init sample_cab 0) [Gate 5, Gate 6, Fails 7, Fails 8] = Some s \<and>
     peer_state sample_book_env (at_cab s) ''P'' = Some st \<and> connectFailures st = 2 \<and> unat (connectFailures st) \<le> 8"
proof -
  have L: "lru_lawful (be_LRU sample_book_env)" by simp
  have V: "DefaultProvideValidity (be_K sample_book_env) = 48 * time_Hour" by (simp add: sample_book_env_def sample_consts_def)
  have p: "peer_state sample_book_env sample_cab ''P'' = None" by (simp add: env_defs)
  let ?c1 = "RecordFailedConnection sample_book_env 7 ''P'' sample_cab"
  have c1: "peer_state sample_book_env ?c1 ''P'' = Some \<lparr>lastConnTime = 0, lastFailedConnTime = 7, connectFailures = 1\<rparr>"
    using RecordFailedConnection_state[OF L, of 7 "''P''" sample_cab] unfolding p by simp
  let ?c2 = "RecordFailedConnection sample_book_env 8 ''P'' ?c1"
  let ?st = "\<lparr>lastConnTime = 0, lastFailedConnTime = 8, connectFailures = 2\<rparr>"
  have c2: "peer_state sample_book_env ?c2 ''P'' = Some ?st"
    using RecordFailedConnection_state[OF L, of 8 "''P''" ?c1] unfolding c1
    by (simp add: V time_Sub_def max_int64_def time_Hour_def)
  have run: "run_steps (attempt_step sample_book_env ''P'' 2) (attempts_init sample_cab 0) [Gate 5, Gate 6, Fails 7, Fails 8] =
      Some \<lparr>at_cab = ?c2, at_flying = 0, at_now = 8\<rparr>"
    using p by (simp add: attempt_step_def attempts_init_def ShouldProbePeer_def)
  from gated_failures_evict[where t = 0 and t' = 0, OF L _ V _ p run] c2 have "unat (connectFailures ?st) \<le> 8" by simp
  with run c2 show ?thesis by (intro exI[of _ "\<lparr>at_cab = ?c2, at_flying = 0, at_now = 8\<rparr>"] exI[of _ ?st]) simp
qed

text \<open>
  A completed identify clears the failures, and with them the whole hold-back: the peer may be
  probed at any later moment, however recent the connection. (\<open>PeerProbeThreshold\<close> is documented as
  the wait since the last connection; the gate reads only the time of the last failure.)
\<close>

theorem identified_peer_is_due:
  assumes "lru_lawful (be_LRU E)" and "now \<le> s" and "time_Hour < now"
  shows "ShouldProbePeer E s (on_identified E H now p signedRec listenAddrs cab) p \<and>
    (\<exists>ps. peer_state E (on_identified E H now p signedRec listenAddrs cab) p = Some ps \<and>
       lastConnTime ps = now \<and> connectFailures ps = 0)"
proof -
  have "time_Hour < time_Sub s time_zero"
    using assms(2,3) by (simp add: time_Sub_def time_zero_def max_int64_def time_Hour_def)
  then show ?thesis by (simp add: ShouldProbePeer_def identified_state[OF assms(1)] backoff_zero)
qed

lemma identified_peer_is_due_witness:
  "ShouldProbePeer sample_book_env (2 * time_Hour) (on_identified sample_book_env
     \<lparr>host_Connectedness = (\<lambda>_. Connected), host_ConnsToPeer = (\<lambda>_. [])\<rparr> (2 * time_Hour) ''P'' None [] sample_cab) ''P''"
  using identified_peer_is_due[of sample_book_env "2 * time_Hour" "2 * time_Hour"] by (simp add: time_Hour_def)

end
