(* ===== verification/Probing.thy ===== *)
theory Probing
  imports AddrBook
begin

text \<open>
  The background loop and the probe runs beside it (\<open>background\<close> and \<open>probePeers\<close> of
  cached_addr_book.go) as a step function. Its actions are the events of the loop, the steps of the
  goroutine that walks the peers, the returns of the dials it started, and the calls of the routers
  into the same address book, in any order. What a step sees of the host and the clock is an argument
  of its action.
\<close>

section \<open>State and steps\<close>

text \<open>
  A run of \<open>probePeers\<close>: the peers left to visit (\<open>None\<close> until \<open>PeersWithAddrs\<close> has been read), the
  dial waiting for the semaphore, and the dials that hold it.
\<close>

record 'ma probe_run =
  pr_todo :: "peer_id list option"
  pr_pending :: "(peer_id \<times> 'ma list) option"
  pr_inflight :: "(peer_id \<times> 'ma list) list"

definition new_probe_run :: "'ma probe_run" where
  "new_probe_run = \<lparr>pr_todo = None, pr_pending = None, pr_inflight = []\<rparr>"

text \<open>
  The system. Nothing in it says that one run at a time is active: \<open>go cab.probePeers\<close> adds a run to
  the list, and only the flag \<open>isProbing\<close> keeps a second one from being started.
\<close>

record ('ab, 'c, 'ma) probe_sys =
  ps_cab :: "('ab, 'c) cachedAddrBook"
  ps_running :: bool
  ps_runs :: "'ma probe_run list"

datatype 'ma run_action =
    ProbeList
  | ProbeVisit "'ma host" int
  | ProbeSpawn
  | ProbeDialed nat bool int
  | ProbeFinish

datatype ('ma, 'env) probe_action =
    EvIdentified "'ma host" int peer_id "'env option" "'ma list"
  | EvConnectedness peer_id connectedness
  | ProbeTick
  | CtxDone
  | OfRun nat "'ma run_action"
  | RouterCaches peer_id "'ma list"
  | RouterFails int peer_id

text \<open>One pass through the loop body: what is to be dialled, if anything.\<close>

definition probe_visit ::
  "('ab, 'c, 'ma, 'env) book_env \<Rightarrow> 'ma host \<Rightarrow> int \<Rightarrow> ('ab, 'c) cachedAddrBook \<Rightarrow> peer_id \<Rightarrow>
     (peer_id \<times> 'ma list) option" where
  "probe_visit E H now cab p =
     (if hasValidConnectedness (host_Connectedness H p) then None
      else if \<not> ShouldProbePeer E now cab p then None
      else
        let addrs = ab_Addrs (be_AB E) (addrBook cab) p;
            addrs1 = (if \<not> allowPrivateIPs cab then filter (manet_IsPublicAddr (be_MA E)) addrs else addrs)
        in if length addrs1 = 0 then None else Some (p, addrs1))"

definition background_step ::
  "('ab, 'c, 'ma, 'env) book_env \<Rightarrow> ('ab, 'c, 'ma) probe_sys \<Rightarrow> ('ma, 'env) probe_action \<Rightarrow>
     ('ab, 'c, 'ma) probe_sys option" where
  "background_step E s a =
     (if \<not> ps_running s then None
      else case a of
        EvIdentified H now p signedRec listenAddrs \<Rightarrow>
          Some (s\<lparr>ps_cab := on_identified E H now p signedRec listenAddrs (ps_cab s)\<rparr>)
      | EvConnectedness p c \<Rightarrow> Some (s\<lparr>ps_cab := on_connectedness E p c (ps_cab s)\<rparr>)
      | ProbeTick \<Rightarrow>
          let (start, cab) = on_probe_tick (ps_cab s)
          in Some (s\<lparr>ps_cab := cab, ps_runs := ps_runs s @ (if start then [new_probe_run] else [])\<rparr>)
      | CtxDone \<Rightarrow> Some (s\<lparr>ps_running := False\<rparr>)
      | _ \<Rightarrow> None)"

text \<open>A step of one run: the address book it leaves, and the run, \<open>None\<close> once it has returned.\<close>

definition probe_run_step ::
  "('ab, 'c, 'ma, 'env) book_env \<Rightarrow> 'ma probe_run \<Rightarrow> ('ab, 'c) cachedAddrBook \<Rightarrow> 'ma run_action \<Rightarrow>
     (('ab, 'c) cachedAddrBook \<times> 'ma probe_run option) option" where
  "probe_run_step E r cab a =
     (case a of
        ProbeList \<Rightarrow>
          if pr_todo r = None
          then Some (cab, Some (r\<lparr>pr_todo := Some (ab_PeersWithAddrs (be_AB E) (addrBook cab))\<rparr>))
          else None
      | ProbeVisit H now \<Rightarrow>
          (case (pr_todo r, pr_pending r) of
             (Some (p # ps), None) \<Rightarrow>
               Some (cab, Some (r\<lparr>pr_todo := Some ps, pr_pending := probe_visit E H now cab p\<rparr>))
           | _ \<Rightarrow> None)
      | ProbeSpawn \<Rightarrow>
          (case pr_pending r of
             Some d \<Rightarrow>
               if length (pr_inflight r) < MaxConcurrentProbes
               then Some (cab, Some (r\<lparr>pr_pending := None, pr_inflight := pr_inflight r @ [d]\<rparr>))
               else None
           | None \<Rightarrow> None)
      | ProbeDialed i ok now \<Rightarrow>
          if i < length (pr_inflight r)
          then let p = fst (pr_inflight r ! i);
                   r' = r\<lparr>pr_inflight := take i (pr_inflight r) @ drop (Suc i) (pr_inflight r)\<rparr>
               in Some (if ok then cab else RecordFailedConnection E now p cab, Some r')
          else None
      | ProbeFinish \<Rightarrow>
          if pr_todo r = Some [] \<and> pr_pending r = None \<and> pr_inflight r = []
          then Some (cab\<lparr>isProbing := False\<rparr>, None)
          else None)"

definition probe_step ::
  "('ab, 'c, 'ma, 'env) book_env \<Rightarrow> ('ab, 'c, 'ma) probe_sys \<Rightarrow> ('ma, 'env) probe_action \<Rightarrow>
     ('ab, 'c, 'ma) probe_sys option" where
  "probe_step E s a =
     (case a of
        RouterCaches p as \<Rightarrow> Some (s\<lparr>ps_cab := CacheAddrs E p as (ps_cab s)\<rparr>)
      | RouterFails now p \<Rightarrow> Some (s\<lparr>ps_cab := RecordFailedConnection E now p (ps_cab s)\<rparr>)
      | OfRun k b \<Rightarrow>
          if k < length (ps_runs s)
          then (case probe_run_step E (ps_runs s ! k) (ps_cab s) b of
                  None \<Rightarrow> None
                | Some (cab, r) \<Rightarrow>
                    Some (s\<lparr>ps_cab := cab,
                            ps_runs := take k (ps_runs s) @ (case r of None \<Rightarrow> [] | Some r' \<Rightarrow> [r']) @ drop (Suc k) (ps_runs s)\<rparr>))
          else None
      | _ \<Rightarrow> background_step E s a)"

definition probe_init :: "('ab, 'c) cachedAddrBook \<Rightarrow> ('ab, 'c, 'ma) probe_sys" where
  "probe_init cab = \<lparr>ps_cab = cab, ps_running = True, ps_runs = []\<rparr>"

section \<open>What every step keeps\<close>

lemma replacePeerAddrs_fields [simp]:
  "allowPrivateIPs (replacePeerAddrs E p sr ls cs ttl cab) = allowPrivateIPs cab"
  "isProbing (replacePeerAddrs E p sr ls cs ttl cab) = isProbing cab"
  by (simp_all add: replacePeerAddrs_def capRelayAddrTTL_def Let_def case_prod_beta split: option.split)

lemma handler_fields [simp]:
  "allowPrivateIPs (on_identified E H now p sr ls cab) = allowPrivateIPs cab"
  "isProbing (on_identified E H now p sr ls cab) = isProbing cab"
  "allowPrivateIPs (on_connectedness E p c cab) = allowPrivateIPs cab"
  "isProbing (on_connectedness E p c cab) = isProbing cab"
  "allowPrivateIPs (CacheAddrs E p as cab) = allowPrivateIPs cab"
  "isProbing (CacheAddrs E p as cab) = isProbing cab"
  "allowPrivateIPs (RecordFailedConnection E now p cab) = allowPrivateIPs cab"
  "isProbing (RecordFailedConnection E now p cab) = isProbing cab"
  by (simp_all add: on_identified_def on_connectedness_def CacheAddrs_def RecordFailedConnection_def
      capRelayAddrTTL_def Let_def case_prod_beta)

text \<open>A dial the loop may make: it has somewhere to go, and only public addresses unless allowed.\<close>

definition good_dial :: "('ab, 'c, 'ma, 'env) book_env \<Rightarrow> ('ab, 'c) cachedAddrBook \<Rightarrow> peer_id \<times> 'ma list \<Rightarrow> bool" where
  "good_dial E cab d \<longleftrightarrow> snd d \<noteq> [] \<and> (allowPrivateIPs cab \<or> list_all (manet_IsPublicAddr (be_MA E)) (snd d))"

lemma good_dial_cong: "allowPrivateIPs cab' = allowPrivateIPs cab \<Longrightarrow> good_dial E cab' = good_dial E cab"
  by (simp add: good_dial_def fun_eq_iff)

lemma probe_visit_good: "probe_visit E H now cab p = Some d \<Longrightarrow> good_dial E cab d"
  by (auto simp: probe_visit_def good_dial_def Let_def list_all_iff split: if_splits)

definition good_run :: "('ab, 'c, 'ma, 'env) book_env \<Rightarrow> ('ab, 'c) cachedAddrBook \<Rightarrow> 'ma probe_run \<Rightarrow> bool" where
  "good_run E cab r \<longleftrightarrow> length (pr_inflight r) \<le> MaxConcurrentProbes \<and> list_all (good_dial E cab) (pr_inflight r) \<and>
     (case pr_pending r of None \<Rightarrow> True | Some d \<Rightarrow> good_dial E cab d)"

lemma good_run_cong: "allowPrivateIPs cab' = allowPrivateIPs cab \<Longrightarrow> good_run E cab' = good_run E cab"
  by (simp add: good_run_def[abs_def] good_dial_cong[of cab' cab] cong: option.case_cong)

lemma new_probe_run_good [simp]: "good_run E cab new_probe_run"
  by (simp add: good_run_def new_probe_run_def)

definition probing_inv :: "('ab, 'c, 'ma, 'env) book_env \<Rightarrow> ('ab, 'c, 'ma) probe_sys \<Rightarrow> bool" where
  "probing_inv E s \<longleftrightarrow> length (ps_runs s) \<le> 1 \<and> (ps_runs s \<noteq> [] \<longrightarrow> isProbing (ps_cab s)) \<and>
     list_all (good_run E (ps_cab s)) (ps_runs s)"

text \<open>The flag is set only while a run is active.\<close>

definition probing_flag :: "('ab, 'c, 'ma) probe_sys \<Rightarrow> bool" where
  "probing_flag s \<longleftrightarrow> (isProbing (ps_cab s) \<longrightarrow> ps_runs s \<noteq> [])"

lemma list_all_take_drop: "list_all P xs \<Longrightarrow> list_all P (take i xs @ drop (Suc i) xs)"
  by (auto simp: list_all_iff dest: in_set_takeD in_set_dropD)

text \<open>What a step of a run does: it leaves the flag unless it is the last one, and the run stays good.\<close>

lemma probe_run_step_fields:
  assumes "probe_run_step E r cab b = Some (cab', r')"
  shows "allowPrivateIPs cab' = allowPrivateIPs cab" and "isProbing cab' \<longleftrightarrow> isProbing cab \<and> r' \<noteq> None"
  using assms by (auto simp: probe_run_step_def Let_def split: run_action.splits if_splits option.splits list.splits)

lemma probe_run_step_good:
  assumes good: "good_run E cab r" and step: "probe_run_step E r cab b = Some (cab', Some r')"
  shows "good_run E cab' r'"
proof -
  have "good_run E cab r'"
  proof (cases b)
    case (ProbeVisit H now)
    with good step show ?thesis
      by (auto simp: probe_run_step_def good_run_def dest!: probe_visit_good split: option.splits list.splits)
  next
    case (ProbeDialed i ok now)
    let ?l = "take i (pr_inflight r) @ drop (Suc i) (pr_inflight r)"
    have r': "r' = r\<lparr>pr_inflight := ?l\<rparr>"
      using ProbeDialed step by (simp add: probe_run_step_def Let_def split: if_splits)
    have "length ?l \<le> length (pr_inflight r)" by simp
    moreover have "list_all (good_dial E cab) ?l"
      using good by (intro list_all_take_drop) (simp add: good_run_def)
    ultimately show ?thesis
      using good unfolding r' good_run_def by (cases "pr_pending r"; simp del: list_all_append length_append)
  qed (use good step in \<open>auto simp: probe_run_step_def good_run_def split: option.splits if_splits\<close>)
  then show ?thesis unfolding good_run_cong[OF probe_run_step_fields(1)[OF step]] .
qed

lemma probing_inv_cab:
  assumes "probing_inv E s" "allowPrivateIPs cab = allowPrivateIPs (ps_cab s)" "isProbing cab = isProbing (ps_cab s)"
  shows "probing_inv E (s\<lparr>ps_cab := cab\<rparr>)"
  using assms by (simp add: probing_inv_def good_run_cong[OF assms(2)])

lemma background_step_inv:
  assumes "probing_inv E s" and "background_step E s a = Some s'"
  shows "probing_inv E s'"
proof (cases a)
  case ProbeTick
  show ?thesis
  proof (cases "probingEnabled (ps_cab s) \<and> \<not> isProbing (ps_cab s)")
    case True
    with assms ProbeTick show ?thesis
      by (auto simp: background_step_def on_probe_tick_def probing_inv_def split: if_splits)
  next
    case False
    with assms ProbeTick show ?thesis by (auto simp: background_step_def on_probe_tick_def split: if_splits)
  qed
qed (use assms probing_inv_cab[OF assms(1)] in
    \<open>auto simp: background_step_def probing_inv_def split: if_splits\<close>)

lemma run_action_inv:
  assumes inv: "probing_inv E s" and step: "probe_step E s (OfRun k b) = Some s'"
  shows "probing_inv E s'"
proof -
  from step have "k < length (ps_runs s)" by (simp add: probe_step_def split: if_splits)
  with inv obtain r where runs: "ps_runs s = [r]" and k: "k = 0"
    by (cases "ps_runs s") (auto simp: probing_inv_def)
  with step obtain cab r' where run: "probe_run_step E r (ps_cab s) b = Some (cab, r')"
    and s': "s' = s\<lparr>ps_cab := cab, ps_runs := (case r' of None \<Rightarrow> [] | Some r1 \<Rightarrow> [r1])\<rparr>"
    by (auto simp: probe_step_def split: option.splits)
  show ?thesis
  proof (cases r')
    case None
    then show ?thesis using s' by (simp add: probing_inv_def)
  next
    case (Some r1)
    with inv run show ?thesis
      unfolding s' by (auto simp: probing_inv_def runs probe_run_step_fields(2) intro: probe_run_step_good)
  qed
qed

lemma probe_step_inv: "probing_inv E s \<Longrightarrow> probe_step E s a = Some s' \<Longrightarrow> probing_inv E s'"
proof (cases a)
  case (OfRun k b)
  then show "probing_inv E s \<Longrightarrow> probe_step E s a = Some s' \<Longrightarrow> probing_inv E s'" by (auto intro: run_action_inv)
qed (auto simp: probe_step_def intro: background_step_inv probing_inv_cab)

interpretation probing: step_invariant "probe_step E" "probing_inv E"
  for E :: "('ab, 'c, 'ma, 'env) book_env"
  by unfold_locales (rule probe_step_inv)

lemma probe_step_flag:
  assumes "probing_inv E s \<and> probing_flag s" and "probe_step E s a = Some s'"
  shows "probing_inv E s' \<and> probing_flag s'"
proof
  show "probing_inv E s'" using assms by (auto intro: probe_step_inv)
  show "probing_flag s'"
  proof (cases a)
    case (OfRun k b)
    with assms(2) obtain cab r' where "probe_run_step E (ps_runs s ! k) (ps_cab s) b = Some (cab, r')"
      and "ps_cab s' = cab" and "r' \<noteq> None \<Longrightarrow> ps_runs s' \<noteq> []"
      by (auto simp: probe_step_def split: if_splits option.splits)
    then show ?thesis by (auto simp: probing_flag_def probe_run_step_fields(2))
  next
    case ProbeTick
    with assms show ?thesis
      by (auto simp: probe_step_def background_step_def on_probe_tick_def probing_flag_def split: if_splits)
  qed (use assms in \<open>auto simp: probe_step_def background_step_def probing_flag_def split: if_splits\<close>)
qed

interpretation probing_flag: step_invariant "probe_step E" "\<lambda>s. probing_inv E s \<and> probing_flag s"
  for E :: "('ab, 'c, 'ma, 'env) book_env"
  by unfold_locales (rule probe_step_flag)

section \<open>A probe run can always finish\<close>

text \<open>Every step of a run but the first shrinks this.\<close>

definition probe_work :: "'ma probe_run \<Rightarrow> nat" where
  "probe_work r = (case pr_todo r of None \<Rightarrow> 0 | Some ps \<Rightarrow> 3 * length ps) +
     (if pr_pending r = None then 0 else 2) + length (pr_inflight r)"

lemma probe_step_alone:
  assumes "ps_runs s = [r]" and "probe_run_step E r (ps_cab s) b = Some (cab, r')"
  shows "probe_step E s (OfRun 0 b) = Some (s\<lparr>ps_cab := cab, ps_runs := (case r' of None \<Rightarrow> [] | Some r1 \<Rightarrow> [r1])\<rparr>)"
  using assms by (simp add: probe_step_def)

lemma probe_advances:
  assumes "pr_todo r = Some ps" and "0 < probe_work r"
  obtains b r' ps' where "probe_run_step E r cab b = Some (cab, Some r')" "pr_todo r' = Some ps'"
    "probe_work r' < probe_work r"
proof (cases "pr_inflight r")
  case (Cons d ds)
  have "probe_run_step E r cab (ProbeDialed 0 True 0) = Some (cab, Some (r\<lparr>pr_inflight := ds\<rparr>))"
    using Cons by (simp add: probe_run_step_def Let_def)
  then show ?thesis by (rule that[where ps' = ps]) (use assms Cons in \<open>auto simp: probe_work_def\<close>)
next
  case Nil
  show ?thesis
  proof (cases "pr_pending r")
    case (Some d)
    have "probe_run_step E r cab ProbeSpawn = Some (cab, Some (r\<lparr>pr_pending := None, pr_inflight := [d]\<rparr>))"
      using Nil Some by (simp add: probe_run_step_def MaxConcurrentProbes_def)
    then show ?thesis by (rule that[where ps' = ps]) (use assms Nil Some in \<open>auto simp: probe_work_def\<close>)
  next
    case None
    with Nil assms obtain q qs where ps: "ps = q # qs" by (cases ps) (auto simp: probe_work_def)
    have "probe_run_step E r cab (ProbeVisit undefined 0) =
        Some (cab, Some (r\<lparr>pr_todo := Some qs, pr_pending := probe_visit E undefined 0 cab q\<rparr>))"
      using assms None ps by (simp add: probe_run_step_def)
    then show ?thesis by (rule that[where ps' = qs]) (use assms None Nil ps in \<open>auto simp: probe_work_def\<close>)
  qed
qed

lemma probe_finishes:
  assumes "ps_runs s = [r]" and "pr_todo r = Some ps"
  shows "\<exists>as s'. run_steps (probe_step E) s as = Some s' \<and> ps_runs s' = [] \<and> \<not> isProbing (ps_cab s')"
  using assms
proof (induction "probe_work r" arbitrary: s r ps rule: less_induct)
  case less
  show ?case
  proof (cases "probe_work r = 0")
    case True
    with less.prems(2) have "probe_run_step E r (ps_cab s) ProbeFinish = Some ((ps_cab s)\<lparr>isProbing := False\<rparr>, None)"
      by (auto simp: probe_run_step_def probe_work_def split: if_splits)
    from probe_step_alone[OF less.prems(1) this] show ?thesis
      by (intro exI[of _ "[OfRun 0 ProbeFinish]"]) simp
  next
    case False
    with less.prems(2) obtain b r1 ps1 where step: "probe_run_step E r (ps_cab s) b = Some (ps_cab s, Some r1)"
      and next1: "pr_todo r1 = Some ps1" "probe_work r1 < probe_work r"
      by (metis probe_advances gr0I)
    let ?s1 = "s\<lparr>ps_cab := ps_cab s, ps_runs := [r1]\<rparr>"
    have runs: "ps_runs ?s1 = [r1]" by simp
    from less.hyps[OF next1(2) runs next1(1)] obtain as s' where "run_steps (probe_step E) ?s1 as = Some s'"
      "ps_runs s' = []" "\<not> isProbing (ps_cab s')" by blast
    with probe_step_alone[OF less.prems(1) step] show ?thesis by (intro exI[of _ "OfRun 0 b # as"]) simp
  qed
qed

section \<open>Properties\<close>

text \<open>
  C21. Whatever the order of events, dials and router calls, at most one probe run is active, although
  each tick may start one: the flag \<open>isProbing\<close> is set exactly while a run is active. Every run has at
  most 20 dials open, and no dial is made to a peer without addresses or, unless private addresses are
  allowed, to one that is not public.
\<close>

theorem probes_are_bounded:
  assumes "\<not> isProbing cab" and "run_steps (probe_step E) (probe_init cab) as = Some s"
  shows "length (ps_runs s) \<le> 1 \<and> (isProbing (ps_cab s) \<longleftrightarrow> ps_runs s \<noteq> []) \<and>
    (\<forall>r \<in> set (ps_runs s). length (pr_inflight r) \<le> 20 \<and>
       (\<forall>d \<in> set (pr_inflight r). snd d \<noteq> [] \<and>
          (allowPrivateIPs (ps_cab s) \<or> (\<forall>a \<in> set (snd d). manet_IsPublicAddr (be_MA E) a))))"
proof -
  have "probing_inv E (probe_init cab) \<and> probing_flag (probe_init cab :: ('a, 'b, 'c) probe_sys)"
    using assms(1) by (simp add: probing_inv_def probing_flag_def probe_init_def)
  then have "probing_inv E s \<and> probing_flag s" by (rule probing_flag.inv_run[OF _ assms(2)])
  then show ?thesis
    by (auto simp: probing_inv_def probing_flag_def good_run_def good_dial_def list_all_iff MaxConcurrentProbes_def)
qed

lemma probes_are_bounded_witness:
  "let s = the (run_steps (probe_step sample_book_env)
       (probe_init (sample_cab\<lparr>addrBook := [((''P'', sample_ip), 5), ((''P'', sample_lan), 5)]\<rparr>))
       [ProbeTick, OfRun 0 ProbeList,
        OfRun 0 (ProbeVisit \<lparr>host_Connectedness = (\<lambda>_. NotConnected), host_ConnsToPeer = (\<lambda>_. [])\<rparr> 9),
        ProbeTick, OfRun 0 ProbeSpawn])
   in map pr_inflight (ps_runs s) = [[(''P'', [sample_ip])]] \<and> isProbing (ps_cab s)"
proof -
  let ?cab = "sample_cab\<lparr>addrBook := [((''P'', sample_ip), 5), ((''P'', sample_lan), 5)]\<rparr>"
  let ?as = "[ProbeTick, OfRun 0 ProbeList,
        OfRun 0 (ProbeVisit \<lparr>host_Connectedness = (\<lambda>_. NotConnected), host_ConnsToPeer = (\<lambda>_. [])\<rparr> 9),
        ProbeTick, OfRun 0 ProbeSpawn]"
  let ?r = "\<lparr>pr_todo = Some [], pr_pending = None, pr_inflight = [(''P'', [sample_ip])]\<rparr>"
  have run: "run_steps (probe_step sample_book_env) (probe_init ?cab) ?as =
      Some \<lparr>ps_cab = ?cab\<lparr>isProbing := True\<rparr>, ps_running = True, ps_runs = [?r]\<rparr>"
    by (simp add: probe_step_def background_step_def probe_run_step_def probe_init_def on_probe_tick_def
        new_probe_run_def probe_visit_def hasValidConnectedness_def ShouldProbePeer_def MaxConcurrentProbes_def
        env_defs hasPrefix_def)
  have "\<not> isProbing ?cab" by (simp add: env_defs)
  from probes_are_bounded[OF this run] show ?thesis unfolding run Let_def by simp
qed

text \<open>
  C35. No probe run gets stuck. From any state the system can reach with a run active, some sequence
  of its steps ends it and clears \<open>isProbing\<close>, so later ticks probe again; the semaphore never blocks
  the walk for good, since dials return.
\<close>

theorem probe_run_can_finish:
  assumes "run_steps (probe_step E) (probe_init cab) as = Some s" and "r \<in> set (ps_runs s)"
  shows "\<exists>bs s'. run_steps (probe_step E) (probe_init cab) (as @ bs) = Some s' \<and>
    ps_runs s' = [] \<and> \<not> isProbing (ps_cab s')"
proof -
  have "probing_inv E (probe_init cab)" by (simp add: probing_inv_def probe_init_def)
  then have "probing_inv E s" by (rule probing.inv_run[OF _ assms(1)])
  with assms(2) have runs: "ps_runs s = [r]"
    by (cases "ps_runs s") (auto simp: probing_inv_def)
  have "\<exists>bs s'. run_steps (probe_step E) s bs = Some s' \<and> ps_runs s' = [] \<and> \<not> isProbing (ps_cab s')"
  proof (cases "pr_todo r")
    case (Some ps)
    with runs show ?thesis by (rule probe_finishes)
  next
    case None
    let ?r1 = "r\<lparr>pr_todo := Some (ab_PeersWithAddrs (be_AB E) (addrBook (ps_cab s)))\<rparr>"
    let ?s1 = "s\<lparr>ps_cab := ps_cab s, ps_runs := [?r1]\<rparr>"
    have "probe_run_step E r (ps_cab s) ProbeList = Some (ps_cab s, Some ?r1)"
      using None by (simp add: probe_run_step_def)
    from probe_step_alone[OF runs this] have step: "probe_step E s (OfRun 0 ProbeList) = Some ?s1" by simp
    obtain bs s' where "run_steps (probe_step E) ?s1 bs = Some s'" "ps_runs s' = []" "\<not> isProbing (ps_cab s')"
      using probe_finishes[of ?s1 ?r1 _ E] by force
    with step show ?thesis by (intro exI[of _ "OfRun 0 ProbeList # bs"]) simp
  qed
  with assms(1) show ?thesis by (auto simp: run_steps_append)
qed

lemma probe_run_can_finish_witness:
  "\<exists>bs s'. run_steps (probe_step sample_book_env) (probe_init sample_cab) ([ProbeTick] @ bs) = Some s' \<and>
     ps_runs s' = [] \<and> \<not> isProbing (ps_cab s')"
  by (rule probe_run_can_finish[where s = "\<lparr>ps_cab = sample_cab\<lparr>isProbing := True\<rparr>, ps_running = True, ps_runs = [new_probe_run]\<rparr>"
        and r = new_probe_run])
    (simp_all add: probe_step_def background_step_def probe_init_def on_probe_tick_def env_defs)

end
