(* ===== verification/Rewriting.thy ===== *)
theory Rewriting
  imports DnsAddr DnsMode
begin

text \<open>
  The routers that rewrite the addresses of a response (server_routers.go): \<open>sanitizeRouter\<close>, which
  drops private addresses, and \<open>dnsAddrRouter\<close>, which resolves \<open>/dnsaddr\<close> ones under one budget per
  response. Both are the same walk over the records with a different treatment of an address list, and
  what every record of a response satisfies is proved once, in the locale \<open>addr_rewriter\<close>.

  An iterator is the list of what it yields; a call to the wrapped router is its outcome, an error or
  an iterator. A record the code updates through its pointer is returned updated.
\<close>

section \<open>Records\<close>

text \<open>
  \<open>GetSchema\<close> returns the record's schema field, so the schema and the Go type of a record may
  disagree. Of a record the code reads its schema, its ID and its addresses; the protocols pass through.
\<close>

definition SchemaPeer :: string where "SchemaPeer = ''peer''"
definition SchemaBitswap :: string where "SchemaBitswap = ''bitswap''"

record 'ma PeerRecord =
  Schema :: string
  ID :: "peer_id option"
  Addrs :: "'ma list"
  Protocols :: "string list"

datatype 'ma Record =
    RPeer "'ma PeerRecord"
  | RBitswap "'ma PeerRecord"
  | RUnknown string string

fun GetSchema :: "'ma Record \<Rightarrow> string" where
  "GetSchema (RPeer r) = Schema r"
| "GetSchema (RBitswap r) = Schema r"
| "GetSchema (RUnknown s b) = s"

section \<open>sanitizeRouter\<close>

definition sanitize_peer :: "'ma malib \<Rightarrow> 'ma PeerRecord result \<Rightarrow> 'ma PeerRecord result" where
  "sanitize_peer M v =
     (case (Err v, Val v) of
        (None, Some r) \<Rightarrow> v\<lparr>Val := Some (r\<lparr>Addrs := filterPrivateMultiaddr M (Addrs r)\<rparr>)\<rparr>
      | _ \<Rightarrow> v)"

definition sanitize_record :: "'ma malib \<Rightarrow> 'ma Record result \<Rightarrow> 'ma Record result" where
  "sanitize_record M v =
     (case (Err v, Val v) of
        (None, Some r) \<Rightarrow>
          if GetSchema r = SchemaPeer then
            (case r of
               RPeer p \<Rightarrow> v\<lparr>Val := Some (RPeer (p\<lparr>Addrs := filterPrivateMultiaddr M (Addrs p)\<rparr>))\<rparr>
             | _ \<Rightarrow> v)
          else if GetSchema r = SchemaBitswap then
            (case r of
               RBitswap p \<Rightarrow> v\<lparr>Val := Some (RBitswap (p\<lparr>Addrs := filterPrivateMultiaddr M (Addrs p)\<rparr>))\<rparr>
             | _ \<Rightarrow> v)
          else v
      | _ \<Rightarrow> v)"

definition sanitizeRouter_FindProviders ::
  "'ma malib \<Rightarrow> go_err + 'ma Record result list \<Rightarrow> go_err + 'ma Record result list" where
  "sanitizeRouter_FindProviders M inner =
     (case inner of Inl err \<Rightarrow> Inl err | Inr it \<Rightarrow> Inr (map (sanitize_record M) it))"

definition sanitizeRouter_FindPeers ::
  "'ma malib \<Rightarrow> go_err + 'ma PeerRecord result list \<Rightarrow> go_err + 'ma PeerRecord result list" where
  "sanitizeRouter_FindPeers M inner =
     (case inner of Inl err \<Rightarrow> Inl err | Inr it \<Rightarrow> Inr (map (sanitize_peer M) it))"

definition sanitizeRouter_GetClosestPeers ::
  "'ma malib \<Rightarrow> go_err + 'ma PeerRecord result list \<Rightarrow> go_err + 'ma PeerRecord result list" where
  "sanitizeRouter_GetClosestPeers M inner =
     (case inner of Inl err \<Rightarrow> Inl err | Inr it \<Rightarrow> Inr (map (sanitize_peer M) it))"

section \<open>dnsAddrRouter\<close>

text \<open>The resolver and its surroundings, and the router's own mode and the request's filter.\<close>

record ('c, 'ma) dnsAddrRouter =
  dr_env :: "('c, 'ma) dns_env"
  dr_lru :: "('c, 'ma) dns_lru"
  dr_ma :: "'ma malib"
  dr_mode :: DNSAddrResolution
  dr_filter :: "addrFilter option"

definition resolveRecordAddrs ::
  "('c, 'ma) dnsAddrRouter \<Rightarrow> peer_id option \<Rightarrow> 'ma list \<Rightarrow> ('c, 'ma) dns_state \<Rightarrow> 'ma list \<times> ('c, 'ma) dns_state" where
  "resolveRecordAddrs R pid addrs st =
     (case pid of
        None \<Rightarrow> (sortedAddrs (dr_ma R) addrs, st)
      | Some p \<Rightarrow>
          if \<not> containsDNSAddr (dr_ma R) addrs then (sortedAddrs (dr_ma R) addrs, st)
          else let action = mode_action (dr_mode R) (dr_filter R)
               in if action = dnsAddrSkip then (sortedAddrs (dr_ma R) addrs, st)
                  else let (resolved, st1) =
                             resolveAddrs (dr_env R) (dr_lru R) (dr_ma R) p addrs (action = dnsAddrAppend) st
                       in (filterPrivateMultiaddr (dr_ma R) resolved, st1))"

definition dnsaddr_record ::
  "('c, 'ma) dnsAddrRouter \<Rightarrow> 'ma Record result \<Rightarrow> ('c, 'ma) dns_state \<Rightarrow> 'ma Record result \<times> ('c, 'ma) dns_state" where
  "dnsaddr_record R v st =
     (case (Err v, Val v) of
        (None, Some r) \<Rightarrow>
          if GetSchema r = SchemaPeer then
            (case r of
               RPeer p \<Rightarrow> let (as, st1) = resolveRecordAddrs R (ID p) (Addrs p) st
                          in (v\<lparr>Val := Some (RPeer (p\<lparr>Addrs := as\<rparr>))\<rparr>, st1)
             | _ \<Rightarrow> (v, st))
          else if GetSchema r = SchemaBitswap then
            (case r of
               RBitswap p \<Rightarrow> let (as, st1) = resolveRecordAddrs R (ID p) (Addrs p) st
                             in (v\<lparr>Val := Some (RBitswap (p\<lparr>Addrs := as\<rparr>))\<rparr>, st1)
             | _ \<Rightarrow> (v, st))
          else (v, st)
      | _ \<Rightarrow> (v, st))"

definition dnsaddr_peer ::
  "('c, 'ma) dnsAddrRouter \<Rightarrow> 'ma PeerRecord result \<Rightarrow> ('c, 'ma) dns_state \<Rightarrow>
     'ma PeerRecord result \<times> ('c, 'ma) dns_state" where
  "dnsaddr_peer R v st =
     (case (Err v, Val v) of
        (None, Some p) \<Rightarrow> let (as, st1) = resolveRecordAddrs R (ID p) (Addrs p) st
                          in (v\<lparr>Val := Some (p\<lparr>Addrs := as\<rparr>)\<rparr>, st1)
      | _ \<Rightarrow> (v, st))"

definition dnsAddrRouter_FindProviders ::
  "('c, 'ma) dnsAddrRouter \<Rightarrow> go_err + 'ma Record result list \<Rightarrow> ('c, 'ma) dns_state \<Rightarrow>
     (go_err + 'ma Record result list) \<times> ('c, 'ma) dns_state" where
  "dnsAddrRouter_FindProviders R inner st =
     (case inner of
        Inl err \<Rightarrow> (Inl err, st)
      | Inr it \<Rightarrow> let (out, st1) = map_state (dnsaddr_record R) it (st\<lparr>ds_budget := newDNSAddrBudget\<rparr>)
                  in (Inr out, st1))"

definition resolvePeerRecords ::
  "('c, 'ma) dnsAddrRouter \<Rightarrow> 'ma PeerRecord result list \<Rightarrow> ('c, 'ma) dns_state \<Rightarrow>
     'ma PeerRecord result list \<times> ('c, 'ma) dns_state" where
  "resolvePeerRecords R it st = map_state (dnsaddr_peer R) it (st\<lparr>ds_budget := newDNSAddrBudget\<rparr>)"

definition dnsAddrRouter_FindPeers ::
  "('c, 'ma) dnsAddrRouter \<Rightarrow> go_err + 'ma PeerRecord result list \<Rightarrow> ('c, 'ma) dns_state \<Rightarrow>
     (go_err + 'ma PeerRecord result list) \<times> ('c, 'ma) dns_state" where
  "dnsAddrRouter_FindPeers R inner st =
     (case inner of
        Inl err \<Rightarrow> (Inl err, st)
      | Inr it \<Rightarrow> let (out, st1) = resolvePeerRecords R it st in (Inr out, st1))"

definition dnsAddrRouter_GetClosestPeers ::
  "('c, 'ma) dnsAddrRouter \<Rightarrow> go_err + 'ma PeerRecord result list \<Rightarrow> ('c, 'ma) dns_state \<Rightarrow>
     (go_err + 'ma PeerRecord result list) \<times> ('c, 'ma) dns_state" where
  "dnsAddrRouter_GetClosestPeers R inner st =
     (case inner of
        Inl err \<Rightarrow> (Inl err, st)
      | Inr it \<Rightarrow> let (out, st1) = resolvePeerRecords R it st in (Inr out, st1))"

section \<open>Rewriting the addresses of a response\<close>

text \<open>The records a rewriting router treats, and what it does to one given its list treatment \<open>f\<close>.\<close>

definition treated :: "'ma Record result \<Rightarrow> 'ma PeerRecord option" where
  "treated v =
     (case (Err v, Val v) of
        (None, Some (RPeer p)) \<Rightarrow> if Schema p = SchemaPeer then Some p else None
      | (None, Some (RBitswap p)) \<Rightarrow> if Schema p = SchemaBitswap then Some p else None
      | _ \<Rightarrow> None)"

definition treated_peer :: "'ma PeerRecord result \<Rightarrow> 'ma PeerRecord option" where
  "treated_peer v = (if Err v = None then Val v else None)"

definition with_addrs :: "'ma list \<Rightarrow> 'ma Record result \<Rightarrow> 'ma Record result" where
  "with_addrs as v = v\<lparr>Val := map_option (\<lambda>r. case r of
      RPeer p \<Rightarrow> RPeer (p\<lparr>Addrs := as\<rparr>) | RBitswap p \<Rightarrow> RBitswap (p\<lparr>Addrs := as\<rparr>) | _ \<Rightarrow> r) (Val v)\<rparr>"

definition rewrite_record ::
  "(peer_id option \<Rightarrow> 'ma list \<Rightarrow> 's \<Rightarrow> 'ma list \<times> 's) \<Rightarrow> 'ma Record result \<Rightarrow> 's \<Rightarrow> 'ma Record result \<times> 's" where
  "rewrite_record f v s =
     (case treated v of
        None \<Rightarrow> (v, s)
      | Some p \<Rightarrow> let (as, s1) = f (ID p) (Addrs p) s in (with_addrs as v, s1))"

definition rewrite_peer ::
  "(peer_id option \<Rightarrow> 'ma list \<Rightarrow> 's \<Rightarrow> 'ma list \<times> 's) \<Rightarrow> 'ma PeerRecord result \<Rightarrow> 's \<Rightarrow>
     'ma PeerRecord result \<times> 's" where
  "rewrite_peer f v s =
     (case treated_peer v of
        None \<Rightarrow> (v, s)
      | Some p \<Rightarrow> let (as, s1) = f (ID p) (Addrs p) s in (v\<lparr>Val := Some (p\<lparr>Addrs := as\<rparr>)\<rparr>, s1))"

lemma schemas_differ [simp]: "SchemaPeer \<noteq> SchemaBitswap" "SchemaBitswap \<noteq> SchemaPeer"
  by (simp_all add: SchemaPeer_def SchemaBitswap_def)

lemma sanitize_record_eq: "sanitize_record M v = fst (rewrite_record (\<lambda>_ as s. (filterPrivateMultiaddr M as, s)) v ())"
  by (auto simp: sanitize_record_def rewrite_record_def treated_def with_addrs_def
      split: option.splits Record.splits)

lemma sanitize_peer_eq: "sanitize_peer M v = fst (rewrite_peer (\<lambda>_ as s. (filterPrivateMultiaddr M as, s)) v ())"
  by (auto simp: sanitize_peer_def rewrite_peer_def treated_peer_def split: option.splits)

lemma dnsaddr_record_eq: "dnsaddr_record R v st = rewrite_record (resolveRecordAddrs R) v st"
  by (auto simp: dnsaddr_record_def rewrite_record_def treated_def with_addrs_def Let_def case_prod_beta
      split: option.splits Record.splits)

lemma dnsaddr_peer_eq: "dnsaddr_peer R v st = rewrite_peer (resolveRecordAddrs R) v st"
  by (auto simp: dnsaddr_peer_def rewrite_peer_def treated_peer_def Let_def case_prod_beta split: option.splits)

text \<open>
  The contract of an address rewriter: what it returns for a peer's addresses is related to them by
  \<open>rel\<close>, and its state moves by the transitive \<open>moves\<close>.
\<close>

definition record_rel ::
  "(peer_id option \<Rightarrow> 'ma list \<Rightarrow> 'ma list \<Rightarrow> bool) \<Rightarrow> 'ma Record result \<Rightarrow> 'ma Record result \<Rightarrow> bool" where
  "record_rel rel v w \<longleftrightarrow> (case treated v of
     None \<Rightarrow> w = v
   | Some p \<Rightarrow> \<exists>as. w = with_addrs as v \<and> rel (ID p) (Addrs p) as)"

definition peer_rel ::
  "(peer_id option \<Rightarrow> 'ma list \<Rightarrow> 'ma list \<Rightarrow> bool) \<Rightarrow> 'ma PeerRecord result \<Rightarrow> 'ma PeerRecord result \<Rightarrow> bool" where
  "peer_rel rel v w \<longleftrightarrow> (case treated_peer v of
     None \<Rightarrow> w = v
   | Some p \<Rightarrow> \<exists>as. w = v\<lparr>Val := Some (p\<lparr>Addrs := as\<rparr>)\<rparr> \<and> rel (ID p) (Addrs p) as)"

locale addr_rewriter =
  fixes f :: "peer_id option \<Rightarrow> 'ma list \<Rightarrow> 's \<Rightarrow> 'ma list \<times> 's"
    and rel :: "peer_id option \<Rightarrow> 'ma list \<Rightarrow> 'ma list \<Rightarrow> bool"
    and moves :: "'s \<Rightarrow> 's \<Rightarrow> bool"
  assumes f_rel: "rel pid as (fst (f pid as s))"
    and f_moves: "moves s (snd (f pid as s))"
    and moves_refl: "moves s s"
    and moves_trans: "moves a b \<Longrightarrow> moves b c \<Longrightarrow> moves a c"
begin

lemma rewrite_record_step: "record_rel rel v (fst (rewrite_record f v s)) \<and> moves s (snd (rewrite_record f v s))"
  using f_rel f_moves moves_refl
  by (auto simp: rewrite_record_def record_rel_def case_prod_beta split: option.splits)

lemma rewrite_peer_step: "peer_rel rel v (fst (rewrite_peer f v s)) \<and> moves s (snd (rewrite_peer f v s))"
  using f_rel f_moves moves_refl
  by (auto simp: rewrite_peer_def peer_rel_def case_prod_beta split: option.splits)

lemma records_rel: "list_all2 (record_rel rel) vs (fst (map_state (rewrite_record f) vs s))"
  by (intro map_state_all2) (simp add: rewrite_record_step)

lemma peers_rel: "list_all2 (peer_rel rel) vs (fst (map_state (rewrite_peer f) vs s))"
  by (intro map_state_all2) (simp add: rewrite_peer_step)

lemma records_move: "moves s (snd (map_state (rewrite_record f) vs s))"
  by (rule map_state_rel) (auto intro: moves_refl moves_trans simp: rewrite_record_step)

lemma peers_move: "moves s (snd (map_state (rewrite_peer f) vs s))"
  by (rule map_state_rel) (auto intro: moves_refl moves_trans simp: rewrite_peer_step)

end

text \<open>What the private filter promises of a list, and what \<open>dnsAddrRouter\<close> promises of one.\<close>

definition sanitized :: "'ma malib \<Rightarrow> 'ma list \<Rightarrow> 'ma list \<Rightarrow> bool" where
  "sanitized M as bs \<longleftrightarrow> addrs_ordered M bs \<and> mset bs = {#a \<in># mset as. \<not> manet_IsPrivateAddr M a#}"

text \<open>Whether the router resolves a record with this ID and these addresses.\<close>

definition resolves :: "('c, 'ma) dnsAddrRouter \<Rightarrow> peer_id option \<Rightarrow> 'ma list \<Rightarrow> bool" where
  "resolves R pid as \<longleftrightarrow> pid \<noteq> None \<and> containsDNSAddr (dr_ma R) as \<and> mode_action (dr_mode R) (dr_filter R) \<noteq> dnsAddrSkip"

definition rewritten :: "('c, 'ma) dnsAddrRouter \<Rightarrow> peer_id option \<Rightarrow> 'ma list \<Rightarrow> 'ma list \<Rightarrow> bool" where
  "rewritten R pid as bs \<longleftrightarrow> addrs_ordered (dr_ma R) bs \<and>
     (if resolves R pid as then list_all (\<lambda>b. \<not> manet_IsPrivateAddr (dr_ma R) b) bs else mset bs = mset as)"

interpretation sanitizer: addr_rewriter "\<lambda>_ as s. (filterPrivateMultiaddr M as, s)"
    "\<lambda>_. sanitized M" "(=) :: unit \<Rightarrow> unit \<Rightarrow> bool" for M :: "'ma malib"
  by unfold_locales (simp_all add: sanitized_def mset_filterPrivate)

lemma resolveRecordAddrs_cases:
  "resolveRecordAddrs R pid as st =
     (if resolves R pid as
      then let x = resolveAddrs (dr_env R) (dr_lru R) (dr_ma R) (the pid) as
                     (mode_action (dr_mode R) (dr_filter R) = dnsAddrAppend) st
           in (filterPrivateMultiaddr (dr_ma R) (fst x), snd x)
      else (sortedAddrs (dr_ma R) as, st))"
  by (auto simp: resolveRecordAddrs_def resolves_def Let_def case_prod_beta split: option.split)

interpretation dnsaddr: addr_rewriter "resolveRecordAddrs R" "rewritten R" frugal
  for R :: "('c, 'ma) dnsAddrRouter"
proof
  show "rewritten R pid as (fst (resolveRecordAddrs R pid as s))" for pid as s
    by (auto simp: rewritten_def resolveRecordAddrs_cases Let_def list_all_iff)
  show "frugal s (snd (resolveRecordAddrs R pid as s))" for s pid as
    by (simp add: resolveRecordAddrs_cases Let_def frugal_resolveAddrs frugal_refl)
qed (rule frugal_refl, rule frugal_trans)

section \<open>Properties\<close>

text \<open>
  What a client sees of a provider response after sanitising: an error stays the same error;
  otherwise every result of the wrapped router comes through, in order, with only its address list
  changed, and that list holds exactly the non-private addresses, ordered. Errors, unknown schemas and
  records whose type does not match their schema pass untouched.
\<close>

theorem sanitizeRouter_FindProviders_spec:
  "case inner of
     Inl err \<Rightarrow> sanitizeRouter_FindProviders M inner = Inl err
   | Inr it \<Rightarrow> \<exists>out. sanitizeRouter_FindProviders M inner = Inr out \<and>
       list_all2 (\<lambda>v w. case treated v of
           None \<Rightarrow> w = v
         | Some p \<Rightarrow> \<exists>as. w = with_addrs as v \<and> addrs_ordered M as \<and>
             mset as = {#a \<in># mset (Addrs p). \<not> manet_IsPrivateAddr M a#}) it out"
proof (cases inner)
  case (Inr it)
  have "list_all2 (record_rel (\<lambda>_. sanitized M)) it (map (sanitize_record M) it)"
    unfolding list_all2_conv_all_nth by (simp add: sanitize_record_eq sanitizer.rewrite_record_step)
  with Inr show ?thesis
    unfolding record_rel_def sanitized_def by (simp add: sanitizeRouter_FindProviders_def)
qed (simp add: sanitizeRouter_FindProviders_def)

text \<open>
  C15. One response of \<open>dnsAddrRouter\<close>, of providers, peers or closest peers alike, sends at most 16
  DNS queries however many records it holds, and leaves the count of remaining lookups between 0 and 16.
\<close>

theorem dnsAddrRouter_response_bounded:
  "let st1 = snd (dnsAddrRouter_FindProviders R (Inr recs) st);
       st2 = snd (dnsAddrRouter_FindPeers R (Inr peers) st);
       st3 = snd (dnsAddrRouter_GetClosestPeers R (Inr peers) st)
   in length (ds_queries st1) \<le> length (ds_queries st) + 16 \<and>
      length (ds_queries st2) \<le> length (ds_queries st) + 16 \<and>
      length (ds_queries st3) \<le> length (ds_queries st) + 16 \<and>
      lookups (ds_budget st1) \<in> {0..16} \<and> lookups (ds_budget st2) \<in> {0..16} \<and> lookups (ds_budget st3) \<in> {0..16}"
proof -
  let ?st = "st\<lparr>ds_budget := newDNSAddrBudget\<rparr>"
  have bound: "length (ds_queries st') \<le> length (ds_queries st) + 16 \<and> lookups (ds_budget st') \<in> {0..16}"
    if "frugal ?st st'" for st' :: "('a, 'b) dns_state"
    using that by (simp add: frugal_def paid_def newDNSAddrBudget_def MaxDNSAddrLookupsPerRequest_def)
  have "dnsaddr_record R = rewrite_record (resolveRecordAddrs R)" "dnsaddr_peer R = rewrite_peer (resolveRecordAddrs R)"
    by (simp_all add: fun_eq_iff dnsaddr_record_eq dnsaddr_peer_eq)
  then show ?thesis
    using bound[OF dnsaddr.records_move[of ?st R recs]] bound[OF dnsaddr.peers_move[of ?st R peers]]
    by (simp add: dnsAddrRouter_FindProviders_def dnsAddrRouter_FindPeers_def dnsAddrRouter_GetClosestPeers_def
        resolvePeerRecords_def case_prod_beta)
qed

text \<open>
  C25. What \<open>dnsAddrRouter\<close> does to a provider response: the results come through in order, only
  address lists change, and every record leaves with its addresses ordered. A record the router
  resolves never shows a private address, not even one that a public \<open>/dnsaddr\<close> name resolved to; a
  record it does not resolve keeps exactly its addresses.
\<close>

theorem dnsAddrRouter_FindProviders_spec:
  "\<exists>out. fst (dnsAddrRouter_FindProviders R (Inr it) st) = Inr out \<and>
     list_all2 (\<lambda>v w. case treated v of
         None \<Rightarrow> w = v
       | Some p \<Rightarrow> \<exists>as. w = with_addrs as v \<and> addrs_ordered (dr_ma R) as \<and>
           (if ID p \<noteq> None \<and> containsDNSAddr (dr_ma R) (Addrs p) \<and> mode_action (dr_mode R) (dr_filter R) \<noteq> dnsAddrSkip
            then list_all (\<lambda>a. \<not> manet_IsPrivateAddr (dr_ma R) a) as
            else mset as = mset (Addrs p))) it out"
proof -
  have "dnsaddr_record R = rewrite_record (resolveRecordAddrs R)"
    by (simp add: fun_eq_iff dnsaddr_record_eq)
  moreover have "list_all2 (record_rel (rewritten R)) it
      (fst (map_state (rewrite_record (resolveRecordAddrs R)) it (st\<lparr>ds_budget := newDNSAddrBudget\<rparr>)))"
    by (rule dnsaddr.records_rel)
  ultimately show ?thesis
    unfolding record_rel_def rewritten_def resolves_def
    by (simp add: dnsAddrRouter_FindProviders_def case_prod_beta)
qed

end
