(* ===== verification/ManyIter.thy ===== *)
theory ManyIter
  imports Prelude "HOL-Library.Sublist"
begin

text \<open>
  \<open>manyIter\<close> (server_routers.go), the iterator that merges the results of several routers: a worker
  goroutine per source that sends over an unbuffered channel, a goroutine that closes the channel when
  all have finished, and the caller of \<open>Next\<close> and \<open>Close\<close>. The steps of all of them are the actions of
  one step function, and every order of them is a run.
\<close>

section \<open>The machine\<close>

text \<open>
  A worker about to ask its source for the next result, blocked in the \<open>select\<close> with one to send, or
  finished.
\<close>

datatype 'a worker = WRun "'a list" | WSend 'a "'a list" | WDone

text \<open>
  \<open>mi_ctx\<close> is whether the iterator's context is done, by its own \<open>cancel\<close> or its parent's;
  \<open>mi_draining\<close> that \<open>Close\<close> is in its \<open>range\<close> loop; \<open>mi_out\<close> records what \<open>Next\<close> received, from which
  source, in order; \<open>mi_closed_its\<close> whether the sources have been closed.
\<close>

record 'a manyIter =
  mi_workers :: "'a worker list"
  mi_ch_closed :: bool
  mi_ctx :: bool
  mi_done :: bool
  mi_val :: "'a option"
  mi_draining :: bool
  mi_closed_its :: bool
  mi_out :: "(nat \<times> 'a) list"

definition newManyIter :: "'a list list \<Rightarrow> 'a manyIter" where
  "newManyIter its = \<lparr>mi_workers = map WRun its, mi_ch_closed = False, mi_ctx = False, mi_done = False,
     mi_val = None, mi_draining = False, mi_closed_its = False, mi_out = []\<rparr>"

datatype many_action =
    WorkerNext nat        \<comment> \<open>\<open>it.Next()\<close> returns in worker \<open>i\<close>\<close>
  | WorkerCtxDone nat     \<comment> \<open>worker \<open>i\<close> takes the \<open>ctx.Done()\<close> arm\<close>
  | CloseChannel          \<comment> \<open>\<open>wg.Wait()\<close> returns and the channel is closed\<close>
  | ParentDone            \<comment> \<open>the request's context ends\<close>
  | NextRecv nat          \<comment> \<open>\<open>Next\<close> receives from worker \<open>i\<close>\<close>
  | NextClosed            \<comment> \<open>\<open>Next\<close> finds the channel closed\<close>
  | NextCtxDone           \<comment> \<open>\<open>Next\<close> takes the \<open>ctx.Done()\<close> arm\<close>
  | CloseCall             \<comment> \<open>\<open>Close\<close> is called\<close>
  | DrainRecv nat         \<comment> \<open>\<open>Close\<close> discards a value of worker \<open>i\<close>\<close>
  | DrainEnd              \<comment> \<open>\<open>Close\<close> finds the channel closed and closes the sources\<close>

definition set_worker :: "nat \<Rightarrow> 'a worker \<Rightarrow> 'a manyIter \<Rightarrow> 'a manyIter" where
  "set_worker i w s = s\<lparr>mi_workers := (mi_workers s)[i := w]\<rparr>"

text \<open>
  A call of \<open>Next\<close> on a finished iterator, and one of \<open>Close\<close> on it, return at once and change
  nothing; \<open>Next\<close> and \<open>Close\<close> are called by one goroutine, so no \<open>Next\<close> runs while \<open>Close\<close> drains.
\<close>

definition many_step :: "'a manyIter \<Rightarrow> many_action \<Rightarrow> 'a manyIter option" where
  "many_step s a =
     (case a of
        WorkerNext i \<Rightarrow>
          if i < length (mi_workers s) then
            (case mi_workers s ! i of
               WRun (x # xs) \<Rightarrow> Some (set_worker i (WSend x xs) s)
             | WRun [] \<Rightarrow> Some (set_worker i WDone s)
             | _ \<Rightarrow> None)
          else None
      | WorkerCtxDone i \<Rightarrow>
          if i < length (mi_workers s) \<and> mi_ctx s then
            (case mi_workers s ! i of WSend x xs \<Rightarrow> Some (set_worker i WDone s) | _ \<Rightarrow> None)
          else None
      | CloseChannel \<Rightarrow>
          if list_all (\<lambda>w. w = WDone) (mi_workers s) \<and> \<not> mi_ch_closed s
          then Some (s\<lparr>mi_ch_closed := True\<rparr>) else None
      | ParentDone \<Rightarrow> Some (s\<lparr>mi_ctx := True\<rparr>)
      | NextRecv i \<Rightarrow>
          if \<not> mi_done s \<and> i < length (mi_workers s) then
            (case mi_workers s ! i of
               WSend x xs \<Rightarrow> Some (set_worker i (WRun xs) (s\<lparr>mi_val := Some x, mi_out := mi_out s @ [(i, x)]\<rparr>))
             | _ \<Rightarrow> None)
          else None
      | NextClosed \<Rightarrow> if \<not> mi_done s \<and> mi_ch_closed s then Some (s\<lparr>mi_done := True\<rparr>) else None
      | NextCtxDone \<Rightarrow> if \<not> mi_done s \<and> mi_ctx s then Some (s\<lparr>mi_done := True\<rparr>) else None
      | CloseCall \<Rightarrow>
          if mi_draining s then None
          else if mi_done s then Some s
          else Some (s\<lparr>mi_ctx := True, mi_done := True, mi_draining := True\<rparr>)
      | DrainRecv i \<Rightarrow>
          if mi_draining s \<and> i < length (mi_workers s) then
            (case mi_workers s ! i of WSend x xs \<Rightarrow> Some (set_worker i (WRun xs) s) | _ \<Rightarrow> None)
          else None
      | DrainEnd \<Rightarrow>
          if mi_draining s \<and> mi_ch_closed s
          then Some (s\<lparr>mi_draining := False, mi_closed_its := True\<rparr>) else None)"

text \<open>The error \<open>Close\<close> returns, from what closing each source returned.\<close>

fun close_all :: "go_err option list \<Rightarrow> go_err option \<Rightarrow> go_err option" where
  "close_all [] err = err"
| "close_all (e # es) err = close_all es (errors_Join [err, e])"

section \<open>The invariant\<close>

text \<open>What a worker still has for its source, and what \<open>Next\<close> has received from one.\<close>

fun pending :: "'a worker \<Rightarrow> 'a list" where
  "pending (WRun xs) = xs" | "pending (WSend x xs) = x # xs" | "pending WDone = []"

definition received :: "nat \<Rightarrow> 'a manyIter \<Rightarrow> 'a list" where
  "received i s = map snd (filter (\<lambda>p. fst p = i) (mi_out s))"

definition source_inv :: "'a manyIter \<Rightarrow> nat \<Rightarrow> 'a list \<Rightarrow> bool" where
  "source_inv s i src \<longleftrightarrow> prefix (received i s) src \<and>
     (\<not> mi_done s \<longrightarrow> prefix (received i s @ pending (mi_workers s ! i)) src) \<and>
     (\<not> mi_ctx s \<longrightarrow> received i s @ pending (mi_workers s ! i) = src)"

definition many_inv :: "'a list list \<Rightarrow> 'a manyIter \<Rightarrow> bool" where
  "many_inv its s \<longleftrightarrow>
     length (mi_workers s) = length its \<and>
     (mi_ch_closed s \<longrightarrow> list_all (\<lambda>w. w = WDone) (mi_workers s)) \<and>
     (mi_draining s \<longrightarrow> mi_done s \<and> mi_ctx s) \<and>
     (mi_done s \<longrightarrow> \<not> mi_ctx s \<longrightarrow> mi_ch_closed s) \<and>
     list_all (\<lambda>p. fst p < length its) (mi_out s) \<and>
     (\<forall>i < length its. source_inv s i (its ! i))"

lemma received_update [simp]:
  "received i (set_worker j w s) = received i s"
  "received i (s\<lparr>mi_out := mi_out s @ [(j, x)]\<rparr>) = received i s @ (if i = j then [x] else [])"
  by (simp_all add: received_def set_worker_def)

lemma set_worker_fields [simp]:
  "mi_workers (set_worker i w s) = (mi_workers s)[i := w]" "mi_ch_closed (set_worker i w s) = mi_ch_closed s"
  "mi_ctx (set_worker i w s) = mi_ctx s" "mi_done (set_worker i w s) = mi_done s"
  "mi_draining (set_worker i w s) = mi_draining s" "mi_out (set_worker i w s) = mi_out s"
  "mi_closed_its (set_worker i w s) = mi_closed_its s"
  by (simp_all add: set_worker_def)

lemma not_all_done: "i < length ws \<Longrightarrow> ws ! i \<noteq> WDone \<Longrightarrow> \<not> list_all (\<lambda>w. w = WDone) ws"
  by (auto simp: list_all_length)

text \<open>A step of worker \<open>i\<close> that keeps, or under a finished context drops, what it has pending.\<close>

lemma many_inv_worker:
  assumes inv: "many_inv its s" and i: "i < length (mi_workers s)" "mi_workers s ! i \<noteq> WDone"
    and pend: "pending w = pending (mi_workers s ! i) \<or>
      mi_ctx s \<and> (mi_done s \<or> pending w = [])"
  shows "many_inv its (set_worker i w s)"
proof -
  have open_: "\<not> mi_ch_closed s" using inv not_all_done[OF i] by (auto simp: many_inv_def)
  have "source_inv (set_worker i w s) j (its ! j)" if "j < length its" for j
  proof -
    have "source_inv s j (its ! j)" using inv that by (simp add: many_inv_def)
    then show ?thesis
      using pend i by (cases "j = i") (auto simp: source_inv_def)
  qed
  with inv open_ show ?thesis by (simp add: many_inv_def)
qed

lemma prefix_snoc: "prefix (r @ x # xs) src \<Longrightarrow> prefix (r @ [x]) src"
  by (rule append_prefixD[of "r @ [x]" xs]) simp

lemma many_inv_recv:
  assumes inv: "many_inv its s" and i: "i < length (mi_workers s)" "mi_workers s ! i = WSend x xs"
    and s': "s' = set_worker i (WRun xs) (s\<lparr>mi_val := Some x, mi_out := mi_out s @ [(i, x)]\<rparr>)" "\<not> mi_done s"
  shows "many_inv its s'"
proof -
  have open_: "\<not> mi_ch_closed s" using inv not_all_done[OF i(1)] i(2) by (auto simp: many_inv_def)
  have "source_inv s' j (its ! j)" if "j < length its" for j
  proof -
    have "source_inv s j (its ! j)" using inv that by (simp add: many_inv_def)
    moreover have "received j s' = received j s @ (if j = i then [x] else [])"
      by (auto simp: s' received_def)
    ultimately show ?thesis
      using i s'(2) by (cases "j = i") (auto simp: source_inv_def s'(1) intro: prefix_snoc)
  qed
  with inv open_ s'(2) i(1) show ?thesis by (simp add: many_inv_def s'(1))
qed

lemma many_inv_flags:
  assumes "many_inv its s" and "mi_workers s' = mi_workers s" "mi_out s' = mi_out s"
    and "mi_ctx s \<longrightarrow> mi_ctx s'" "mi_done s \<longrightarrow> mi_done s'"
    and "mi_ch_closed s' \<longrightarrow> mi_ch_closed s \<or> list_all (\<lambda>w. w = WDone) (mi_workers s)"
    and "mi_draining s' \<longrightarrow> mi_done s' \<and> mi_ctx s'" "mi_done s' \<longrightarrow> \<not> mi_ctx s' \<longrightarrow> mi_ch_closed s'"
  shows "many_inv its s'"
  using assms by (auto simp: many_inv_def source_inv_def received_def)

lemma many_step_inv:
  assumes inv: "many_inv its s" and step: "many_step s a = Some s'"
  shows "many_inv its s'"
proof -
  have flags: "mi_draining s \<longrightarrow> mi_done s \<and> mi_ctx s" "mi_done s \<longrightarrow> \<not> mi_ctx s \<longrightarrow> mi_ch_closed s"
    using inv by (simp_all add: many_inv_def)
  show ?thesis
proof (cases a)
  case (WorkerNext i)
  with step inv show ?thesis
    by (auto simp: many_step_def split: if_splits worker.splits list.splits intro!: many_inv_worker[OF inv])
next
  case (WorkerCtxDone i)
  with step inv show ?thesis
    by (auto simp: many_step_def split: if_splits worker.splits intro!: many_inv_worker[OF inv])
next
  case (NextRecv i)
  with step inv show ?thesis
    by (auto simp: many_step_def split: if_splits worker.splits intro!: many_inv_recv[OF inv])
next
  case (DrainRecv i)
  moreover have "mi_draining s \<Longrightarrow> mi_ctx s \<and> mi_done s" using inv by (simp add: many_inv_def)
  ultimately show ?thesis
    using step inv by (auto simp: many_step_def split: if_splits worker.splits intro!: many_inv_worker[OF inv])
qed (use step flags in \<open>auto simp: many_step_def split: if_splits intro!: many_inv_flags[OF inv]\<close>)
qed

interpretation merging: step_invariant many_step "many_inv its" for its :: "'a list list"
  by unfold_locales (rule many_step_inv)

lemma many_inv_init: "many_inv its (newManyIter its)"
  by (simp add: many_inv_def newManyIter_def source_inv_def received_def)

lemma many_inv_reachable: "run_steps many_step (newManyIter its) as = Some s \<Longrightarrow> many_inv its s"
  by (rule merging.inv_run[OF many_inv_init])

text \<open>Once \<open>Next\<close> has reported the end, nothing closes the sources.\<close>

lemma finished_stays:
  assumes "mi_done s" "\<not> mi_draining s" and "many_step s a = Some s'"
  shows "mi_done s' \<and> \<not> mi_draining s' \<and> mi_closed_its s' = mi_closed_its s"
  using assms by (auto simp: many_step_def split: many_action.splits if_splits worker.splits list.splits)

interpretation finished: step_invariant many_step
    "\<lambda>s. mi_done s \<and> \<not> mi_draining s \<and> mi_closed_its s = c" for c
  by unfold_locales (use finished_stays in blast)

section \<open>Progress\<close>

text \<open>The steps the workers still have to make before all are done.\<close>

fun worker_work :: "'a worker \<Rightarrow> nat" where
  "worker_work (WRun xs) = 2 * length xs + 1"
| "worker_work (WSend x xs) = 2 * length xs + 2"
| "worker_work WDone = 0"

definition many_work :: "'a manyIter \<Rightarrow> nat" where
  "many_work s = sum_list (map worker_work (mi_workers s))"

lemma many_work_set [intro]:
  "i < length (mi_workers s) \<Longrightarrow> worker_work w < worker_work (mi_workers s ! i) \<Longrightarrow>
     many_work (set_worker i w s) < many_work s"
  by (simp add: many_work_def sum_list_update_less)

lemma not_all_doneE:
  assumes "\<not> list_all (\<lambda>w. w = WDone) (mi_workers s)"
  obtains i where "i < length (mi_workers s)" "mi_workers s ! i \<noteq> WDone"
  using assms by (auto simp: list_all_length)

lemma drain_finishes:
  assumes "mi_draining s"
  shows "\<exists>as s'. run_steps many_step s as = Some s' \<and> \<not> mi_draining s' \<and> mi_closed_its s'"
  using assms
proof (induction "many_work s" arbitrary: s rule: less_induct)
  case less
  show ?case
  proof (cases "list_all (\<lambda>w. w = WDone) (mi_workers s)")
    case True
    let ?fin = "s\<lparr>mi_ch_closed := True, mi_draining := False, mi_closed_its := True\<rparr>"
    have "run_steps many_step s (if mi_ch_closed s then [DrainEnd] else [CloseChannel, DrainEnd]) = Some ?fin"
      using True less.prems by (simp add: many_step_def)
    then show ?thesis by fastforce
  next
    case False
    then obtain i where i: "i < length (mi_workers s)" "mi_workers s ! i \<noteq> WDone" by (rule not_all_doneE)
    obtain a w where a: "many_step s a = Some (set_worker i w s)" "worker_work w < worker_work (mi_workers s ! i)"
    proof (cases "mi_workers s ! i")
      case (WRun xs)
      with i that[of "WorkerNext i" "case xs of [] \<Rightarrow> WDone | x # ys \<Rightarrow> WSend x ys"] show ?thesis
        by (cases xs) (simp_all add: many_step_def)
    next
      case (WSend x xs)
      with i less.prems that[of "DrainRecv i" "WRun xs"] show ?thesis by (simp add: many_step_def)
    qed (use i in simp)
    have "many_work (set_worker i w s) < many_work s" using i a(2) by blast
    moreover have "mi_draining (set_worker i w s)" using less.prems by simp
    ultimately obtain as s' where "run_steps many_step (set_worker i w s) as = Some s'"
      "\<not> mi_draining s'" "mi_closed_its s'" using less.hyps by blast
    with a(1) show ?thesis by (intro exI[of _ "a # as"]) simp
  qed
qed

lemma next_returns:
  assumes "\<not> mi_done s"
  shows "\<exists>as a s' s''. run_steps many_step s as = Some s' \<and> many_step s' a = Some s'' \<and>
    (a = NextClosed \<or> (\<exists>i. a = NextRecv i)) \<and> mi_out s' = mi_out s"
  using assms
proof (induction "many_work s" arbitrary: s rule: less_induct)
  case less
  show ?case
  proof (cases "list_all (\<lambda>w. w = WDone) (mi_workers s)")
    case True
    let ?s = "s\<lparr>mi_ch_closed := True\<rparr>"
    have "run_steps many_step s (if mi_ch_closed s then [] else [CloseChannel]) = Some ?s"
      using True by (auto simp: many_step_def)
    moreover have "many_step ?s NextClosed = Some (?s\<lparr>mi_done := True\<rparr>)"
      using less.prems by (simp add: many_step_def)
    ultimately show ?thesis by fastforce
  next
    case False
    then obtain i where i: "i < length (mi_workers s)" "mi_workers s ! i \<noteq> WDone" by (rule not_all_doneE)
    show ?thesis
    proof (cases "mi_workers s ! i")
      case (WSend x xs)
      with i less.prems show ?thesis
        by (intro exI[of _ "[]"] exI[of _ "NextRecv i"]) (simp add: many_step_def)
    next
      case (WRun xs)
      let ?w = "case xs of [] \<Rightarrow> WDone | x # ys \<Rightarrow> WSend x ys"
      have step: "many_step s (WorkerNext i) = Some (set_worker i ?w s)"
        using WRun i by (cases xs) (simp_all add: many_step_def)
      have "worker_work ?w < worker_work (mi_workers s ! i)" using WRun by (cases xs) simp_all
      then have "many_work (set_worker i ?w s) < many_work s" using i by blast
      moreover have "\<not> mi_done (set_worker i ?w s)" using less.prems by simp
      ultimately obtain as a s' s'' where "run_steps many_step (set_worker i ?w s) as = Some s'"
        "many_step s' a = Some s''" "a = NextClosed \<or> (\<exists>i. a = NextRecv i)" "mi_out s' = mi_out s"
        using less.hyps by (metis set_worker_fields(6))
      with step show ?thesis by (intro exI[of _ "WorkerNext i # as"]) auto
    qed (use i in simp)
  qed
qed

text \<open>Reading to the end of every source.\<close>

lemma many_drains:
  assumes "\<not> mi_done s" "\<not> mi_ctx s" "mi_ch_closed s \<longrightarrow> list_all (\<lambda>w. w = WDone) (mi_workers s)"
  shows "\<exists>as s'. run_steps many_step s as = Some s' \<and> mi_done s' \<and> \<not> mi_ctx s'"
  using assms
proof (induction "many_work s" arbitrary: s rule: less_induct)
  case less
  show ?case
  proof (cases "list_all (\<lambda>w. w = WDone) (mi_workers s)")
    case True
    let ?s = "s\<lparr>mi_ch_closed := True, mi_done := True\<rparr>"
    have "run_steps many_step s (if mi_ch_closed s then [NextClosed] else [CloseChannel, NextClosed]) = Some ?s"
      using True less.prems by (simp add: many_step_def)
    then show ?thesis using less.prems by fastforce
  next
    case False
    then obtain i where i: "i < length (mi_workers s)" "mi_workers s ! i \<noteq> WDone" by (rule not_all_doneE)
    obtain a s1 where a: "many_step s a = Some s1" "many_work s1 < many_work s" "\<not> mi_done s1" "\<not> mi_ctx s1"
      "mi_ch_closed s1 = mi_ch_closed s"
    proof (cases "mi_workers s ! i")
      case (WRun xs)
      let ?w = "case xs of [] \<Rightarrow> WDone | x # ys \<Rightarrow> WSend x ys"
      have "worker_work ?w < worker_work (mi_workers s ! i)" using WRun by (cases xs) simp_all
      then have "many_work (set_worker i ?w s) < many_work s" using i by blast
      with WRun i less.prems that[of "WorkerNext i" "set_worker i ?w s"] show ?thesis by (cases xs) (simp_all add: many_step_def)
    next
      case (WSend x xs)
      let ?s = "s\<lparr>mi_val := Some x, mi_out := mi_out s @ [(i, x)]\<rparr>"
      have "many_work (set_worker i (WRun xs) ?s) < many_work ?s" using i WSend by (intro many_work_set) simp_all
      then have "many_work (set_worker i (WRun xs) ?s) < many_work s" by (simp add: many_work_def)
      with WSend i less.prems that[of "NextRecv i" "set_worker i (WRun xs) ?s"] show ?thesis by (simp add: many_step_def)
    qed (use i in simp)
    from less.hyps[OF a(2,3,4)] False less.prems(3) a(5) obtain as s' where
      "run_steps many_step s1 as = Some s'" "mi_done s'" "\<not> mi_ctx s'" by auto
    with a(1) show ?thesis by (intro exI[of _ "a # as"]) simp
  qed
qed

text \<open>
  Every step but the end of the request's context and a call of \<open>Close\<close> uses up some of what is left to
  do, and those two add nothing to it.
\<close>

definition steps_left :: "'a manyIter \<Rightarrow> nat" where
  "steps_left s = many_work s + (if mi_ch_closed s then 0 else 1) + (if mi_done s then 0 else 2) +
     (if mi_draining s then 1 else 0)"

definition outside :: "many_action \<Rightarrow> bool" where
  "outside a \<longleftrightarrow> a = ParentDone \<or> a = CloseCall"

lemma steps_left_worker:
  "i < length (mi_workers s) \<Longrightarrow> worker_work w < worker_work (mi_workers s ! i) \<Longrightarrow>
     steps_left (set_worker i w s) < steps_left s"
  using many_work_set[of i s w] by (simp add: steps_left_def)

lemma steps_left_recv:
  assumes "i < length (mi_workers s)" "worker_work w < worker_work (mi_workers s ! i)"
  shows "steps_left (set_worker i w (s\<lparr>mi_val := v, mi_out := out\<rparr>)) < steps_left s"
  using sum_list_update_less[OF assms] by (simp add: steps_left_def many_work_def)

lemma many_step_left:
  assumes "many_step s a = Some s'"
  shows "steps_left s' + (if outside a then 0 else 1) \<le> steps_left s"
proof (cases "\<exists>i. a = WorkerNext i \<or> a = WorkerCtxDone i \<or> a = DrainRecv i \<or> a = NextRecv i")
  case True
  then have "\<not> outside a" by (auto simp: outside_def)
  moreover have "steps_left s' < steps_left s"
    using True assms
    by (auto simp: many_step_def split: if_splits worker.splits list.splits intro!: steps_left_worker steps_left_recv)
  ultimately show ?thesis by simp
next
  case False
  with assms show ?thesis
    by (cases a) (auto simp: many_step_def outside_def steps_left_def many_work_def split: if_splits)
qed

lemma many_run_left:
  "run_steps many_step s as = Some s' \<Longrightarrow> steps_left s' + length (filter (\<lambda>a. \<not> outside a) as) \<le> steps_left s"
proof (induction as arbitrary: s)
  case (Cons a as)
  then obtain s1 where "many_step s a = Some s1" "run_steps many_step s1 as = Some s'" by (auto split: option.splits)
  with Cons.IH[of s1] many_step_left[of s a s1] show ?case by (simp split: if_splits)
qed simp

text \<open>With the context done the workers need nobody to receive from them.\<close>

definition goroutine_action :: "many_action \<Rightarrow> bool" where
  "goroutine_action a \<longleftrightarrow> a = CloseChannel \<or> (\<exists>i. a = WorkerNext i \<or> a = WorkerCtxDone i)"

lemma workers_finish:
  assumes "mi_ctx s" "mi_ch_closed s \<longrightarrow> list_all (\<lambda>w. w = WDone) (mi_workers s)"
  shows "\<exists>as s'. list_all goroutine_action as \<and> run_steps many_step s as = Some s' \<and>
    list_all (\<lambda>w. w = WDone) (mi_workers s') \<and> mi_ch_closed s'"
  using assms
proof (induction "many_work s" arbitrary: s rule: less_induct)
  case less
  show ?case
  proof (cases "list_all (\<lambda>w. w = WDone) (mi_workers s)")
    case True
    let ?as = "if mi_ch_closed s then [] else [CloseChannel]"
    have "run_steps many_step s ?as = Some (s\<lparr>mi_ch_closed := True\<rparr>)" using True by (auto simp: many_step_def)
    moreover have "list_all goroutine_action ?as" by (simp add: goroutine_action_def)
    ultimately show ?thesis using True by fastforce
  next
    case False
    then obtain i where i: "i < length (mi_workers s)" "mi_workers s ! i \<noteq> WDone" by (rule not_all_doneE)
    obtain a w where a: "many_step s a = Some (set_worker i w s)" "worker_work w < worker_work (mi_workers s ! i)"
      "goroutine_action a"
    proof (cases "mi_workers s ! i")
      case (WRun xs)
      with i that[of "WorkerNext i" "case xs of [] \<Rightarrow> WDone | x # ys \<Rightarrow> WSend x ys"] show ?thesis
        by (cases xs) (simp_all add: many_step_def goroutine_action_def)
    next
      case (WSend x xs)
      with i less.prems that[of "WorkerCtxDone i" WDone] show ?thesis by (simp add: many_step_def goroutine_action_def)
    qed (use i in simp)
    have "many_work (set_worker i w s) < many_work s" using i a(2) by blast
    moreover have "mi_ctx (set_worker i w s)" "\<not> mi_ch_closed (set_worker i w s)" using less.prems False by auto
    ultimately obtain as s' where "list_all goroutine_action as" "run_steps many_step (set_worker i w s) as = Some s'"
      "list_all (\<lambda>w. w = WDone) (mi_workers s')" "mi_ch_closed s'" using less.hyps by blast
    with a show ?thesis by (intro exI[of _ "a # as"]) simp
  qed
qed

lemma manyIter_received:
  assumes "run_steps many_step (newManyIter its) as = Some s" and "mi_done s" "\<not> mi_ctx s" and "i < length its"
  shows "received i s = its ! i"
proof -
  have inv: "many_inv its s" by (rule many_inv_reachable[OF assms(1)])
  then have "mi_workers s ! i = WDone" using assms(2-) by (auto simp: many_inv_def list_all_length)
  then show ?thesis using inv assms(2-) by (auto simp: many_inv_def source_inv_def)
qed

section \<open>Properties\<close>

text \<open>
  C10. Merging is exact. In every state any interleaving can reach, \<open>Next\<close> has yielded a prefix of each
  source, in that source's order, and nothing else; when it has reported the end and the context was
  never done, it has yielded every result of every source.
\<close>

theorem manyIter_merges:
  assumes "run_steps many_step (newManyIter its) as = Some s"
  shows "list_all (\<lambda>p. fst p < length its) (mi_out s) \<and>
    (\<forall>i. i < length its \<longrightarrow> prefix (received i s) (its ! i) \<and>
      (mi_done s \<and> \<not> mi_ctx s \<longrightarrow> received i s = its ! i))"
proof -
  have "many_inv its s" by (rule many_inv_reachable[OF assms])
  with manyIter_received[OF assms] show ?thesis by (auto simp: many_inv_def source_inv_def)
qed

definition sample_merge :: "many_action list" where
  "sample_merge = [WorkerNext 1, NextRecv 1, WorkerNext 0, NextRecv 0, WorkerNext 0, WorkerNext 1, CloseChannel, NextClosed]"

lemma sample_merge_run:
  "run_steps many_step (newManyIter [''a'', ''b'']) sample_merge =
     Some \<lparr>mi_workers = [WDone, WDone], mi_ch_closed = True, mi_ctx = False, mi_done = True, mi_val = Some CHR ''a'',
       mi_draining = False, mi_closed_its = False, mi_out = [(1, CHR ''b''), (0, CHR ''a'')]\<rparr>"
  by (simp add: sample_merge_def newManyIter_def many_step_def set_worker_def)

lemma manyIter_merges_witness:
  "received 0 (the (run_steps many_step (newManyIter [''a'', ''b'']) sample_merge)) = ''a''"
  using manyIter_merges[OF sample_merge_run] by (auto simp: sample_merge_run)

text \<open>
  C34. \<open>Next\<close> and \<open>Close\<close> return. As long as the iterator is not done some continuation of the run lets
  \<open>Next\<close> return, and one in which \<open>Close\<close> is draining lets it close every source; no worker is ever
  at a send once the channel is closed.
\<close>

theorem manyIter_never_stuck:
  assumes "run_steps many_step (newManyIter its) as = Some s"
  shows "(\<not> mi_done s \<longrightarrow> (\<exists>bs a s' s''. run_steps many_step s bs = Some s' \<and> many_step s' a = Some s'' \<and>
        (a = NextClosed \<or> (\<exists>i. a = NextRecv i)) \<and> mi_out s' = mi_out s)) \<and>
    (mi_draining s \<longrightarrow> (\<exists>bs s'. run_steps many_step s bs = Some s' \<and> \<not> mi_draining s' \<and> mi_closed_its s')) \<and>
    (mi_ch_closed s \<longrightarrow> list_all (\<lambda>w. w = WDone) (mi_workers s))"
  using next_returns[of s] drain_finishes[of s] many_inv_reachable[OF assms] unfolding many_inv_def by blast

lemma manyIter_never_stuck_witness:
  "list_all (\<lambda>w. w = WDone) (mi_workers (the (run_steps many_step (newManyIter [''a'', ''b'']) sample_merge)))"
  using manyIter_never_stuck[OF sample_merge_run] by (simp add: sample_merge_run)

text \<open>
  C19. No livelock and no leak. In every run over sources with \<open>n\<close> results in all, the goroutines, \<open>Next\<close> and
  \<open>Close\<close> make at most \<open>2 n\<close> steps plus one per source plus three, so every loop of theirs ends; and once the
  iterator is done or its context is, the workers and the closer of the channel can finish by
  themselves, with nobody receiving.
\<close>

theorem manyIter_terminates:
  assumes "run_steps many_step (newManyIter its) as = Some s"
  shows "length (filter (\<lambda>a. \<not> outside a) as) \<le> 2 * sum_list (map length its) + length its + 3 \<and>
    (mi_done s \<or> mi_ctx s \<longrightarrow> (\<exists>bs s'. list_all goroutine_action bs \<and> run_steps many_step s bs = Some s' \<and>
        list_all (\<lambda>w. w = WDone) (mi_workers s') \<and> mi_ch_closed s'))"
proof
  have "steps_left (newManyIter its) = 2 * sum_list (map length its) + length its + 3"
    by (induction its) (simp_all add: steps_left_def many_work_def newManyIter_def)
  with many_run_left[OF assms]
  show "length (filter (\<lambda>a. \<not> outside a) as) \<le> 2 * sum_list (map length its) + length its + 3" by simp
  have inv: "many_inv its s" by (rule many_inv_reachable[OF assms])
  then have closed: "mi_ch_closed s \<longrightarrow> list_all (\<lambda>w. w = WDone) (mi_workers s)"
    and don: "mi_done s \<longrightarrow> \<not> mi_ctx s \<longrightarrow> mi_ch_closed s" by (simp_all add: many_inv_def)
  show "mi_done s \<or> mi_ctx s \<longrightarrow> (\<exists>bs s'. list_all goroutine_action bs \<and> run_steps many_step s bs = Some s' \<and>
        list_all (\<lambda>w. w = WDone) (mi_workers s') \<and> mi_ch_closed s')"
  proof
    assume "mi_done s \<or> mi_ctx s"
    show "\<exists>bs s'. list_all goroutine_action bs \<and> run_steps many_step s bs = Some s' \<and>
        list_all (\<lambda>w. w = WDone) (mi_workers s') \<and> mi_ch_closed s'"
    proof (cases "mi_ctx s")
      case True
      then show ?thesis using closed by (rule workers_finish)
    next
      case False
      with \<open>mi_done s \<or> mi_ctx s\<close> don closed show ?thesis by (intro exI[of _ "[]"] exI[of _ s]) simp
    qed
  qed
qed

lemma manyIter_terminates_witness:
  "length (filter (\<lambda>a. \<not> outside a) sample_merge) \<le> 9"
  using manyIter_terminates[OF sample_merge_run] by simp

text \<open>
  C38. An iterator that has reported the end (or that stopped because the context was done) never
  closes its sources: \<open>Close\<close> returns at once, taking the iterator for closed, and no later step
  closes them.
\<close>

theorem exhausted_iter_keeps_sources_open:
  assumes "run_steps many_step (newManyIter its) as = Some s" and "mi_done s" "\<not> mi_draining s" "\<not> mi_closed_its s"
    and "run_steps many_step s bs = Some s'"
  shows "many_step s CloseCall = Some s \<and> \<not> mi_closed_its s'"
  using finished.inv_run[of s False bs s'] assms by (simp add: many_step_def)

lemma exhausted_iter_keeps_sources_open_witness:
  "\<not> mi_closed_its (the (run_steps many_step (newManyIter [''a'', ''b'']) (sample_merge @ [CloseCall])))"
proof -
  let ?s = "the (run_steps many_step (newManyIter [''a'', ''b'']) sample_merge)"
  have s: "run_steps many_step (newManyIter [''a'', ''b'']) sample_merge = Some ?s" by (simp add: sample_merge_run)
  have flags: "mi_done ?s" "\<not> mi_draining ?s" "\<not> mi_closed_its ?s" by (simp_all add: sample_merge_run)
  then have close: "run_steps many_step ?s [CloseCall] = Some ?s" by (simp add: many_step_def)
  have "run_steps many_step (newManyIter [''a'', ''b'']) (sample_merge @ [CloseCall]) = Some ?s"
    unfolding run_steps_append by (subst s) (simp only: option.case close)
  then show ?thesis
    using exhausted_iter_keeps_sources_open[OF s flags close] by simp
qed

end
