(* ===== verification/CachedRouter.thy ===== *)
theory CachedRouter
  imports AddrBook Rewriting "HOL-Library.Sublist"
begin

text \<open>
  \<open>cachedRouter\<close> and \<open>cacheFallbackIter\<close> (server_cached_router.go): answers from the peer address
  cache, the iterator that fills in missing addresses, and the background lookups it dispatches. The
  router's calls are functions on the shared state; the iterator, its lookups and the other requests
  that share the address book are the actions of one step function, in any order. A nil dereference
  is the outcome \<open>CPanic\<close>.
\<close>

section \<open>Reading the cache\<close>

definition addrCacheStateUnused :: string where "addrCacheStateUnused = ''unused''"
definition addrCacheStateHit :: string where "addrCacheStateHit = ''hit''"
definition addrCacheStateMiss :: string where "addrCacheStateMiss = ''miss''"
definition addrQueryOriginProviders :: string where "addrQueryOriginProviders = ''providers''"
definition addrQueryOriginPeers :: string where "addrQueryOriginPeers = ''peers''"
definition addrQueryOriginClosestPeers :: string where "addrQueryOriginClosestPeers = ''closest''"

text \<open>The address book and the \<open>peer_addr_lookups\<close> counter, as the list of its increments.\<close>

record ('ab, 'c) cr_state =
  cr_cab :: "('ab, 'c) cachedAddrBook"
  peerAddrLookups :: "(string \<times> string) list"

definition count_lookup :: "string \<Rightarrow> string \<Rightarrow> ('ab, 'c) cr_state \<Rightarrow> ('ab, 'c) cr_state" where
  "count_lookup state origin s = s\<lparr>peerAddrLookups := peerAddrLookups s @ [(state, origin)]\<rparr>"

definition withAddrsFromCache ::
  "('ab, 'c, 'ma, 'env) book_env \<Rightarrow> string \<Rightarrow> peer_id \<Rightarrow> 'ma list \<Rightarrow> ('ab, 'c) cr_state \<Rightarrow>
     'ma list \<times> ('ab, 'c) cr_state" where
  "withAddrsFromCache E origin pid addrs s =
     (if length addrs > 0 then (addrs, count_lookup addrCacheStateUnused origin s)
      else let cachedAddrs = GetCachedAddrs E (cr_cab s) pid
           in if length cachedAddrs > 0 then (cachedAddrs, count_lookup addrCacheStateHit origin s)
              else ([], count_lookup addrCacheStateMiss origin s))"

section \<open>FindPeers\<close>

text \<open>
  The three parts of \<open>FindPeers\<close>: the answer from the cache if there is one, what becomes of the
  wrapped router's answer \<open>inner\<close>, and the mapping of each of its results when it is read.
\<close>

definition FindPeers_cached ::
  "('ab, 'c, 'ma, 'env) book_env \<Rightarrow> peer_id \<Rightarrow> ('ab, 'c) cr_state \<Rightarrow>
     'ma PeerRecord result list option \<times> ('ab, 'c) cr_state" where
  "FindPeers_cached E pid s =
     (let (cachedAddrs, s1) = withAddrsFromCache E addrQueryOriginPeers pid [] s
      in if length cachedAddrs > 0
         then (Some [ok_result \<lparr>Schema = SchemaPeer, ID = Some pid, Addrs = cachedAddrs, Protocols = []\<rparr>], s1)
         else (None, s1))"

definition FindPeers_inner ::
  "('ab, 'c, 'ma, 'env) book_env \<Rightarrow> int \<Rightarrow> peer_id \<Rightarrow> go_err + 'ma PeerRecord result list \<Rightarrow>
     ('ab, 'c) cr_state \<Rightarrow> (go_err + 'ma PeerRecord result list) \<times> ('ab, 'c) cr_state" where
  "FindPeers_inner E now pid inner s =
     (case inner of
        Inl err \<Rightarrow>
          if err = ErrNotFound
          then (Inl ErrNotFound, s\<lparr>cr_cab := RecordFailedConnection E now pid (cr_cab s)\<rparr>)
          else (Inl err, s)
      | Inr it \<Rightarrow> (Inr it, s))"

definition FindPeers_enrich ::
  "('ab, 'c, 'ma, 'env) book_env \<Rightarrow> ('ab, 'c) cachedAddrBook \<Rightarrow> 'ma PeerRecord result \<Rightarrow> 'ma PeerRecord result" where
  "FindPeers_enrich E cab v =
     (case (Err v, Val v) of
        (None, Some r) \<Rightarrow>
          (case ID r of
             None \<Rightarrow> v
           | Some p \<Rightarrow> if length (Addrs r) = 0 then v\<lparr>Val := Some (r\<lparr>Addrs := GetCachedAddrs E cab p\<rparr>)\<rparr> else v)
      | _ \<Rightarrow> v)"

definition cachedRouter_FindPeers ::
  "('ab, 'c, 'ma, 'env) book_env \<Rightarrow> int \<Rightarrow> peer_id \<Rightarrow> go_err + 'ma PeerRecord result list \<Rightarrow>
     ('ab, 'c) cr_state \<Rightarrow> (go_err + 'ma PeerRecord result list) \<times> ('ab, 'c) cr_state" where
  "cachedRouter_FindPeers E now pid inner s =
     (let (hit, s1) = FindPeers_cached E pid s
      in case hit of
           Some it \<Rightarrow> (Inr it, s1)
         | None \<Rightarrow>
             let (res, s2) = FindPeers_inner E now pid inner s1
             in (case res of
                   Inl err \<Rightarrow> (Inl err, s2)
                 | Inr it \<Rightarrow> (Inr (map (FindPeers_enrich E (cr_cab s2)) it), s2)))"

section \<open>The fallback iterator\<close>

text \<open>A background lookup: where \<open>dispatchFindPeer\<close> is, from its start to the last deferred call.\<close>

datatype 'ma find_peer_call =
    LStart "'ma PeerRecord"                             \<comment> \<open>before \<open>FindPeers\<close>\<close>
  | LWalk "'ma PeerRecord"                              \<comment> \<open>the cache missed, the wrapped router is asked\<close>
  | LGot "'ma PeerRecord" bool "go_err + 'ma PeerRecord result list" \<comment> \<open>\<open>FindPeers\<close> returned; whether the results are enriched when read\<close>
  | LSend "'ma PeerRecord"                              \<comment> \<open>in \<open>sendResult\<close>\<close>
  | LRelease                                            \<comment> \<open>before \<open>releaseFindPeerSlot\<close>\<close>
  | LCount                                              \<comment> \<open>before the decrement of \<open>ongoingLookups\<close>\<close>
  | LGone

datatype consumer = CIdle | CLoop | CWait | CPanic

definition findPeersResultCap :: nat where "findPeersResultCap = 100"

text \<open>
  The iterator with the state it shares. \<open>fi_ret\<close> is what the last finished \<open>Next\<close> returned, \<open>fi_out\<close>
  the values it returned true for, in order; \<open>fi_others\<close> the FindPeer slots that other requests hold.
\<close>

record ('ab, 'c, 'ma) fallback_iter =
  fi_source :: "'ma Record result list"
  fi_current :: "'ma Record result"
  fi_findPeersResult :: "'ma PeerRecord list"
  fi_ongoingLookups :: int
  fi_ctx :: bool
  fi_state :: "('ab, 'c) cr_state"
  fi_calls :: "'ma find_peer_call list"
  fi_consumer :: consumer
  fi_ret :: "bool option"
  fi_out :: "'ma Record result list"
  fi_others :: nat

definition NewCacheFallbackIter ::
  "'ma Record result list \<Rightarrow> nat \<Rightarrow> ('ab, 'c) cr_state \<Rightarrow> ('ab, 'c, 'ma) fallback_iter" where
  "NewCacheFallbackIter src others s = \<lparr>fi_source = src, fi_current = \<lparr>Val = None, Err = None\<rparr>,
     fi_findPeersResult = [], fi_ongoingLookups = 0, fi_ctx = False, fi_state = s, fi_calls = [],
     fi_consumer = CIdle, fi_ret = None, fi_out = [], fi_others = others\<rparr>"

definition errNoValueAvailable :: go_err where "errNoValueAvailable = ErrText ''no value available''"

definition fallback_Val :: "('ab, 'c, 'ma) fallback_iter \<Rightarrow> 'ma Record result" where
  "fallback_Val s =
     (if Val (fi_current s) \<noteq> None \<or> Err (fi_current s) \<noteq> None then fi_current s
      else err_result errNoValueAvailable)"

definition return_true :: "'ma Record result \<Rightarrow> ('ab, 'c, 'ma) fallback_iter \<Rightarrow> ('ab, 'c, 'ma) fallback_iter" where
  "return_true v s = s\<lparr>fi_current := v, fi_consumer := CIdle, fi_ret := Some True, fi_out := fi_out s @ [v]\<rparr>"

definition return_false :: "('ab, 'c, 'ma) fallback_iter \<Rightarrow> ('ab, 'c, 'ma) fallback_iter" where
  "return_false s = s\<lparr>fi_consumer := CIdle, fi_ret := Some False\<rparr>"

text \<open>What \<open>Next\<close> does with a peer record without addresses in source or cache.\<close>

definition dispatch ::
  "('ab, 'c, 'ma, 'env) book_env \<Rightarrow> int \<Rightarrow> peer_id \<Rightarrow> 'ma PeerRecord \<Rightarrow> ('ab, 'c, 'ma) fallback_iter \<Rightarrow>
     ('ab, 'c, 'ma) fallback_iter" where
  "dispatch E now pid rec s =
     (let cs = fi_state s in
      if ShouldProbePeer E now (cr_cab cs) pid then
        let (ok, cab) = tryAcquireFindPeerSlot (cr_cab cs);
            s1 = s\<lparr>fi_state := cs\<lparr>cr_cab := cab\<rparr>\<rparr>
        in if ok then s1\<lparr>fi_ongoingLookups := fi_ongoingLookups s1 + 1, fi_calls := fi_calls s1 @ [LStart rec]\<rparr>
           else s1
      else s)"

text \<open>
  One pass of \<open>Next\<close> over a source value; the source has already moved on. The cache read, the write-back,
  the back-off gate, the slot and the counter are statements of one goroutine, between which other
  goroutines may run; they are one step here, as each of them locks what it uses and none of them waits.
  The counter is an \<open>atomic.Int32\<close>; it never exceeds the lookups holding a slot, so it does not wrap.
\<close>

definition next_source ::
  "('ab, 'c, 'ma, 'env) book_env \<Rightarrow> string \<Rightarrow> int \<Rightarrow> 'ma Record result \<Rightarrow> ('ab, 'c, 'ma) fallback_iter \<Rightarrow>
     ('ab, 'c, 'ma) fallback_iter" where
  "next_source E origin now v s =
     (case Val v of
        None \<Rightarrow> s\<lparr>fi_consumer := CPanic\<rparr>
      | Some (RPeer r) \<Rightarrow>
          if GetSchema (RPeer r) \<noteq> SchemaPeer then return_true v s
          else (case ID r of
             None \<Rightarrow> s\<lparr>fi_consumer := CPanic\<rparr>
           | Some pid \<Rightarrow>
               let hadSourceAddrs = length (Addrs r) > 0;
                   (as, cs) = withAddrsFromCache E origin pid (Addrs r) (fi_state s);
                   r1 = r\<lparr>Addrs := as\<rparr>;
                   s1 = s\<lparr>fi_state := cs\<rparr>
               in if length as > 0 then
                    return_true (ok_result (RPeer r1))
                      (if hadSourceAddrs \<and> origin = addrQueryOriginProviders
                       then s1\<lparr>fi_state := cs\<lparr>cr_cab := CacheAddrs E pid as (cr_cab cs)\<rparr>\<rparr> else s1)
                  else dispatch E now pid r1 s1)
      | Some _ \<Rightarrow> return_true v s)"

text \<open>
  \<open>iter.ReadAllResults\<close>: the values, or the first error.
\<close>

fun ReadAllResults :: "'a result list \<Rightarrow> go_err + 'a option list" where
  "ReadAllResults [] = Inr []"
| "ReadAllResults (v # vs) =
     (case Err v of
        Some e \<Rightarrow> Inl e
      | None \<Rightarrow> (case ReadAllResults vs of Inl e \<Rightarrow> Inl e | Inr rs \<Rightarrow> Inr (Val v # rs)))"

text \<open>What a lookup sends back, \<open>None\<close> where it dereferences a nil record.\<close>

definition lookup_answer ::
  "('ab, 'c, 'ma, 'env) book_env \<Rightarrow> ('ab, 'c) cachedAddrBook \<Rightarrow> 'ma PeerRecord \<Rightarrow> bool \<Rightarrow>
     go_err + 'ma PeerRecord result list \<Rightarrow> 'ma PeerRecord option" where
  "lookup_answer E cab rec enrich res =
     (case res of
        Inl err \<Rightarrow> Some rec
      | Inr it \<Rightarrow>
          (case ReadAllResults (if enrich then map (FindPeers_enrich E cab) it else it) of
             Inl err \<Rightarrow> Some rec
           | Inr [] \<Rightarrow> Some rec
           | Inr (p # ps) \<Rightarrow> p))"

datatype 'ma fallback_action =
    NextCall
  | NextSource int
  | NextExhausted
  | NextResult
  | NextCtx
  | NextTimer
  | CloseIter
  | RequestDone
  | CallCache nat
  | CallInner nat "go_err + 'ma PeerRecord result list" int
  | CallCheck nat
  | CallSend nat
  | CallDrop nat
  | CallRelease nat
  | CallCount nat
  | OtherAcquires
  | OtherReleases
  | OtherCaches peer_id "'ma list"
  | OtherFails int peer_id

definition set_call :: "nat \<Rightarrow> 'ma find_peer_call \<Rightarrow> ('ab, 'c, 'ma) fallback_iter \<Rightarrow> ('ab, 'c, 'ma) fallback_iter" where
  "set_call i c s = s\<lparr>fi_calls := (fi_calls s)[i := c]\<rparr>"

definition with_cab :: "('ab, 'c) cachedAddrBook \<Rightarrow> ('ab, 'c, 'ma) fallback_iter \<Rightarrow> ('ab, 'c, 'ma) fallback_iter" where
  "with_cab cab s = s\<lparr>fi_state := (fi_state s)\<lparr>cr_cab := cab\<rparr>\<rparr>"

definition call_step ::
  "('ab, 'c, 'ma, 'env) book_env \<Rightarrow> nat \<Rightarrow> 'ma find_peer_call \<Rightarrow> 'ma fallback_action \<Rightarrow>
     ('ab, 'c, 'ma) fallback_iter \<Rightarrow> ('ab, 'c, 'ma) fallback_iter option" where
  "call_step E i c a s =
     (case (c, a) of
        (LStart rec, CallCache _) \<Rightarrow>
          (case ID rec of
             None \<Rightarrow> None
           | Some pid \<Rightarrow>
               let (hit, cs) = FindPeers_cached E pid (fi_state s)
               in Some (set_call i (case hit of Some it \<Rightarrow> LGot rec False (Inr it) | None \<Rightarrow> LWalk rec) (s\<lparr>fi_state := cs\<rparr>)))
      | (LWalk rec, CallInner _ inner now) \<Rightarrow>
          (case ID rec of
             None \<Rightarrow> None
           | Some pid \<Rightarrow>
               let (res, cs) = FindPeers_inner E now pid inner (fi_state s)
               in Some (set_call i (LGot rec True res) (s\<lparr>fi_state := cs\<rparr>)))
      | (LGot rec enrich res, CallCheck _) \<Rightarrow>
          if fi_ctx s then Some (set_call i LRelease s)
          else (case lookup_answer E (cr_cab (fi_state s)) rec enrich res of
                  None \<Rightarrow> Some (s\<lparr>fi_consumer := CPanic\<rparr>)
                | Some r \<Rightarrow> Some (set_call i (LSend r) s))
      | (LSend r, CallSend _) \<Rightarrow>
          if length (fi_findPeersResult s) < findPeersResultCap
          then Some (set_call i LRelease (s\<lparr>fi_findPeersResult := fi_findPeersResult s @ [r]\<rparr>))
          else None
      | (LSend r, CallDrop _) \<Rightarrow>
          if fi_ctx s \<or> \<not> length (fi_findPeersResult s) < findPeersResultCap
          then Some (set_call i LRelease s) else None
      | (LRelease, CallRelease _) \<Rightarrow>
          (case releaseFindPeerSlot (cr_cab (fi_state s)) of
             None \<Rightarrow> None
           | Some cab \<Rightarrow> Some (set_call i LCount (with_cab cab s)))
      | (LCount, CallCount _) \<Rightarrow>
          Some (set_call i LGone (s\<lparr>fi_ongoingLookups := fi_ongoingLookups s - 1\<rparr>))
      | _ \<Rightarrow> None)"

fun call_of :: "'ma fallback_action \<Rightarrow> nat option" where
  "call_of (CallCache i) = Some i" | "call_of (CallInner i inner now) = Some i" | "call_of (CallCheck i) = Some i"
| "call_of (CallSend i) = Some i" | "call_of (CallDrop i) = Some i" | "call_of (CallRelease i) = Some i"
| "call_of (CallCount i) = Some i" | "call_of a = None"

definition next_step ::
  "('ab, 'c, 'ma, 'env) book_env \<Rightarrow> string \<Rightarrow> 'ma fallback_action \<Rightarrow> ('ab, 'c, 'ma) fallback_iter \<Rightarrow>
     ('ab, 'c, 'ma) fallback_iter option" where
  "next_step E origin a s =
     (case (fi_consumer s, a) of
        (CIdle, NextCall) \<Rightarrow> Some (s\<lparr>fi_consumer := CLoop\<rparr>)
      | (CIdle, CloseIter) \<Rightarrow> Some (s\<lparr>fi_ctx := True\<rparr>)
      | (CLoop, NextSource now) \<Rightarrow>
          (case fi_source s of
             v # vs \<Rightarrow> Some (next_source E origin now v (s\<lparr>fi_source := vs\<rparr>))
           | [] \<Rightarrow> None)
      | (CLoop, NextExhausted) \<Rightarrow>
          if fi_source s = []
          then Some (if fi_ongoingLookups s = 0 then return_false s else s\<lparr>fi_consumer := CWait\<rparr>)
          else None
      | (CWait, NextResult) \<Rightarrow>
          (case fi_findPeersResult s of
             r # rs \<Rightarrow>
               let s1 = s\<lparr>fi_findPeersResult := rs\<rparr>
               in Some (if length (Addrs r) > 0 then return_true (ok_result (RPeer r)) s1 else s1\<lparr>fi_consumer := CLoop\<rparr>)
           | [] \<Rightarrow> None)
      | (CWait, NextCtx) \<Rightarrow> if fi_ctx s then Some (return_false s) else None
      | (CWait, NextTimer) \<Rightarrow> Some (s\<lparr>fi_consumer := CLoop\<rparr>)
      | _ \<Rightarrow> None)"

definition other_step ::
  "('ab, 'c, 'ma, 'env) book_env \<Rightarrow> 'ma fallback_action \<Rightarrow> ('ab, 'c, 'ma) fallback_iter \<Rightarrow>
     ('ab, 'c, 'ma) fallback_iter option" where
  "other_step E a s =
     (let cab = cr_cab (fi_state s) in
      case a of
        RequestDone \<Rightarrow> Some (s\<lparr>fi_ctx := True\<rparr>)
      | OtherAcquires \<Rightarrow>
          let (ok, cab1) = tryAcquireFindPeerSlot cab
          in Some (if ok then (with_cab cab1 s)\<lparr>fi_others := fi_others s + 1\<rparr> else with_cab cab1 s)
      | OtherReleases \<Rightarrow>
          if fi_others s = 0 then None
          else (case releaseFindPeerSlot cab of
                  None \<Rightarrow> None
                | Some cab1 \<Rightarrow> Some ((with_cab cab1 s)\<lparr>fi_others := fi_others s - 1\<rparr>))
      | OtherCaches p as \<Rightarrow> Some (with_cab (CacheAddrs E p as cab) s)
      | OtherFails now p \<Rightarrow> Some (with_cab (RecordFailedConnection E now p cab) s)
      | _ \<Rightarrow> None)"

text \<open>A panic anywhere ends the process.\<close>

definition fallback_step ::
  "('ab, 'c, 'ma, 'env) book_env \<Rightarrow> string \<Rightarrow> ('ab, 'c, 'ma) fallback_iter \<Rightarrow> 'ma fallback_action \<Rightarrow>
     ('ab, 'c, 'ma) fallback_iter option" where
  "fallback_step E origin s a =
     (if fi_consumer s = CPanic then None
      else case call_of a of
             Some i \<Rightarrow> if i < length (fi_calls s) then call_step E i (fi_calls s ! i) a s else None
           | None \<Rightarrow> (case next_step E origin a s of Some s' \<Rightarrow> Some s' | None \<Rightarrow> other_step E a s))"

section \<open>The other calls of the router\<close>

definition cachedRouter_FindProviders ::
  "go_err + 'ma Record result list \<Rightarrow> nat \<Rightarrow> ('ab, 'c) cr_state \<Rightarrow>
     go_err + ('ab, 'c, 'ma) fallback_iter \<times> string" where
  "cachedRouter_FindProviders inner others s =
     (case inner of
        Inl err \<Rightarrow> Inl err
      | Inr it \<Rightarrow> Inr (NewCacheFallbackIter it others s, addrQueryOriginProviders))"

text \<open>
  A nil \<open>*PeerRecord\<close> becomes a record whose schema cannot be read, as a nil record does, so both are
  \<open>Val = None\<close> here.
\<close>

definition peer_to_record :: "'ma PeerRecord result \<Rightarrow> 'ma Record result" where
  "peer_to_record v =
     (case Err v of
        Some e \<Rightarrow> err_result e
      | None \<Rightarrow> \<lparr>Val = map_option RPeer (Val v), Err = None\<rparr>)"

definition record_to_peer :: "'ma Record result \<Rightarrow> 'ma PeerRecord result" where
  "record_to_peer v =
     (case Err v of
        Some e \<Rightarrow> err_result e
      | None \<Rightarrow> (case Val v of
                   Some (RPeer p) \<Rightarrow> ok_result p
                 | _ \<Rightarrow> err_result (ErrText ''unexpected record type'')))"

definition cachedRouter_GetClosestPeers ::
  "go_err + 'ma PeerRecord result list \<Rightarrow> nat \<Rightarrow> ('ab, 'c) cr_state \<Rightarrow>
     go_err + ('ab, 'c, 'ma) fallback_iter \<times> string" where
  "cachedRouter_GetClosestPeers inner others s =
     (case inner of
        Inl err \<Rightarrow> Inl err
      | Inr it \<Rightarrow> Inr (NewCacheFallbackIter (map peer_to_record it) others s, addrQueryOriginClosestPeers))"

end
