(* ===== verification/FallbackSpec.thy ===== *)
theory FallbackSpec
  imports CachedRouter
begin

text \<open>
  What holds of \<open>cacheFallbackIter\<close> in every order of its steps: the accounts of lookups and slots, the
  bounded result buffer, no record without addresses, no panic on well-formed inputs, delivery of the
  source's records in order, and that \<open>Next\<close> returns by the iterator's own steps while the request lives;
  and the results it can lose.
\<close>

section \<open>Lookups\<close>

text \<open>A lookup counted in \<open>ongoingLookups\<close>, and one that holds a slot.\<close>

definition live :: "'ma find_peer_call \<Rightarrow> bool" where "live c \<longleftrightarrow> c \<noteq> LGone"
definition holding :: "'ma find_peer_call \<Rightarrow> bool" where "holding c \<longleftrightarrow> c \<noteq> LGone \<and> c \<noteq> LCount"

lemma live_simps [simp]:
  "live (LStart r)" "live (LWalk r)" "live (LGot r b x)" "live (LSend r)" "live LRelease" "live LCount" "\<not> live LGone"
  "holding (LStart r)" "holding (LWalk r)" "holding (LGot r b x)" "holding (LSend r)" "holding LRelease"
  "\<not> holding LCount" "\<not> holding LGone"
  by (simp_all add: live_def holding_def)

section \<open>Well-formed inputs\<close>

text \<open>A result with an error or a value, and a source record the code can take apart.\<close>

definition wf_result :: "'a result \<Rightarrow> bool" where
  "wf_result v \<longleftrightarrow> Err v \<noteq> None \<or> Val v \<noteq> None"

definition wf_source :: "'ma Record result \<Rightarrow> bool" where
  "wf_source v \<longleftrightarrow> Err v = None \<and> (case Val v of
     None \<Rightarrow> False
   | Some (RPeer r) \<Rightarrow> Schema r = SchemaPeer \<longrightarrow> ID r \<noteq> None
   | Some _ \<Rightarrow> True)"

definition wf_answer :: "go_err + 'ma PeerRecord result list \<Rightarrow> bool" where
  "wf_answer res = (case res of Inl e \<Rightarrow> True | Inr it \<Rightarrow> list_all wf_result it)"

fun wf_action :: "'ma fallback_action \<Rightarrow> bool" where
  "wf_action (CallInner i inner now) = wf_answer inner"
| "wf_action a = True"

fun wf_call :: "'ma find_peer_call \<Rightarrow> bool" where
  "wf_call (LStart r) = (ID r \<noteq> None)"
| "wf_call (LWalk r) = (ID r \<noteq> None)"
| "wf_call (LGot r enrich res) = wf_answer res"
| "wf_call c = True"

lemma wf_result_enrich: "wf_result v \<Longrightarrow> wf_result (FindPeers_enrich E cab v)"
  by (auto simp: wf_result_def FindPeers_enrich_def split: option.splits)

lemma ReadAllResults_wf: "list_all wf_result it \<Longrightarrow> ReadAllResults it = Inr rs \<Longrightarrow> None \<notin> set rs"
proof (induction it arbitrary: rs)
  case Nil
  then show ?case by simp
next
  case (Cons v it)
  then show ?case by (auto simp: wf_result_def split: option.splits sum.splits)
qed

lemma lookup_answer_wf: "wf_answer res \<Longrightarrow> lookup_answer E cab r enrich res \<noteq> None"
proof (cases res)
  case (Inr it)
  assume "wf_answer res"
  define it' where "it' = (if enrich then map (FindPeers_enrich E cab) it else it)"
  have "list_all wf_result it'"
    using \<open>wf_answer res\<close> Inr by (auto simp: it'_def wf_answer_def list_all_iff wf_result_enrich)
  from ReadAllResults_wf[OF this] show ?thesis
    unfolding lookup_answer_def Inr sum.case it'_def[symmetric]
    by (cases "ReadAllResults it'") (auto split: list.split, metis option.exhaust)
qed (simp add: lookup_answer_def)

lemma FindPeers_cached_wf: "FindPeers_cached E pid s = (Some it, s1) \<Longrightarrow> wf_answer (Inr it)"
  by (auto simp: FindPeers_cached_def wf_answer_def wf_result_def case_prod_beta Let_def split: if_splits)

lemma FindPeers_inner_wf: "wf_answer inner \<Longrightarrow> wf_answer (fst (FindPeers_inner E now pid inner s))"
  by (auto simp: FindPeers_inner_def wf_answer_def split: sum.splits)

section \<open>The invariant\<close>

abbreviation fi_cab :: "('ab, 'c, 'ma) fallback_iter \<Rightarrow> ('ab, 'c) cachedAddrBook" where
  "fi_cab s \<equiv> cr_cab (fi_state s)"

text \<open>The slots: taken by this iterator's lookups and by others, within the cap, and the gauge agrees.\<close>

definition slots_ok :: "nat \<Rightarrow> nat \<Rightarrow> ('ab, 'c) cachedAddrBook \<Rightarrow> bool" where
  "slots_ok own others cab \<longleftrightarrow> findPeerSlots cab = own + others \<and> findPeerSlots cab \<le> findPeerCap cab \<and>
     findPeerLookupsInFlight cab = int (findPeerSlots cab)"

definition shows_addrs :: "'ma Record result \<Rightarrow> bool" where
  "shows_addrs v = (case Val v of Some (RPeer r) \<Rightarrow> Schema r = SchemaPeer \<longrightarrow> Addrs r \<noteq> [] | _ \<Rightarrow> True)"

definition fallback_inv :: "('ab, 'c, 'ma) fallback_iter \<Rightarrow> bool" where
  "fallback_inv s \<longleftrightarrow>
     fi_ongoingLookups s = int (count_if live (fi_calls s)) \<and>
     slots_ok (count_if holding (fi_calls s)) (fi_others s) (fi_cab s) \<and>
     length (fi_findPeersResult s) \<le> findPeersResultCap \<and>
     list_all wf_call (fi_calls s) \<and>
     list_all shows_addrs (fi_out s) \<and>
     list_all wf_source (fi_source s) \<and>
     fi_consumer s \<noteq> CPanic"

lemma slots_ok_cong:
  "findPeerSlots cab' = findPeerSlots cab \<Longrightarrow> findPeerCap cab' = findPeerCap cab \<Longrightarrow>
     findPeerLookupsInFlight cab' = findPeerLookupsInFlight cab \<Longrightarrow> slots_ok m n cab' = slots_ok m n cab"
  by (simp add: slots_ok_def)

lemma slots_kept [simp]:
  "slots_ok m n (CacheAddrs E p as cab) = slots_ok m n cab"
  "slots_ok m n (RecordFailedConnection E now p cab) = slots_ok m n cab"
  by (rule slots_ok_cong;
      simp add: CacheAddrs_def RecordFailedConnection_def Let_def case_prod_beta)+

lemma slots_acquire:
  "slots_ok m n cab \<Longrightarrow> tryAcquireFindPeerSlot cab = (ok, cab') \<Longrightarrow>
     if ok then slots_ok (Suc m) n cab' \<and> slots_ok m (Suc n) cab' else slots_ok m n cab'"
  by (auto simp: tryAcquireFindPeerSlot_def slots_ok_def split: if_splits)

lemma slots_release:
  "slots_ok (Suc m) n cab \<Longrightarrow> \<exists>cab'. releaseFindPeerSlot cab = Some cab' \<and> slots_ok m n cab'"
  "slots_ok m (Suc n) cab \<Longrightarrow> \<exists>cab'. releaseFindPeerSlot cab = Some cab' \<and> slots_ok m n cab'"
  by (auto simp: releaseFindPeerSlot_def slots_ok_def)

lemma cache_reads_keep_cab [simp]:
  "cr_cab (snd (withAddrsFromCache E origin pid as s)) = cr_cab s"
  "cr_cab (snd (FindPeers_cached E pid s)) = cr_cab s"
  by (auto simp: withAddrsFromCache_def FindPeers_cached_def count_lookup_def Let_def case_prod_beta)

lemma FindPeers_inner_slots: "slots_ok m n (cr_cab (snd (FindPeers_inner E now pid inner s))) = slots_ok m n (cr_cab s)"
  by (auto simp: FindPeers_inner_def split: sum.split)

lemma withAddrs_nonempty: "as \<noteq> [] \<Longrightarrow> fst (withAddrsFromCache E origin pid as s) = as"
  by (simp add: withAddrsFromCache_def)

subsection \<open>The consumer\<close>

lemma inv_return_true: "fallback_inv s \<Longrightarrow> shows_addrs v \<Longrightarrow> fallback_inv (return_true v s)"
  by (simp add: fallback_inv_def return_true_def)

lemma inv_return_false: "fallback_inv s \<Longrightarrow> fallback_inv (return_false s)"
  by (simp add: fallback_inv_def return_false_def)

lemma inv_consumer: "fallback_inv s \<Longrightarrow> c \<noteq> CPanic \<Longrightarrow> fallback_inv (s\<lparr>fi_consumer := c\<rparr>)"
  by (simp add: fallback_inv_def)

lemma inv_state:
  "fallback_inv s \<Longrightarrow> (\<And>m n. slots_ok m n (cr_cab cs) = slots_ok m n (fi_cab s)) \<Longrightarrow> fallback_inv (s\<lparr>fi_state := cs\<rparr>)"
  by (simp add: fallback_inv_def)

lemma inv_dispatch: "fallback_inv s \<Longrightarrow> ID r \<noteq> None \<Longrightarrow> fallback_inv (dispatch E now pid r s)"
  using slots_acquire[of "count_if holding (fi_calls s)" "fi_others s" "fi_cab s"]
  by (auto simp: dispatch_def Let_def fallback_inv_def split: prod.split)

lemma inv_next_source:
  assumes inv: "fallback_inv s" and wf: "wf_source v"
  shows "fallback_inv (next_source E origin now v s)"
proof (cases "Val v")
  case (Some rec)
  show ?thesis
  proof (cases rec)
    case (RPeer r)
    show ?thesis
    proof (cases "Schema r = SchemaPeer")
      case True
      with wf Some RPeer obtain pid where pid: "ID r = Some pid" by (auto simp: wf_source_def)
      let ?w = "withAddrsFromCache E origin pid (Addrs r) (fi_state s)"
      let ?s1 = "s\<lparr>fi_state := snd ?w\<rparr>"
      let ?s2 = "?s1\<lparr>fi_state := (snd ?w)\<lparr>cr_cab := CacheAddrs E pid (fst ?w) (cr_cab (snd ?w))\<rparr>\<rparr>"
      have s1: "fallback_inv ?s1" by (rule inv_state[OF inv]) simp
      have s2: "fallback_inv ?s2" by (rule inv_state[OF s1]) simp
      have "fst ?w \<noteq> [] \<Longrightarrow> shows_addrs (ok_result (RPeer (r\<lparr>Addrs := fst ?w\<rparr>)))"
        by (simp add: shows_addrs_def)
      then show ?thesis
        using Some RPeer True pid s1 s2 inv_dispatch[OF s1, of "r\<lparr>Addrs := fst ?w\<rparr>"]
        by (auto simp: next_source_def Let_def case_prod_beta intro!: inv_return_true)
    next
      case False
      with Some RPeer show ?thesis
        by (simp add: next_source_def inv_return_true[OF inv] shows_addrs_def)
    qed
  qed (use Some in \<open>simp_all add: next_source_def inv_return_true[OF inv] shows_addrs_def\<close>)
qed (use wf in \<open>simp add: wf_source_def\<close>)

lemma inv_next_step:
  assumes inv: "fallback_inv s" and step: "next_step E origin a s = Some s'"
  shows "fallback_inv s'"
proof (cases "\<exists>now. fi_consumer s = CLoop \<and> a = NextSource now")
  case True
  then obtain now v vs where v: "fi_source s = v # vs" "s' = next_source E origin now v (s\<lparr>fi_source := vs\<rparr>)"
    using step by (auto simp: next_step_def split: list.splits)
  have "fallback_inv (s\<lparr>fi_source := vs\<rparr>)" "wf_source v" using inv v(1) by (simp_all add: fallback_inv_def)
  then show ?thesis unfolding v(2) by (rule inv_next_source)
next
  case False
  with step show ?thesis
    using inv
    by (auto simp: next_step_def Let_def split: consumer.splits fallback_action.splits list.splits if_splits
        intro!: inv_return_true inv_return_false inv_consumer)
      (auto simp: fallback_inv_def shows_addrs_def)
qed

subsection \<open>The lookups and the other requests\<close>

text \<open>A step of lookup \<open>i\<close> that stays counted and keeps its slot.\<close>

lemma inv_set_call:
  assumes "fallback_inv s" and "i < length (fi_calls s)" "holding (fi_calls s ! i)" "holding c" "wf_call c"
  shows "fallback_inv (set_call i c s)"
proof -
  have "live (fi_calls s ! i)" "live c" using assms(3,4) by (auto simp: live_def holding_def)
  then have "count_if live ((fi_calls s)[i := c]) = count_if live (fi_calls s)"
    using count_if_update[OF assms(2), of live c] by simp
  moreover have "count_if holding ((fi_calls s)[i := c]) = count_if holding (fi_calls s)"
    using count_if_update[OF assms(2), of holding c] assms(3,4) by simp
  moreover have "list_all wf_call ((fi_calls s)[i := c])"
    using assms by (auto simp: fallback_inv_def list_all_iff dest!: set_update_subset_insert[THEN subsetD])
  ultimately show ?thesis using assms(1) by (simp add: fallback_inv_def set_call_def)
qed

lemma inv_call_release:
  assumes inv: "fallback_inv s" and i: "i < length (fi_calls s)" "fi_calls s ! i = LRelease"
  shows "\<exists>cab. releaseFindPeerSlot (fi_cab s) = Some cab \<and> fallback_inv (set_call i LCount (with_cab cab s))"
proof -
  let ?calls = "(fi_calls s)[i := LCount]"
  have counts: "Suc (count_if holding ?calls) = count_if holding (fi_calls s)"
    "count_if live ?calls = count_if live (fi_calls s)"
    using count_if_update[OF i(1), of holding LCount] count_if_update[OF i(1), of live LCount] i(2) by simp_all
  have "slots_ok (Suc (count_if holding ?calls)) (fi_others s) (fi_cab s)"
    unfolding counts using inv by (simp add: fallback_inv_def)
  then obtain cab where cab: "releaseFindPeerSlot (fi_cab s) = Some cab"
    "slots_ok (count_if holding ?calls) (fi_others s) cab" using slots_release(1) by blast
  moreover have "list_all wf_call ?calls"
    using inv by (auto simp: fallback_inv_def list_all_iff dest!: set_update_subset_insert[THEN subsetD])
  ultimately show ?thesis
    using inv counts by (simp add: fallback_inv_def set_call_def with_cab_def)
qed

lemma inv_call_count:
  assumes inv: "fallback_inv s" and i: "i < length (fi_calls s)" "fi_calls s ! i = LCount"
  shows "fallback_inv (set_call i LGone (s\<lparr>fi_ongoingLookups := fi_ongoingLookups s - 1\<rparr>))"
proof -
  let ?calls = "(fi_calls s)[i := LGone]"
  have "count_if holding ?calls = count_if holding (fi_calls s)"
    "Suc (count_if live ?calls) = count_if live (fi_calls s)"
    using count_if_update[OF i(1), of holding LGone] count_if_update[OF i(1), of live LGone] i(2) by simp_all
  moreover have "list_all wf_call ?calls"
    using inv by (auto simp: fallback_inv_def list_all_iff dest!: set_update_subset_insert[THEN subsetD])
  ultimately show ?thesis using inv by (simp add: fallback_inv_def set_call_def)
qed

lemma inv_call_step:
  assumes inv: "fallback_inv s" and i: "i < length (fi_calls s)" and wf: "wf_action a"
    and step: "call_step E i (fi_calls s ! i) a s = Some s'"
  shows "fallback_inv s'"
proof (cases "fi_calls s ! i")
  case (LStart r)
  with step obtain j pid where a: "a = CallCache j" "ID r = Some pid"
    and s': "s' = set_call i (case fst (FindPeers_cached E pid (fi_state s)) of Some it \<Rightarrow> LGot r False (Inr it) | None \<Rightarrow> LWalk r)
        (s\<lparr>fi_state := snd (FindPeers_cached E pid (fi_state s))\<rparr>)"
    by (auto simp: call_step_def case_prod_beta Let_def split: fallback_action.splits option.splits)
  have "fallback_inv (s\<lparr>fi_state := snd (FindPeers_cached E pid (fi_state s))\<rparr>)" by (rule inv_state[OF inv]) simp
  then show ?thesis
    unfolding s' using i LStart a(2) FindPeers_cached_wf[of E pid "fi_state s"]
    by (intro inv_set_call) (auto split: option.split simp: prod_eq_iff)
next
  case (LWalk r)
  with step obtain j inner now pid where a: "a = CallInner j inner now" "ID r = Some pid"
    and s': "s' = set_call i (LGot r True (fst (FindPeers_inner E now pid inner (fi_state s))))
        (s\<lparr>fi_state := snd (FindPeers_inner E now pid inner (fi_state s))\<rparr>)"
    by (auto simp: call_step_def case_prod_beta Let_def split: fallback_action.splits option.splits)
  have "fallback_inv (s\<lparr>fi_state := snd (FindPeers_inner E now pid inner (fi_state s))\<rparr>)"
    by (rule inv_state[OF inv FindPeers_inner_slots])
  then show ?thesis
    unfolding s' using i LWalk wf a(1) FindPeers_inner_wf[of inner E now pid "fi_state s"]
    by (intro inv_set_call) auto
next
  case (LGot r enrich res)
  have "wf_answer res" using inv i LGot by (auto simp: fallback_inv_def list_all_length dest: spec[of _ i])
  then have "lookup_answer E (fi_cab s) r enrich res \<noteq> None" by (rule lookup_answer_wf)
  then show ?thesis
    using step LGot inv i
    by (auto simp: call_step_def split: fallback_action.splits option.splits if_splits intro!: inv_set_call)
next
  case (LSend r)
  have "fallback_inv (s\<lparr>fi_findPeersResult := fi_findPeersResult s @ [r]\<rparr>)"
    if "length (fi_findPeersResult s) < findPeersResultCap" using inv that by (simp add: fallback_inv_def)
  then show ?thesis
    using step LSend inv i
    by (auto simp: call_step_def split: fallback_action.splits if_splits intro!: inv_set_call)
next
  case LRelease
  then show ?thesis
    using step inv_call_release[OF inv i LRelease]
    by (auto simp: call_step_def split: fallback_action.splits)
next
  case LCount
  then show ?thesis
    using step inv_call_count[OF inv i LCount]
    by (auto simp: call_step_def split: fallback_action.splits)
next
  case LGone
  then show ?thesis using step by (simp add: call_step_def)
qed

lemma inv_with_cab:
  "fallback_inv s \<Longrightarrow> (\<And>m n. slots_ok m n cab = slots_ok m n (fi_cab s)) \<Longrightarrow> fallback_inv (with_cab cab s)"
  by (simp add: fallback_inv_def with_cab_def)

lemma inv_other_step:
  assumes inv: "fallback_inv s" and step: "other_step E a s = Some s'"
  shows "fallback_inv s'"
proof (cases a)
  case OtherAcquires
  let ?m = "count_if holding (fi_calls s)"
  have "slots_ok ?m (fi_others s) (fi_cab s)" using inv by (simp add: fallback_inv_def)
  from slots_acquire[OF this] show ?thesis
    using OtherAcquires step inv
    by (cases "tryAcquireFindPeerSlot (fi_cab s)")
      (auto simp: other_step_def with_cab_def fallback_inv_def split: if_splits)
next
  case OtherReleases
  let ?m = "count_if holding (fi_calls s)"
  from OtherReleases step obtain n where n: "fi_others s = Suc n"
    by (cases "fi_others s") (auto simp: other_step_def)
  have "slots_ok ?m (Suc n) (fi_cab s)" using inv n by (simp add: fallback_inv_def)
  from slots_release(2)[OF this] show ?thesis
    using OtherReleases step inv n by (auto simp: other_step_def with_cab_def fallback_inv_def)
qed (use step inv in \<open>auto simp: other_step_def Let_def intro!: inv_with_cab\<close>,
     simp add: fallback_inv_def)

text \<open>The step function on the actions of well-behaved surroundings, and its invariant.\<close>

definition fallback_wf_step ::
  "('ab, 'c, 'ma, 'env) book_env \<Rightarrow> string \<Rightarrow> ('ab, 'c, 'ma) fallback_iter \<Rightarrow> 'ma fallback_action \<Rightarrow>
     ('ab, 'c, 'ma) fallback_iter option" where
  "fallback_wf_step E origin s a = (if wf_action a then fallback_step E origin s a else None)"

lemma fallback_step_inv:
  "fallback_inv s \<Longrightarrow> fallback_wf_step E origin s a = Some s' \<Longrightarrow> fallback_inv s'"
  by (auto simp: fallback_wf_step_def fallback_step_def split: if_splits option.splits
      intro: inv_call_step inv_next_step inv_other_step)

interpretation fallback: step_invariant "fallback_wf_step E origin" fallback_inv
  for E :: "('ab, 'c, 'ma, 'env) book_env" and origin
  by unfold_locales (rule fallback_step_inv)

lemma run_steps_wf:
  "list_all wf_action as \<Longrightarrow> run_steps (fallback_wf_step E origin) s as = run_steps (fallback_step E origin) s as"
  by (induction as arbitrary: s) (auto simp: fallback_wf_step_def split: option.splits)

lemma fallback_inv_init:
  "slots_ok 0 others (cr_cab cs) \<Longrightarrow> list_all wf_source src \<Longrightarrow> fallback_inv (NewCacheFallbackIter src others cs)"
  by (simp add: fallback_inv_def NewCacheFallbackIter_def findPeersResultCap_def)

section \<open>Delivery\<close>

text \<open>A source record \<open>Next\<close> must pass on: any but a peer record without addresses of its own.\<close>

definition given :: "'ma Record result \<Rightarrow> bool" where
  "given v = (case Val v of Some (RPeer r) \<Rightarrow> Schema r \<noteq> SchemaPeer \<or> Addrs r \<noteq> [] | _ \<Rightarrow> True)"

definition delivery_inv :: "'ma Record result list \<Rightarrow> ('ab, 'c, 'ma) fallback_iter \<Rightarrow> bool" where
  "delivery_inv src s \<longleftrightarrow> list_all wf_source (fi_source s) \<and>
     (fi_consumer s = CWait \<or> fi_ret s = Some False \<longrightarrow> fi_source s = []) \<and>
     (\<exists>pre. src = pre @ fi_source s \<and> subseq (filter given pre) (fi_out s))"

lemma dispatch_fields [simp]:
  "fi_source (dispatch E now pid r s) = fi_source s" "fi_out (dispatch E now pid r s) = fi_out s"
  "fi_consumer (dispatch E now pid r s) = fi_consumer s" "fi_ret (dispatch E now pid r s) = fi_ret s"
  "fi_findPeersResult (dispatch E now pid r s) = fi_findPeersResult s"
  by (auto simp: dispatch_def Let_def case_prod_beta)

lemma return_fields [simp]:
  "fi_source (return_true v s) = fi_source s" "fi_out (return_true v s) = fi_out s @ [v]"
  "fi_consumer (return_true v s) = CIdle" "fi_ret (return_true v s) = Some True"
  "fi_calls (return_true v s) = fi_calls s"
  "fi_source (return_false s) = fi_source s" "fi_out (return_false s) = fi_out s"
  "fi_consumer (return_false s) = CIdle" "fi_ret (return_false s) = Some False"
  "fi_calls (return_false s) = fi_calls s"
  by (simp_all add: return_true_def return_false_def)

text \<open>What one source value makes \<open>Next\<close> do.\<close>

lemma next_source_effect:
  assumes "wf_source v" and "fi_consumer s = CLoop"
  shows "fi_source (next_source E origin now v s) = fi_source s"
    and "(\<exists>w. fi_out (next_source E origin now v s) = fi_out s @ [w] \<and> (given v \<longrightarrow> w = v) \<and>
            fi_consumer (next_source E origin now v s) = CIdle \<and> fi_ret (next_source E origin now v s) = Some True) \<or>
         \<not> given v \<and> fi_out (next_source E origin now v s) = fi_out s \<and>
            fi_consumer (next_source E origin now v s) = CLoop \<and> fi_ret (next_source E origin now v s) = fi_ret s"
proof -
  from assms(1) obtain rec where v: "v = ok_result rec"
    by (cases v) (auto simp: wf_source_def ok_result_def split: option.splits)
  have out: "fi_source (next_source E origin now v s) = fi_source s \<and>
    ((\<exists>w. fi_out (next_source E origin now v s) = fi_out s @ [w] \<and> (given v \<longrightarrow> w = v) \<and>
            fi_consumer (next_source E origin now v s) = CIdle \<and> fi_ret (next_source E origin now v s) = Some True) \<or>
         \<not> given v \<and> fi_out (next_source E origin now v s) = fi_out s \<and>
            fi_consumer (next_source E origin now v s) = CLoop \<and> fi_ret (next_source E origin now v s) = fi_ret s)"
  proof (cases rec)
    case (RPeer r)
    show ?thesis
    proof (cases "Schema r = SchemaPeer")
      case True
      with assms(1) v RPeer obtain pid where pid: "ID r = Some pid" by (auto simp: wf_source_def)
      show ?thesis
        using True pid assms(2) withAddrs_nonempty[of "Addrs r" E origin pid "fi_state s"]
        unfolding v RPeer by (cases "Addrs r = []") (auto simp: next_source_def Let_def case_prod_beta given_def)
    qed (simp add: v RPeer next_source_def)
  qed (simp_all add: v next_source_def)
  then show "fi_source (next_source E origin now v s) = fi_source s" by blast
  from out show "(\<exists>w. fi_out (next_source E origin now v s) = fi_out s @ [w] \<and> (given v \<longrightarrow> w = v) \<and>
            fi_consumer (next_source E origin now v s) = CIdle \<and> fi_ret (next_source E origin now v s) = Some True) \<or>
         \<not> given v \<and> fi_out (next_source E origin now v s) = fi_out s \<and>
            fi_consumer (next_source E origin now v s) = CLoop \<and> fi_ret (next_source E origin now v s) = fi_ret s" by blast
qed

lemma set_call_fields [simp]:
  "fi_source (set_call i c s) = fi_source s" "fi_out (set_call i c s) = fi_out s"
  "fi_consumer (set_call i c s) = fi_consumer s" "fi_ret (set_call i c s) = fi_ret s"
  "fi_calls (set_call i c s) = (fi_calls s)[i := c]"
  "fi_source (with_cab cab s) = fi_source s" "fi_out (with_cab cab s) = fi_out s"
  "fi_consumer (with_cab cab s) = fi_consumer s" "fi_ret (with_cab cab s) = fi_ret s"
  "fi_calls (with_cab cab s) = fi_calls s"
  by (simp_all add: set_call_def with_cab_def)

lemma call_step_fields:
  assumes "call_step E i c a s = Some s'"
  shows "fi_source s' = fi_source s \<and> fi_out s' = fi_out s \<and> fi_ret s' = fi_ret s \<and>
    (fi_consumer s' = fi_consumer s \<or> fi_consumer s' = CPanic)"
  using assms
  by (cases c; cases a) (auto simp: call_step_def Let_def case_prod_beta split: option.splits if_splits)

lemma other_step_fields:
  assumes "other_step E a s = Some s'"
  shows "fi_source s' = fi_source s \<and> fi_out s' = fi_out s \<and> fi_ret s' = fi_ret s \<and>
    fi_consumer s' = fi_consumer s \<and> fi_calls s' = fi_calls s"
  using assms by (cases a) (auto simp: other_step_def Let_def case_prod_beta split: option.splits if_splits)

lemma delivery_same:
  "delivery_inv src s \<Longrightarrow> fi_source s' = fi_source s \<Longrightarrow> fi_out s' = fi_out s @ ys \<Longrightarrow>
     (fi_consumer s' = CWait \<or> fi_ret s' = Some False \<longrightarrow> fi_source s = []) \<Longrightarrow> delivery_inv src s'"
  unfolding delivery_inv_def by (metis append.right_neutral list_emb_append2 append_Nil2 subseq_order.trans list_emb_append_mono list_emb_Nil subseq_order.refl)

lemma delivery_next_step:
  assumes inv: "delivery_inv src s" and step: "next_step E origin a s = Some s'"
  shows "delivery_inv src s'"
proof (cases "\<exists>now. fi_consumer s = CLoop \<and> a = NextSource now")
  case True
  then obtain now v vs where v: "fi_source s = v # vs" and s': "s' = next_source E origin now v (s\<lparr>fi_source := vs\<rparr>)"
    and loop: "fi_consumer (s\<lparr>fi_source := vs\<rparr>) = CLoop"
    using step by (auto simp: next_step_def split: list.splits)
  from inv v obtain pre where pre: "src = pre @ v # vs" "subseq (filter given pre) (fi_out s)"
    by (auto simp: delivery_inv_def)
  have wf: "wf_source v" "list_all wf_source vs" "fi_ret s \<noteq> Some False"
    using inv v by (auto simp: delivery_inv_def)
  note eff = next_source_effect[OF wf(1) loop, of E origin now, folded s']
  have "subseq (filter given (pre @ [v])) (fi_out s')"
    using eff(2) pre(2) by (auto intro: list_emb_append_mono)
  moreover have "src = (pre @ [v]) @ fi_source s'" using eff(1) pre(1) by simp
  moreover have "\<not> (fi_consumer s' = CWait \<or> fi_ret s' = Some False)" using eff(2) wf(3) by auto
  ultimately show ?thesis using wf(2) eff(1) unfolding delivery_inv_def by auto
next
  case False
  have src: "fi_consumer s = CWait \<or> fi_ret s = Some False \<longrightarrow> fi_source s = []"
    using inv by (simp add: delivery_inv_def)
  from False step have "fi_source s' = fi_source s \<and> (\<exists>ys. fi_out s' = fi_out s @ ys) \<and>
      (fi_consumer s' = CWait \<or> fi_ret s' = Some False \<longrightarrow> fi_source s = [])"
    using src
    by (auto simp: next_step_def Let_def split: consumer.splits fallback_action.splits list.splits if_splits)
  then show ?thesis using delivery_same[OF inv] by blast
qed

lemma delivery_step: "delivery_inv src s \<Longrightarrow> fallback_wf_step E origin s a = Some s' \<Longrightarrow> delivery_inv src s'"
proof -
  assume inv: "delivery_inv src s" and step: "fallback_wf_step E origin s a = Some s'"
  have src: "fi_consumer s = CWait \<or> fi_ret s = Some False \<longrightarrow> fi_source s = []"
    using inv by (simp add: delivery_inv_def)
  consider i where "call_step E i (fi_calls s ! i) a s = Some s'" | "next_step E origin a s = Some s'"
    | "other_step E a s = Some s'"
    using step by (auto simp: fallback_wf_step_def fallback_step_def split: if_splits option.splits)
  then show "delivery_inv src s'"
  proof cases
    case 1
    with src call_step_fields[OF 1] show ?thesis by (intro delivery_same[OF inv, of _ "[]"]) auto
  next
    case 2
    with inv show ?thesis by (rule delivery_next_step)
  next
    case 3
    with src other_step_fields[OF 3] show ?thesis by (intro delivery_same[OF inv, of _ "[]"]) auto
  qed
qed

interpretation delivery: step_invariant "fallback_wf_step E origin" "delivery_inv src"
  for E :: "('ab, 'c, 'ma, 'env) book_env" and origin src
  by unfold_locales (rule delivery_step)

section \<open>Next returns\<close>

fun call_work :: "'ma find_peer_call \<Rightarrow> nat" where
  "call_work (LStart r) = 6" | "call_work (LWalk r) = 5" | "call_work (LGot r b x) = 4" | "call_work (LSend r) = 3"
| "call_work LRelease = 2" | "call_work LCount = 1" | "call_work LGone = 0"

definition fallback_work :: "('ab, 'c, 'ma) fallback_iter \<Rightarrow> nat" where
  "fallback_work s = sum_list (map call_work (fi_calls s)) + 8 * length (fi_source s) +
     (if fi_consumer s = CWait then 1 else 0)"

text \<open>
  A step of the iterator itself while its request lives: of \<open>Next\<close> or of one of its lookups, with the
  clock at \<open>t\<close> and the wrapped router answering \<open>f i\<close> to lookup \<open>i\<close>. The context does not end, \<open>Close\<close> is
  not called, \<open>Next\<close> does not take the arm of \<open>ctx.Done()\<close>, and no other request helps.
\<close>

definition own_action :: "(nat \<Rightarrow> go_err + 'ma PeerRecord result list) \<Rightarrow> int \<Rightarrow> 'ma fallback_action \<Rightarrow> bool" where
  "own_action f t a =
     (case a of
        NextSource now \<Rightarrow> now = t
      | CallInner i inner now \<Rightarrow> inner = f i \<and> now = t
      | NextCtx \<Rightarrow> False | CloseIter \<Rightarrow> False | RequestDone \<Rightarrow> False
      | OtherAcquires \<Rightarrow> False | OtherReleases \<Rightarrow> False | OtherCaches p as \<Rightarrow> False | OtherFails now p \<Rightarrow> False
      | _ \<Rightarrow> True)"

lemma own_wf: "own_action f t a \<Longrightarrow> (\<And>i. wf_answer (f i)) \<Longrightarrow> wf_action a"
  by (cases a) (simp_all add: own_action_def)

lemma next_source_ctx: "fi_ctx (next_source E origin now v s) = fi_ctx s"
proof (cases "Val v")
  case (Some rec)
  then show ?thesis
    by (cases rec) (auto simp: next_source_def return_true_def dispatch_def Let_def case_prod_beta split: option.split)
qed (simp add: next_source_def)

lemma own_step_ctx:
  assumes "fallback_step E origin s a = Some s'" and "own_action f t a"
  shows "fi_ctx s' = fi_ctx s"
  using assms
  by (cases a)
    (auto simp: own_action_def fallback_step_def call_step_def next_step_def other_step_def set_call_def with_cab_def
      return_true_def return_false_def next_source_ctx Let_def case_prod_beta
      split: if_splits option.splits list.splits find_peer_call.splits consumer.splits)

lemma own_run_ctx:
  "list_all (own_action f t) as \<Longrightarrow> run_steps (fallback_step E origin) s as = Some s' \<Longrightarrow> fi_ctx s' = fi_ctx s"
  by (induction as arbitrary: s) (auto split: option.splits dest: own_step_ctx)

text \<open>A lookup that is not over has a step that brings it closer to its end, whatever the wrapped router answers.\<close>

lemma live_call_advances:
  assumes inv: "fallback_inv s" and i: "i < length (fi_calls s)" "live (fi_calls s ! i)"
  shows "\<exists>a c s'. call_of a = Some i \<and> own_action f t a \<and> call_step E i (fi_calls s ! i) a s = Some s' \<and>
    fi_calls s' = (fi_calls s)[i := c] \<and> call_work c < call_work (fi_calls s ! i)"
proof (cases "fi_calls s ! i")
  case (LStart r)
  have "wf_call (LStart r)" using inv i LStart by (metis fallback_inv_def list_all_length)
  with LStart show ?thesis
    by (intro exI[of _ "CallCache i"])
      (auto simp: own_action_def call_step_def Let_def case_prod_beta split: option.split)
next
  case (LWalk r)
  have "wf_call (LWalk r)" using inv i LWalk by (metis fallback_inv_def list_all_length)
  then obtain pid where "ID r = Some pid" by auto
  with LWalk show ?thesis
    by (intro exI[of _ "CallInner i (f i) t"]
        exI[of _ "LGot r True (fst (FindPeers_inner E t pid (f i) (fi_state s)))"])
      (auto simp: own_action_def call_step_def Let_def case_prod_beta)
next
  case (LGot r enrich res)
  have "wf_call (LGot r enrich res)" using inv i LGot by (metis fallback_inv_def list_all_length)
  then have "lookup_answer E (fi_cab s) r enrich res \<noteq> None" using lookup_answer_wf[of res E "fi_cab s" r enrich] by simp
  then obtain y where "lookup_answer E (fi_cab s) r enrich res = Some y" by auto
  with LGot show ?thesis
    by (intro exI[of _ "CallCheck i"] exI[of _ "if fi_ctx s then LRelease else LSend y"]) (auto simp: own_action_def call_step_def)
next
  case (LSend r)
  then show ?thesis
    by (cases "length (fi_findPeersResult s) < findPeersResultCap")
      (intro exI[of _ "CallSend i"], auto simp: own_action_def call_step_def, intro exI[of _ "CallDrop i"], auto simp: own_action_def call_step_def)
next
  case LRelease
  then show ?thesis using inv_call_release[OF inv i(1) LRelease]
    by (intro exI[of _ "CallRelease i"] exI[of _ LCount]) (auto simp: own_action_def call_step_def)
next
  case LCount
  then show ?thesis by (intro exI[of _ "CallCount i"] exI[of _ LGone]) (auto simp: own_action_def call_step_def)
next
  case LGone
  with i show ?thesis by simp
qed

lemma dispatch_work: "sum_list (map call_work (fi_calls (dispatch E now pid r s))) \<le> sum_list (map call_work (fi_calls s)) + 6"
  by (auto simp: dispatch_def Let_def case_prod_beta)

lemma next_source_work:
  "sum_list (map call_work (fi_calls (next_source E origin now v s))) \<le> sum_list (map call_work (fi_calls s)) + 6"
proof (cases "Val v")
  case (Some rec)
  then show ?thesis
  proof (cases rec)
    case (RPeer r)
    with Some show ?thesis
      by (auto simp: next_source_def Let_def case_prod_beta split: option.split intro: order_trans[OF dispatch_work])
  qed (simp_all add: next_source_def)
qed (simp add: next_source_def)

text \<open>
  Inside \<open>Next\<close> some step of the iterator itself is enabled that uses up work, or ends the call with false.
\<close>

lemma next_advances:
  assumes inv: "fallback_inv s" "delivery_inv src s" and inside: "fi_consumer s \<noteq> CIdle" and f: "\<And>i. wf_answer (f i)"
  shows "\<exists>a s'. own_action f t a \<and> fallback_wf_step E origin s a = Some s' \<and>
    (fallback_work s' < fallback_work s \<or> fi_consumer s' = CIdle \<and> fi_ret s' = Some False)"
proof -
  have np: "fi_consumer s \<noteq> CPanic" using inv(1) by (simp add: fallback_inv_def)
  have go: ?thesis if "own_action f t a" "fallback_step E origin s a = Some s'"
      "fallback_work s' < fallback_work s \<or> fi_consumer s' = CIdle \<and> fi_ret s' = Some False" for a s'
    using that by (intro exI[of _ a] exI[of _ s']) (simp add: fallback_wf_step_def own_wf[OF _ f])
  consider "fi_consumer s = CWait" | v vs where "fi_consumer s = CLoop" "fi_source s = v # vs"
    | "fi_consumer s = CLoop" "fi_source s = []"
    using inside np by (metis consumer.exhaust list.exhaust)
  then show ?thesis
  proof cases
    case 1
    then show ?thesis
      by (intro go[of NextTimer "s\<lparr>fi_consumer := CLoop\<rparr>"])
        (simp_all add: own_action_def fallback_step_def next_step_def fallback_work_def)
  next
    case (2 v vs)
    have "wf_source v" using inv(2) 2 by (simp add: delivery_inv_def)
    from next_source_effect[OF this, of "s\<lparr>fi_source := vs\<rparr>" E origin t] next_source_work[of E origin t v "s\<lparr>fi_source := vs\<rparr>"] 2
    show ?thesis
      by (intro go[of "NextSource t" "next_source E origin t v (s\<lparr>fi_source := vs\<rparr>)"])
        (auto simp: own_action_def fallback_step_def next_step_def fallback_work_def)
  next
    case 3
    show ?thesis
    proof (cases "fi_ongoingLookups s = 0")
      case True
      with 3 show ?thesis
        by (intro go[of NextExhausted "return_false s"])
          (simp_all add: own_action_def fallback_step_def next_step_def)
    next
      case False
      then have "0 < count_if live (fi_calls s)" using inv(1) by (simp add: fallback_inv_def)
      then obtain i where i: "i < length (fi_calls s)" "live (fi_calls s ! i)"
        by (auto simp: count_if_def filter_empty_conv in_set_conv_nth)
      from live_call_advances[OF inv(1) i] obtain a c s1 where a: "call_of a = Some i" "own_action f t a"
        "call_step E i (fi_calls s ! i) a s = Some s1"
        and c: "fi_calls s1 = (fi_calls s)[i := c]" "call_work c < call_work (fi_calls s ! i)" by blast
      have "fallback_step E origin s a = Some s1" using a i np by (simp add: fallback_step_def)
      then show ?thesis
        using call_step_fields[OF a(3)] sum_list_update_less[OF i(1) c(2)] c(1) 3 a(2)
        by (intro go[of a s1]) (auto simp: fallback_work_def)
    qed
  qed
qed

lemma next_always_returns:
  assumes "fallback_inv s" and "delivery_inv src s" and "fi_consumer s \<noteq> CIdle" and f: "\<And>i. wf_answer (f i)"
  shows "\<exists>as s'. list_all (own_action f t) as \<and> run_steps (fallback_step E origin) s as = Some s' \<and> fi_consumer s' = CIdle"
  using assms(1-3)
proof (induction "fallback_work s" arbitrary: s rule: less_induct)
  case less
  from next_advances[where f = f and t = t, OF less.prems f] obtain a s1 where a: "own_action f t a" and wf_step: "fallback_wf_step E origin s a = Some s1"
    and smaller: "fallback_work s1 < fallback_work s \<or> fi_consumer s1 = CIdle" by blast
  have step: "fallback_step E origin s a = Some s1" using a wf_step by (simp add: fallback_wf_step_def own_wf[OF _ f])
  show ?case
  proof (cases "fi_consumer s1 = CIdle")
    case True
    with a step show ?thesis by (intro exI[of _ "[a]"]) simp
  next
    case False
    with less.hyps[OF _ fallback_step_inv[OF less.prems(1) wf_step] delivery_step[OF less.prems(2) wf_step] False] smaller
    obtain as s' where "list_all (own_action f t) as" "run_steps (fallback_step E origin) s1 as = Some s'" "fi_consumer s' = CIdle"
      by blast
    with a step show ?thesis by (intro exI[of _ "a # as"]) simp
  qed
qed

text \<open>Calling \<open>Next\<close> again and again the iterator can be read to its end.\<close>

lemma fallback_drains:
  assumes "fallback_inv s" and "delivery_inv src s" and "fi_ret s \<noteq> Some False" and f: "\<And>i. wf_answer (f i)"
  shows "\<exists>as s'. list_all (own_action f t) as \<and> run_steps (fallback_step E origin) s as = Some s' \<and> fi_ret s' = Some False"
  using assms(1-3)
proof (induction "2 * fallback_work s + (if fi_consumer s = CIdle then 1 else 0)" arbitrary: s rule: less_induct)
  case less
  have go: ?case if a: "own_action f t a" "fallback_wf_step E origin s a = Some s1"
    and smaller: "fi_ret s1 = Some False \<or> 2 * fallback_work s1 + (if fi_consumer s1 = CIdle then 1 else 0) <
      2 * fallback_work s + (if fi_consumer s = CIdle then 1 else 0)" for a s1
  proof -
    have step: "fallback_step E origin s a = Some s1" using a by (simp add: fallback_wf_step_def own_wf[OF _ f])
    show ?thesis
    proof (cases "fi_ret s1 = Some False")
      case True
      with a(1) step show ?thesis by (intro exI[of _ "[a]"]) simp
    next
      case False
      with less.hyps[OF _ fallback_step_inv[OF less.prems(1) a(2)] delivery_step[OF less.prems(2) a(2)] False] smaller
      obtain as s' where "list_all (own_action f t) as" "run_steps (fallback_step E origin) s1 as = Some s'" "fi_ret s' = Some False"
        by blast
      with a(1) step show ?thesis by (intro exI[of _ "a # as"]) simp
    qed
  qed
  show ?case
  proof (cases "fi_consumer s = CIdle")
    case True
    then show ?thesis
      by (intro go[of NextCall "s\<lparr>fi_consumer := CLoop\<rparr>"])
        (simp_all add: own_action_def fallback_wf_step_def fallback_step_def next_step_def fallback_work_def)
  next
    case False
    from next_advances[where f = f and t = t, OF less.prems(1,2) False f] obtain a s1 where "own_action f t a" "fallback_wf_step E origin s a = Some s1"
      "fallback_work s1 < fallback_work s \<or> fi_consumer s1 = CIdle \<and> fi_ret s1 = Some False" by blast
    then show ?thesis using False by (intro go[of a s1]) auto
  qed
qed

section \<open>Results that are lost\<close>

text \<open>Where no lookup is running, the source is exhausted and \<open>Next\<close> does not wait, nothing is delivered any more.\<close>

definition settled :: "('ab, 'c, 'ma) fallback_iter \<Rightarrow> ('ab, 'c, 'ma) fallback_iter \<Rightarrow> bool" where
  "settled s0 s \<longleftrightarrow> fi_source s = [] \<and> fi_ongoingLookups s = 0 \<and> list_all (\<lambda>c. c = LGone) (fi_calls s) \<and>
     (fi_consumer s = CIdle \<or> fi_consumer s = CLoop) \<and>
     fi_out s = fi_out s0 \<and> fi_findPeersResult s = fi_findPeersResult s0"

lemma settled_start:
  assumes "fallback_inv s" "fi_source s = []" "fi_ongoingLookups s = 0" "fi_consumer s \<noteq> CWait"
  shows "settled s s"
proof -
  have "fi_consumer s = CIdle \<or> fi_consumer s = CLoop"
    using assms(1,4) by (cases "fi_consumer s") (simp_all add: fallback_inv_def)
  moreover have "count_if live (fi_calls s) = 0" using assms(1,3) by (simp add: fallback_inv_def)
  then have "list_all (\<lambda>c. c = LGone) (fi_calls s)" by (auto simp: count_if_def filter_empty_conv list_all_iff live_def)
  ultimately show ?thesis using assms(2,3) by (simp add: settled_def)
qed

lemma settled_step:
  assumes "settled s0 s" and step: "fallback_step E origin s a = Some s'"
  shows "settled s0 s'"
proof -
  have gone: "call_step E i (fi_calls s ! i) a s = None" if "i < length (fi_calls s)" for i
    using assms(1) that by (simp add: settled_def list_all_length call_step_def)
  then consider "next_step E origin a s = Some s'" | "other_step E a s = Some s'"
    using step by (auto simp: fallback_step_def split: if_splits option.splits)
  then show ?thesis
  proof cases
    case 1
    then show ?thesis using assms(1)
      by (auto simp: settled_def next_step_def return_false_def split: consumer.splits fallback_action.splits)
  next
    case 2
    then show ?thesis using assms(1)
      by (auto simp: settled_def other_step_def with_cab_def Let_def case_prod_beta split: fallback_action.splits if_splits option.splits)
  qed
qed

interpretation settling: step_invariant "fallback_step E origin" "settled s0"
  for E :: "('ab, 'c, 'ma, 'env) book_env" and origin s0
  by unfold_locales (rule settled_step)

definition sample_cr :: "(sample_book, peer_id \<rightharpoonup> peerState) cr_state" where [env_defs]:
  "sample_cr = \<lparr>cr_cab = sample_cab, peerAddrLookups = []\<rparr>"

definition sample_peer :: "peer_id \<Rightarrow> comps list \<Rightarrow> comps PeerRecord" where [env_defs]:
  "sample_peer p as = \<lparr>Schema = SchemaPeer, ID = Some p, Addrs = as, Protocols = []\<rparr>"

text \<open>
  A provider without addresses and one with; the lookup of the first is over before \<open>Next\<close> has
  reached the end of the source.
\<close>

definition early_src :: "comps Record result list" where
  "early_src = [ok_result (RPeer (sample_peer ''P'' [])), ok_result (RPeer (sample_peer ''Q'' [sample_ip]))]"

definition early_run :: "comps fallback_action list" where
  "early_run = [NextCall, NextSource 5, CallCache 0, CallInner 0 (Inr [ok_result (sample_peer ''P'' [sample_ip])]) 6,
     CallCheck 0, CallSend 0, CallRelease 0, CallCount 0, NextSource 7, NextCall, NextExhausted]"

lemma early_run_result:
  "\<exists>s. run_steps (fallback_step sample_book_env addrQueryOriginProviders) (NewCacheFallbackIter early_src 0 sample_cr) early_run = Some s \<and>
     fi_ret s = Some False \<and> \<not> fi_ctx s \<and> fi_consumer s = CIdle \<and> fi_source s = [] \<and> fi_ongoingLookups s = 0 \<and>
     fi_findPeersResult s = [sample_peer ''P'' [sample_ip]] \<and> fi_out s = [ok_result (RPeer (sample_peer ''Q'' [sample_ip]))]"
  by (simp add: early_run_def early_src_def NewCacheFallbackIter_def fallback_step_def call_step_def next_step_def
      next_source_def withAddrsFromCache_def GetCachedAddrs_def ShouldProbePeer_def dispatch_def set_call_def
      tryAcquireFindPeerSlot_def releaseFindPeerSlot_def with_cab_def FindPeers_cached_def FindPeers_inner_def
      FindPeers_enrich_def lookup_answer_def findPeersResultCap_def return_true_def return_false_def count_lookup_def
      CacheAddrs_def Let_def env_defs hasPrefix_def isRelayAddr_def)

lemma early_ok: "slots_ok 0 0 (cr_cab sample_cr)" "list_all wf_source early_src" "list_all wf_action early_run"
  by (simp_all add: slots_ok_def early_src_def early_run_def wf_source_def wf_answer_def wf_result_def env_defs)

section \<open>Properties\<close>

lemma fallback_reachable:
  assumes "slots_ok 0 others (cr_cab cs)" and "list_all wf_source src" and "list_all wf_action as"
    and "run_steps (fallback_step E origin) (NewCacheFallbackIter src others cs) as = Some s"
  shows "fallback_inv s" and "delivery_inv src s"
proof -
  have run: "run_steps (fallback_wf_step E origin) (NewCacheFallbackIter src others cs) as = Some s"
    using assms(3,4) by (simp add: run_steps_wf)
  show "fallback_inv s" by (rule fallback.inv_run[OF fallback_inv_init[OF assms(1,2)] run])
  have "delivery_inv src (NewCacheFallbackIter src others cs)"
    using assms(2) by (auto simp: delivery_inv_def NewCacheFallbackIter_def intro: exI[of _ "[]"])
  then show "delivery_inv src s" by (rule delivery.inv_run[OF _ run])
qed

text \<open>
  C1. The accounts of background lookups are exact in every interleaving with other requests:
  \<open>ongoingLookups\<close> counts the lookups still running; the FindPeer slots taken are those of running
  lookups and of others, never more than the capacity, and the in-flight gauge equals them; at most 100
  results are buffered; and with well-formed sources and answers nothing panics.
\<close>

theorem lookups_are_accounted:
  assumes "slots_ok 0 others (cr_cab cs)" and "list_all wf_source src" and "list_all wf_action as"
    and "run_steps (fallback_step E origin) (NewCacheFallbackIter src others cs) as = Some s"
  shows "fi_ongoingLookups s = int (length (filter (\<lambda>c. c \<noteq> LGone) (fi_calls s))) \<and>
    findPeerSlots (fi_cab s) = length (filter (\<lambda>c. c \<noteq> LGone \<and> c \<noteq> LCount) (fi_calls s)) + fi_others s \<and>
    findPeerSlots (fi_cab s) \<le> findPeerCap (fi_cab s) \<and>
    findPeerLookupsInFlight (fi_cab s) = int (findPeerSlots (fi_cab s)) \<and>
    length (fi_findPeersResult s) \<le> 100 \<and> fi_consumer s \<noteq> CPanic"
  using fallback_reachable(1)[OF assms]
  by (simp add: fallback_inv_def slots_ok_def count_if_def live_def[abs_def] holding_def[abs_def] findPeersResultCap_def)

lemma lookups_are_accounted_witness:
  "\<exists>s. run_steps (fallback_step sample_book_env addrQueryOriginProviders) (NewCacheFallbackIter early_src 0 sample_cr) early_run = Some s \<and>
     findPeerSlots (fi_cab s) \<le> findPeerCap (fi_cab s)"
  using early_run_result lookups_are_accounted[OF early_ok] by blast

text \<open>
  C2. Delivery. Every source record that came with addresses (and every record that is not a peer
  record) is returned by \<open>Next\<close>, unchanged and in the source's order; once \<open>Next\<close> has returned false,
  all of them have been. No peer record \<open>Next\<close> returns lacks addresses.
\<close>

theorem fallback_delivers:
  assumes "slots_ok 0 others (cr_cab cs)" and "list_all wf_source src" and "list_all wf_action as"
    and "run_steps (fallback_step E origin) (NewCacheFallbackIter src others cs) as = Some s"
  shows "(\<exists>pre. src = pre @ fi_source s \<and> subseq (filter given pre) (fi_out s)) \<and>
    (fi_ret s = Some False \<longrightarrow> subseq (filter given src) (fi_out s)) \<and> list_all shows_addrs (fi_out s)"
  using fallback_reachable[OF assms] by (auto simp: fallback_inv_def delivery_inv_def)

lemma fallback_delivers_witness:
  "\<exists>s. run_steps (fallback_step sample_book_env addrQueryOriginProviders) (NewCacheFallbackIter early_src 0 sample_cr) early_run = Some s \<and>
     subseq (filter given early_src) (fi_out s)"
  using early_run_result fallback_delivers[OF early_ok] by blast

text \<open>
  C24. \<open>Next\<close> returns while the request lives. From every state inside a call of \<open>Next\<close> that the iterator
  and the other requests can reach, with lookups at any stage, the steps of \<open>Next\<close> and of the running
  lookups alone bring the call to its end: whatever the wrapped router answers to each lookup and
  whatever the time, without the context ending, without \<open>Close\<close> and without other requests. In
  particular every lookup that is counted does end and is counted down.
\<close>

theorem fallback_Next_returns:
  assumes "slots_ok 0 others (cr_cab cs)" and "list_all wf_source src" and "list_all wf_action as"
    and "run_steps (fallback_step E origin) (NewCacheFallbackIter src others cs) as = Some s"
    and "fi_consumer s \<noteq> CIdle" and "\<And>i. wf_answer (f i)"
  shows "\<exists>bs s'. list_all (own_action f t) bs \<and> run_steps (fallback_step E origin) s bs = Some s' \<and>
    fi_consumer s' = CIdle \<and> fi_ctx s' = fi_ctx s"
  using next_always_returns[where f = f and t = t, OF fallback_reachable[OF assms(1-4)] assms(5,6)] own_run_ctx by blast

lemma fallback_Next_returns_witness:
  "\<exists>bs s'. list_all (own_action (\<lambda>i. Inl ErrNotFound) 9) bs \<and>
     run_steps (fallback_step sample_book_env addrQueryOriginProviders)
       ((NewCacheFallbackIter early_src 0 sample_cr)\<lparr>fi_consumer := CLoop\<rparr>) bs = Some s' \<and>
     fi_consumer s' = CIdle \<and> \<not> fi_ctx s'"
proof -
  let ?s = "(NewCacheFallbackIter early_src 0 sample_cr)\<lparr>fi_consumer := CLoop\<rparr>"
  have run: "run_steps (fallback_step sample_book_env addrQueryOriginProviders) (NewCacheFallbackIter early_src 0 sample_cr) [NextCall] = Some ?s"
    by (simp add: fallback_step_def next_step_def NewCacheFallbackIter_def)
  have "list_all wf_action [NextCall]" "fi_consumer ?s \<noteq> CIdle" "\<And>i. wf_answer ((\<lambda>i. Inl ErrNotFound) i)"
    by (simp_all add: wf_answer_def)
  from fallback_Next_returns[where t = 9, OF early_ok(1,2) this(1) run this(2,3)] show ?thesis
    by (simp add: NewCacheFallbackIter_def)
qed

text \<open>
  C33. A found provider can be lost. Where \<open>Next\<close> is not already waiting, the source is exhausted and no
  lookup is running, the results still in the buffer are never returned: whatever happens afterwards,
  however often \<open>Next\<close> is called, it adds nothing to what it has returned and takes nothing from the
  buffer. (A lookup that ends before \<open>Next\<close> reaches the end of its source leads there, with an address
  the client never sees.)
\<close>

theorem early_lookup_result_is_lost:
  assumes "slots_ok 0 others (cr_cab cs)" and "list_all wf_source src" and "list_all wf_action as"
    and "run_steps (fallback_step E origin) (NewCacheFallbackIter src others cs) as = Some s"
    and "fi_source s = []" and "fi_ongoingLookups s = 0" and "fi_consumer s \<noteq> CWait"
    and "run_steps (fallback_step E origin) s bs = Some s'"
  shows "fi_out s' = fi_out s \<and> fi_findPeersResult s' = fi_findPeersResult s"
proof -
  have "fallback_inv s" by (rule fallback_reachable(1)[OF assms(1-4)])
  with assms(5-7) have "settled s s" by (simp add: settled_start)
  then have "settled s s'" by (rule settling.inv_run[OF _ assms(8)])
  then show ?thesis by (simp add: settled_def)
qed

lemma early_lookup_result_is_lost_witness:
  "\<exists>s s'. run_steps (fallback_step sample_book_env addrQueryOriginProviders) (NewCacheFallbackIter early_src 0 sample_cr) early_run = Some s \<and>
     run_steps (fallback_step sample_book_env addrQueryOriginProviders) s [NextCall, NextExhausted] = Some s' \<and>
     \<not> fi_ctx s \<and> fi_findPeersResult s' = [sample_peer ''P'' [sample_ip]] \<and>
     ok_result (RPeer (sample_peer ''P'' [sample_ip])) \<notin> set (fi_out s')"
proof -
  obtain s where s: "run_steps (fallback_step sample_book_env addrQueryOriginProviders) (NewCacheFallbackIter early_src 0 sample_cr) early_run = Some s"
    "fi_consumer s \<noteq> CWait" "\<not> fi_ctx s" "fi_findPeersResult s = [sample_peer ''P'' [sample_ip]]"
    "fi_out s = [ok_result (RPeer (sample_peer ''Q'' [sample_ip]))]" "fi_source s = []" "fi_ongoingLookups s = 0" "fi_consumer s = CIdle"
    using early_run_result by fastforce
  let ?s' = "return_false (s\<lparr>fi_consumer := CLoop\<rparr>)"
  have more: "run_steps (fallback_step sample_book_env addrQueryOriginProviders) s [NextCall, NextExhausted] = Some ?s'"
    using s(6-8) by (simp add: fallback_step_def next_step_def)
  from early_lookup_result_is_lost[OF early_ok s(1,6,7,2) more] s more show ?thesis
    by (intro exI[of _ s] exI[of _ ?s']) (simp add: ok_result_def sample_peer_def)
qed

text \<open>
  Provider addresses feed peer routing. Once \<open>Next\<close> has returned a provider record with a public
  address, \<open>FindPeers\<close> for that peer is answered with one record holding the stored form of that
  address, whatever the wrapped router would say, and no failure is recorded against the peer.
\<close>

theorem provider_addrs_answer_FindPeers:
  assumes "addrbook_lawful (be_AB E)" and "0 < recentlyConnectedTTL (fi_cab s)" "0 < relayAddrTTL (fi_cab s)"
    and "Schema r = SchemaPeer" "ID r = Some p" "a \<in> set (Addrs r)" "manet_IsPublicAddr (be_MA E) a"
    and "ab_Stored (be_AB E) p a = Some b"
    and "s' = next_source E addrQueryOriginProviders now (ok_result (RPeer r)) s"
  shows "\<exists>rec. ID rec = Some p \<and> b \<in> set (Addrs rec) \<and>
    fst (cachedRouter_FindPeers E now' p inner (fi_state s')) = Inr [ok_result rec] \<and>
    cr_cab (snd (cachedRouter_FindPeers E now' p inner (fi_state s'))) = fi_cab s' \<and>
    peerAddrLookups (snd (cachedRouter_FindPeers E now' p inner (fi_state s'))) =
      peerAddrLookups (fi_state s') @ [(addrCacheStateHit, addrQueryOriginPeers)]"
proof -
  have ne: "Addrs r \<noteq> []" using assms(6) by auto
  have cab: "fi_cab s' = CacheAddrs E p (Addrs r) (fi_cab s)"
    using ne by (simp add: assms(4,5,9) next_source_def withAddrsFromCache_def count_lookup_def return_true_def Let_def)
  have "b \<in> stored_set (be_AB E) p (public_only E (fi_cab s) (Addrs r))"
    using assms(6-8) by (auto simp: stored_set_def public_only_def)
  moreover have "set (ab_Addrs (be_AB E) (addrBook (fi_cab s')) p) = {x. book_ttl E (fi_cab s') p x \<noteq> None}"
    by (rule ab_Addrs_set[OF assms(1)])
  ultimately have "b \<in> set (ab_Addrs (be_AB E) (addrBook (fi_cab s')) p)"
    unfolding cab using assms(2,3,6-8)
    by (auto simp: CacheAddrs_ttl[OF assms(1)] Let_def ttl_extended_def stored_set_def)
  then have b: "b \<in> set (GetCachedAddrs E (fi_cab s') p)"
    by (auto simp: GetCachedAddrs_def Let_def split: option.split)
  then have "GetCachedAddrs E (fi_cab s') p \<noteq> []" by auto
  with b show ?thesis
    by (intro exI[of _ "\<lparr>Schema = SchemaPeer, ID = Some p, Addrs = GetCachedAddrs E (fi_cab s') p, Protocols = []\<rparr>"])
      (simp add: cachedRouter_FindPeers_def FindPeers_cached_def withAddrsFromCache_def count_lookup_def Let_def)
qed

lemma provider_addrs_answer_FindPeers_witness:
  "\<exists>rec. ID rec = Some ''P'' \<and> sample_ip \<in> set (Addrs rec) \<and>
    fst (cachedRouter_FindPeers sample_book_env 9 ''P'' (Inl ErrNotFound)
      (fi_state (next_source sample_book_env addrQueryOriginProviders 5 (ok_result (RPeer (sample_peer ''P'' [sample_ip])))
        (NewCacheFallbackIter [] 0 sample_cr)))) = Inr [ok_result rec]"
proof -
  let ?s = "NewCacheFallbackIter [] 0 sample_cr :: (sample_book, peer_id \<rightharpoonup> peerState, comps) fallback_iter"
  have "0 < recentlyConnectedTTL (fi_cab ?s)" "0 < relayAddrTTL (fi_cab ?s)" "manet_IsPublicAddr (be_MA sample_book_env) sample_ip"
    "ab_Stored (be_AB sample_book_env) ''P'' sample_ip = Some sample_ip"
    "Schema (sample_peer ''P'' [sample_ip]) = SchemaPeer" "ID (sample_peer ''P'' [sample_ip]) = Some ''P''"
    "sample_ip \<in> set (Addrs (sample_peer ''P'' [sample_ip]))"
    by (simp_all add: NewCacheFallbackIter_def env_defs time_Hour_def hasPrefix_def)
  from provider_addrs_answer_FindPeers[where E = sample_book_env and s = ?s, OF _ this(1,2,5,6,7,3,4) refl]
  show ?thesis by simp blast
qed

end
