(* ===== verification/Routers.thy ===== *)
theory Routers
  imports ManyIter Rewriting
begin

text \<open>
  The routers that combine others and the one over the DHT (server_routers.go, server_dht.go):
  \<open>composableRouter\<close>, \<open>parallelRouter\<close>, \<open>libp2pRouter\<close> with \<open>peerChanIter\<close>, and \<open>bundledDHT\<close>. A
  wrapped router is the outcome of the one call made on it; where answers race, the order in which
  they arrive is a list of events.
\<close>

section \<open>composableRouter\<close>

text \<open>Each argument is the outcome of the part's call, \<open>None\<close> where the part is nil.\<close>

definition composable_FindProviders :: "(go_err + 'a list) option \<Rightarrow> go_err + 'a list" where
  "composable_FindProviders providers = (case providers of None \<Rightarrow> Inr [] | Some res \<Rightarrow> res)"

definition composable_FindPeers :: "(go_err + 'a list) option \<Rightarrow> go_err + 'a list" where
  "composable_FindPeers peers = (case peers of None \<Rightarrow> Inr [] | Some res \<Rightarrow> res)"

definition composable_GetClosestPeers :: "(go_err + 'a list) option \<Rightarrow> go_err + 'a list" where
  "composable_GetClosestPeers dht = (case dht of None \<Rightarrow> Inl ErrNotSupported | Some res \<Rightarrow> res)"

definition composable_GetIPNS :: "(go_err + 'r option) option \<Rightarrow> go_err + 'r option" where
  "composable_GetIPNS ipns = (case ipns of None \<Rightarrow> Inl ErrNotFound | Some res \<Rightarrow> res)"

definition composable_PutIPNS :: "go_err option option \<Rightarrow> go_err option" where
  "composable_PutIPNS ipns = (case ipns of None \<Rightarrow> None | Some err \<Rightarrow> err)"

definition ProvideBitswap :: "int \<times> go_err option" where
  "ProvideBitswap = (0, Some ErrNotSupported)"

section \<open>find\<close>

text \<open>The iterator \<open>find\<close> returns: one router's own, or the merge of several.\<close>

datatype 'a found = Direct "'a list" | Merged "'a manyIter"

fun find_loop :: "(go_err + 'a list) list \<Rightarrow> 'a list list \<Rightarrow> go_err option \<Rightarrow> 'a list list \<times> go_err option" where
  "find_loop [] its err = (its, err)"
| "find_loop (res # rs) its err =
     (case res of
        Inl itErr \<Rightarrow> find_loop rs its (errors_Join [err, Some itErr])
      | Inr it \<Rightarrow> find_loop rs (its @ [it]) err)"

definition find_routers :: "(go_err + 'a list) list \<Rightarrow> go_err + 'a found" where
  "find_routers routers =
     (case routers of
        [] \<Rightarrow> Inr (Direct [])
      | [r] \<Rightarrow> (case r of Inl err \<Rightarrow> Inl err | Inr it \<Rightarrow> Inr (Direct it))
      | _ \<Rightarrow>
          let (its, err) = find_loop routers [] None
          in if length its = 0 then Inl (the err) else Inr (Merged (newManyIter its)))"

section \<open>IPNS\<close>

text \<open>The \<open>ipns\<close> package: what reading a record's fields gives, an error being \<open>None\<close>.\<close>

record 'r ipns_lib =
  ip_ValidityType :: "'r \<Rightarrow> nat option"
  ip_ValidityEOL :: nat
  ip_Validity :: "'r \<Rightarrow> int option"
  ip_Unmarshal :: "string \<Rightarrow> go_err + 'r"
  ip_Marshal :: "'r \<Rightarrow> go_err + string"

definition isExpiredIPNSRecord :: "'r ipns_lib \<Rightarrow> int \<Rightarrow> 'r option \<Rightarrow> bool" where
  "isExpiredIPNSRecord I now rec =
     (case rec of
        None \<Rightarrow> False
      | Some r \<Rightarrow>
          (case ip_ValidityType I r of
             None \<Rightarrow> False
           | Some validityType \<Rightarrow>
               if validityType \<noteq> ip_ValidityEOL I then False
               else (case ip_Validity I r of
                       None \<Rightarrow> False
                     | Some validity \<Rightarrow> now > validity)))"

text \<open>
  What one receive of the loop sees: a router's answer, with the time and the error of the context at
  that moment, or the end of the context.
\<close>

datatype 'r ipns_event =
    Answer "go_err + 'r option" int "go_err option"
  | CtxEnd go_err

text \<open>\<open>None\<close> while the loop still waits for an event.\<close>

fun GetIPNS_loop ::
  "'r ipns_lib \<Rightarrow> nat \<Rightarrow> 'r ipns_event list \<Rightarrow> go_err option \<Rightarrow> (go_err + 'r option) option" where
  "GetIPNS_loop I 0 evs errs = Some (case errs of None \<Rightarrow> Inl ErrNotFound | Some e \<Rightarrow> Inl e)"
| "GetIPNS_loop I (Suc n) [] errs = None"
| "GetIPNS_loop I (Suc n) (CtxEnd e # evs) errs = Some (Inl e)"
| "GetIPNS_loop I (Suc n) (Answer res now ctxErr # evs) errs =
     (case res of
        Inr rec \<Rightarrow> if isExpiredIPNSRecord I now rec then GetIPNS_loop I n evs errs else Some (Inr rec)
      | Inl err \<Rightarrow>
          if err = ErrNotFound \<or> err = ErrNotSupported then GetIPNS_loop I n evs errs
          else (case ctxErr of
                  Some e \<Rightarrow> Some (Inl e)
                | None \<Rightarrow> GetIPNS_loop I n evs (errors_Join [errs, Some err])))"

text \<open>With one router its answer is the first event; with more, the answers race.\<close>

definition parallel_GetIPNS ::
  "'r ipns_lib \<Rightarrow> nat \<Rightarrow> 'r ipns_event list \<Rightarrow> (go_err + 'r option) option" where
  "parallel_GetIPNS I routers evs =
     (if routers = 0 then Some (Inl ErrNotFound)
      else if routers = 1 then
        (case evs of
           Answer res now ctxErr # _ \<Rightarrow>
             Some (case res of
                     Inl err \<Rightarrow> Inl err
                   | Inr rec \<Rightarrow> if isExpiredIPNSRecord I now rec then Inl ErrNotFound else Inr rec)
         | _ \<Rightarrow> None)
      else GetIPNS_loop I routers evs None)"

fun join_all :: "go_err option list \<Rightarrow> go_err option \<Rightarrow> go_err option" where
  "join_all [] errs = errs"
| "join_all (err # es) errs = join_all es (errors_Join [errs, err])"

definition parallel_PutIPNS :: "go_err option list \<Rightarrow> go_err option" where
  "parallel_PutIPNS results =
     (case results of [] \<Rightarrow> None | [err] \<Rightarrow> err | _ \<Rightarrow> join_all results None)"

section \<open>libp2pRouter\<close>

record 'ma AddrInfo =
  ai_ID :: peer_id
  ai_Addrs :: "'ma list"

definition record_of_info :: "'ma AddrInfo \<Rightarrow> 'ma PeerRecord" where
  "record_of_info info = \<lparr>Schema = SchemaPeer, ID = Some (ai_ID info), Addrs = ai_Addrs info, Protocols = []\<rparr>"

text \<open>\<open>peerChanIter\<close> over the channel's values: the cursor and what is left in the channel.\<close>

record 'ma peerChanIter =
  pc_ch :: "'ma AddrInfo list"
  pc_next :: "'ma AddrInfo option"
  pc_cancelled :: bool

definition peerChanIter_Next :: "'ma peerChanIter \<Rightarrow> bool \<times> 'ma peerChanIter" where
  "peerChanIter_Next it =
     (case pc_ch it of
        addr # rest \<Rightarrow> (True, it\<lparr>pc_ch := rest, pc_next := Some addr\<rparr>)
      | [] \<Rightarrow> (False, it\<lparr>pc_next := None\<rparr>))"

definition peerChanIter_Val :: "'ma peerChanIter \<Rightarrow> 'ma Record option" where
  "peerChanIter_Val it =
     (case pc_next it of None \<Rightarrow> None | Some info \<Rightarrow> Some (RPeer (record_of_info info)))"

definition peerChanIter_Close :: "'ma peerChanIter \<Rightarrow> 'ma peerChanIter" where
  "peerChanIter_Close it = it\<lparr>pc_cancelled := True\<rparr>"

text \<open>Reading an iterator to its end, with fuel for the values the channel holds.\<close>

fun read_chan :: "nat \<Rightarrow> 'ma peerChanIter \<Rightarrow> 'ma Record option list" where
  "read_chan 0 it = []"
| "read_chan (Suc n) it =
     (let (more, it1) = peerChanIter_Next it
      in if more then peerChanIter_Val it1 # read_chan n it1 else [])"

definition libp2p_FindProviders :: "'ma AddrInfo list \<Rightarrow> 'ma peerChanIter" where
  "libp2p_FindProviders ch = \<lparr>pc_ch = ch, pc_next = None, pc_cancelled = False\<rparr>"

definition libp2p_FindPeers :: "go_err + 'ma AddrInfo \<Rightarrow> go_err + 'ma PeerRecord result list" where
  "libp2p_FindPeers found =
     (case found of Inl err \<Rightarrow> Inl err | Inr addr \<Rightarrow> Inr [ok_result (record_of_info addr)])"

text \<open>
  The DHT clients \<open>GetClosestPeers\<close> tells apart; each carries its answer to the query. The bundled one
  asks its accelerated client once that is ready and its standard one until then.
\<close>

datatype dht_client =
    DualDHT "(go_err + peer_id list) option"
  | FullRT "go_err + peer_id list"
  | IpfsDHT "go_err + peer_id list"
  | BundledDHT bool "go_err + peer_id list" "go_err + peer_id list"
  | OtherRouting

definition bundled_getDHT :: "bool \<Rightarrow> 'a \<Rightarrow> 'a \<Rightarrow> 'a" where
  "bundled_getDHT ready fullRT standard = (if ready then fullRT else standard)"

definition bundled_Close :: "go_err option \<Rightarrow> go_err option \<Rightarrow> go_err option" where
  "bundled_Close fullRT standard = errors_Join [fullRT, standard]"

definition libp2p_GetClosestPeers ::
  "bool \<Rightarrow> dht_client \<Rightarrow> (peer_id \<Rightarrow> 'ma list) \<Rightarrow> go_err + 'ma PeerRecord result list" where
  "libp2p_GetClosestPeers keyUndef client peerstore =
     (if keyUndef then Inl (ErrText ''GetClosestPeers: key is undefined'')
      else
        let peers =
              (case client of
                 DualDHT None \<Rightarrow> Inl (ErrText ''GetClosestPeers not supported: WAN DHT is not available'')
               | DualDHT (Some wan) \<Rightarrow> wan
               | FullRT res \<Rightarrow> res
               | IpfsDHT res \<Rightarrow> res
               | BundledDHT ready fullRT standard \<Rightarrow> bundled_getDHT ready fullRT standard
               | OtherRouting \<Rightarrow> Inl (ErrText ''cannot call GetClosestPeers on DHT implementation''))
        in case peers of
             Inl err \<Rightarrow> Inl err
           | Inr ps \<Rightarrow> Inr (map (\<lambda>p. ok_result \<lparr>Schema = SchemaPeer, ID = Some p, Addrs = peerstore p, Protocols = []\<rparr>) ps))"

definition libp2p_GetIPNS :: "'r ipns_lib \<Rightarrow> go_err + string \<Rightarrow> go_err + 'r option" where
  "libp2p_GetIPNS I value =
     (case value of
        Inl err \<Rightarrow> Inl err
      | Inr raw \<Rightarrow> (case ip_Unmarshal I raw of Inl err \<Rightarrow> Inl err | Inr r \<Rightarrow> Inr (Some r)))"

text \<open>\<open>put\<close> is the DHT's \<open>PutValue\<close> for the name's routing key.\<close>

definition libp2p_PutIPNS :: "'r ipns_lib \<Rightarrow> (string \<Rightarrow> go_err option) \<Rightarrow> 'r \<Rightarrow> go_err option" where
  "libp2p_PutIPNS I put rec = (case ip_Marshal I rec of Inl err \<Rightarrow> Some err | Inr raw \<Rightarrow> put raw)"

section \<open>Lemmas\<close>

lemma leaves_Join2 [simp]: "leaves_opt (errors_Join [a, b]) = leaves_opt a @ leaves_opt b"
  by (simp add: leaves_errors_Join)

lemma leaves_Some [simp]: "leaves_opt (Some e) = err_leaves e" "leaves_opt None = []"
  by (simp_all add: leaves_opt_def)

text \<open>The iterators and the errors among the outcomes.\<close>

definition oks :: "(go_err + 'a) list \<Rightarrow> 'a list" where
  "oks rs = concat (map (\<lambda>r. case r of Inl _ \<Rightarrow> [] | Inr x \<Rightarrow> [x]) rs)"

definition errs :: "(go_err + 'a) list \<Rightarrow> go_err list" where
  "errs rs = concat (map (\<lambda>r. case r of Inl e \<Rightarrow> [e] | Inr _ \<Rightarrow> []) rs)"

lemma oks_errs_simps [simp]:
  "oks [] = []" "oks (Inl e # rs) = oks rs" "oks (Inr x # rs) = x # oks rs"
  "errs [] = []" "errs (Inl e # rs) = e # errs rs" "errs (Inr x # rs) = errs rs"
  by (simp_all add: oks_def errs_def)

lemma find_loop_eq:
  "fst (find_loop rs its err) = its @ oks rs"
  "leaves_opt (snd (find_loop rs its err)) = leaves_opt err @ concat (map err_leaves (errs rs))"
  "snd (find_loop rs its err) = None \<longleftrightarrow> err = None \<and> errs rs = []"
  by (induction rs its err rule: find_loop.induct) (auto split: sum.splits)

lemma join_all_eq:
  "leaves_opt (join_all es e) = leaves_opt e @ concat (map leaves_opt es)"
  "join_all es e = None \<longleftrightarrow> e = None \<and> (\<forall>x \<in> set es. x = None)"
  by (induction es e rule: join_all.induct) auto

text \<open>An answer that decides the race, and one that leaves an error behind.\<close>

definition usable :: "'r ipns_lib \<Rightarrow> 'r ipns_event \<Rightarrow> bool" where
  "usable I ev = (case ev of Answer (Inr rec) now c \<Rightarrow> \<not> isExpiredIPNSRecord I now rec | _ \<Rightarrow> False)"

definition hard_errors :: "'r ipns_event list \<Rightarrow> go_err list" where
  "hard_errors evs = concat (map (\<lambda>ev. case ev of
     Answer (Inl e) now c \<Rightarrow> if e = ErrNotFound \<or> e = ErrNotSupported then [] else [e] | _ \<Rightarrow> []) evs)"

definition plain_answer :: "'r ipns_event \<Rightarrow> bool" where
  "plain_answer ev = (case ev of Answer res now None \<Rightarrow> True | _ \<Rightarrow> False)"

lemma usable_simps [simp]:
  "\<not> usable I (Answer (Inl e) now c)" "usable I (Answer (Inr rec) now c) = (\<not> isExpiredIPNSRecord I now rec)"
  by (simp_all add: usable_def)

lemma hard_errors_simps [simp]:
  "hard_errors [] = []"
  "hard_errors (Answer (Inr rec) now c # evs) = hard_errors evs"
  "hard_errors (Answer (Inl e) now c # evs) =
     (if e = ErrNotFound \<or> e = ErrNotSupported then hard_errors evs else e # hard_errors evs)"
  by (simp_all add: hard_errors_def)

lemma GetIPNS_loop_eq:
  assumes "list_all plain_answer evs"
  shows "GetIPNS_loop I (length evs) evs errs0 =
    (case List.find (usable I) evs of
       Some (Answer res now c) \<Rightarrow> Some res
     | _ \<Rightarrow> Some (case join_all (map Some (hard_errors evs)) errs0 of None \<Rightarrow> Inl ErrNotFound | Some e \<Rightarrow> Inl e))"
  using assms
proof (induction evs arbitrary: errs0)
  case Nil
  then show ?case by simp
next
  case (Cons ev evs)
  then obtain res now where ev: "ev = Answer res now None"
    by (cases ev) (auto simp: plain_answer_def split: option.splits)
  show ?case
  proof (cases res)
    case (Inl e)
    with Cons ev show ?thesis
      by (cases "e = ErrNotFound \<or> e = ErrNotSupported") (simp_all cong: option.case_cong ipns_event.case_cong)
  next
    case (Inr rec)
    with Cons ev show ?thesis by (simp cong: option.case_cong ipns_event.case_cong)
  qed
qed

lemma find_usable: "List.find (usable I) evs = Some ev \<Longrightarrow> \<exists>rec now c. ev = Answer (Inr rec) now c \<and> \<not> isExpiredIPNSRecord I now rec"
proof -
  assume "List.find (usable I) evs = Some ev"
  then have "usable I ev" by (auto simp: find_Some_iff)
  then show ?thesis by (cases ev) (auto simp: usable_def split: sum.splits)
qed

lemma find_usable_none: "List.find (usable I) evs = None \<longleftrightarrow> \<not> list_ex (usable I) evs"
  by (auto simp: find_None_iff list_ex_iff)

section \<open>Properties\<close>

text \<open>
  The IPNS race, with two or more routers that all answer while the request lives. The result is the
  first record to arrive that has not expired; an expired one never wins. Without one the error says
  not found, unless some router failed otherwise: then it is made of exactly those failures, in order
  of arrival.
\<close>

theorem parallel_GetIPNS_race:
  assumes "2 \<le> length evs" and "list_all plain_answer evs"
  shows "case List.find (usable I) evs of
      Some ev \<Rightarrow> \<exists>rec now c. ev = Answer (Inr rec) now c \<and> \<not> isExpiredIPNSRecord I now rec \<and>
                  parallel_GetIPNS I (length evs) evs = Some (Inr rec)
    | None \<Rightarrow> \<exists>e. parallel_GetIPNS I (length evs) evs = Some (Inl e) \<and>
                (if hard_errors evs = [] then e = ErrNotFound
                 else err_leaves e = concat (map err_leaves (hard_errors evs)))"
proof -
  have run: "parallel_GetIPNS I (length evs) evs = GetIPNS_loop I (length evs) evs None"
    using assms(1) by (simp add: parallel_GetIPNS_def)
  show ?thesis
  proof (cases "List.find (usable I) evs")
    case None
    let ?errs = "join_all (map Some (hard_errors evs)) None"
    have l: "leaves_opt ?errs = concat (map err_leaves (hard_errors evs))"
      unfolding join_all_eq(1) by (simp add: comp_def)
    have n: "?errs = None \<longleftrightarrow> hard_errors evs = []"
      unfolding join_all_eq(2) by (cases "hard_errors evs") auto
    show ?thesis
      using None l n unfolding run GetIPNS_loop_eq[OF assms(2)] by (cases ?errs) auto
  next
    case (Some ev)
    with find_usable[OF Some] show ?thesis
      unfolding run GetIPNS_loop_eq[OF assms(2)] by auto
  qed
qed

definition sample_ipns :: "int ipns_lib" where
  "sample_ipns = \<lparr>ip_ValidityType = (\<lambda>r. Some 0), ip_ValidityEOL = 0, ip_Validity = Some,
     ip_Unmarshal = (\<lambda>s. Inr 0), ip_Marshal = (\<lambda>r. Inr [])\<rparr>"

lemma parallel_GetIPNS_race_witness:
  "parallel_GetIPNS sample_ipns 2 [Answer (Inr (Some 5)) 9 None, Answer (Inr (Some 20)) 10 None] = Some (Inr (Some 20))"
  using parallel_GetIPNS_race[of "[Answer (Inr (Some 5)) 9 None, Answer (Inr (Some 20)) 10 None]" sample_ipns]
  by (simp add: plain_answer_def isExpiredIPNSRecord_def sample_ipns_def numeral_2_eq_2)

text \<open>
  Publishing fails exactly when some router failed, with an error made of every router's failures in
  the order of the routers; it never succeeds by losing one.
\<close>

theorem parallel_PutIPNS_errors:
  "(parallel_PutIPNS results = None \<longleftrightarrow> list_all (\<lambda>r. r = None) results) \<and>
   leaves_opt (parallel_PutIPNS results) = concat (map leaves_opt results)"
proof (cases results rule: remdups_adj.cases)
  case (3 x y xs)
  have "(join_all results None = None) = list_all (\<lambda>r. r = None) results"
    unfolding join_all_eq(2) list_all_iff by simp
  moreover have "leaves_opt (join_all results None) = concat (map leaves_opt results)"
    unfolding join_all_eq(1) by simp
  ultimately show ?thesis using 3 by (simp add: parallel_PutIPNS_def del: join_all.simps)
qed (simp_all add: parallel_PutIPNS_def)

text \<open>
  \<open>find\<close> fails exactly when there are routers and every one of them failed, with an error made of
  all their failures; otherwise a router that failed is left out and what \<open>Next\<close> can have yielded when
  it reports the end is, per remaining router, exactly that router's results in order.
\<close>

theorem find_merges_the_successful:
  "case find_routers rs of
     Inl e \<Rightarrow> rs \<noteq> [] \<and> oks rs = [] \<and> err_leaves e = concat (map err_leaves (errs rs))
   | Inr (Direct it) \<Rightarrow> rs = [] \<and> it = [] \<or> rs = [Inr it]
   | Inr (Merged mi) \<Rightarrow> oks rs \<noteq> [] \<and> list_all (\<lambda>as. case run_steps many_step mi as of
       None \<Rightarrow> True
     | Some s \<Rightarrow> mi_done s \<and> \<not> mi_ctx s \<longrightarrow> map (\<lambda>i. received i s) [0..<length (oks rs)] = oks rs) ass"
proof (cases rs rule: remdups_adj.cases)
  case (2 r)
  then show ?thesis by (cases r) (simp_all add: find_routers_def)
next
  case (3 x y xs)
  define l where "l = find_loop rs [] None"
  have l: "fst l = oks rs" "leaves_opt (snd l) = concat (map err_leaves (errs rs))"
    "snd l = None \<longleftrightarrow> errs rs = []"
    by (simp_all add: l_def find_loop_eq)
  have run: "find_routers rs = (if length (fst l) = 0 then Inl (the (snd l)) else Inr (Merged (newManyIter (fst l))))"
    using 3 by (simp add: find_routers_def l_def case_prod_beta Let_def del: find_loop.simps)
  show ?thesis
  proof (cases "oks rs = []")
    case True
    have "errs rs \<noteq> []" using True 3 by (cases x) auto
    with True 3 l run show ?thesis by auto
  next
    case False
    have "map (\<lambda>i. received i s) [0..<length (oks rs)] = oks rs"
      if "run_steps many_step (newManyIter (oks rs)) as = Some s" "mi_done s" "\<not> mi_ctx s" for as s
      using manyIter_received[OF that] by (intro nth_equalityI) auto
    with False run l(1) show ?thesis by (auto simp: list_all_iff split: option.split)
  qed
qed (simp add: find_routers_def)

lemma find_merges_the_successful_witness:
  "map (\<lambda>i. received i (the (run_steps many_step (newManyIter [''a'', ''b'']) sample_merge))) [0..<2] = [''a'', ''b'']"
  using find_merges_the_successful[where rs = "[Inr ''a'', Inl ErrNotFound, Inr ''b'']" and ass = "[sample_merge]"]
  by (simp add: find_routers_def sample_merge_run errors_Join_def List.map_filter_simps numeral_2_eq_2)

end
