(* ===== verification/Endpoints.thy ===== *)
theory Endpoints
  imports Prelude
begin

text \<open>
  The delegated routing endpoints: validation, normalisation, expansion and deduplication of the URLs
  (autoconf.go) and the collection of one HTTP client per base URL (server_delegated_routing.go). The
  \<open>autoconf\<close> package is a record of parameters: its constants and the expansion of the placeholder.
\<close>

section \<open>Configuration\<close>

record autoconf_lib =
  ac_AutoPlaceholder :: string
  ac_ProvidersPath :: string
  ac_PeersPath :: string
  ac_IPNSPath :: string
  ac_SystemAminoDHT :: string
  ac_Expand :: "string list \<Rightarrow> string list \<Rightarrow> string \<Rightarrow> string list"

record config =
  dhtType :: string
  contentEndpoints :: "string list"
  peerEndpoints :: "string list"
  ipnsEndpoints :: "string list"
  autoConf_enabled :: bool

section \<open>Validation and normalisation\<close>

definition routingPaths :: "autoconf_lib \<Rightarrow> string list" where
  "routingPaths A = [ac_ProvidersPath A, ac_PeersPath A, ac_IPNSPath A]"

definition normalizeEndpointURL :: "autoconf_lib \<Rightarrow> string \<Rightarrow> string \<Rightarrow> go_err + string" where
  "normalizeEndpointURL A url expectedPath =
     (if url = ac_AutoPlaceholder A then Inr url
      else let (before, ok) = cutSuffix url expectedPath
           in if ok then Inr before
              else if list_ex (hasSuffix url) (routingPaths A)
                   then Inl (ErrText ''URL has a path which does not match its flag'')
              else Inr url)"

fun validateEndpointURLs :: "autoconf_lib \<Rightarrow> string list \<Rightarrow> string \<Rightarrow> string \<Rightarrow> go_err + string list" where
  "validateEndpointURLs A [] expectedPath envVar = Inr []"
| "validateEndpointURLs A (url # urls) expectedPath envVar =
     (case normalizeEndpointURL A url expectedPath of
        Inl err \<Rightarrow> Inl (ErrWrap envVar err)
      | Inr baseURL \<Rightarrow>
          (case validateEndpointURLs A urls expectedPath envVar of
             Inl err \<Rightarrow> Inl err
           | Inr rest \<Rightarrow> Inr (baseURL # rest)))"

text \<open>\<open>slices.Sort\<close> and \<open>slices.Compact\<close>.\<close>

definition deduplicateEndpoints :: "string list \<Rightarrow> string list" where
  "deduplicateEndpoints endpoints =
     (if length endpoints = 0 then endpoints else remdups_adj (sort endpoints))"

definition stripRoutingPaths :: "string list \<Rightarrow> string \<Rightarrow> string list" where
  "stripRoutingPaths urls expectedPath =
     deduplicateEndpoints (map (\<lambda>url. trimSuffix (trimSuffix url ''/'') expectedPath) urls)"

definition getNativeSystems :: "autoconf_lib \<Rightarrow> string \<Rightarrow> string list" where
  "getNativeSystems A routingType =
     (if routingType = ''dht'' \<or> routingType = ''accelerated'' \<or> routingType = ''standard'' \<or> routingType = ''auto''
      then [ac_SystemAminoDHT A]
      else [])"

definition expandDelegatedRoutingEndpoints :: "autoconf_lib \<Rightarrow> 'z config_scheme \<Rightarrow> go_err + 'z config_scheme" where
  "expandDelegatedRoutingEndpoints A cfg =
     (case validateEndpointURLs A (contentEndpoints cfg) (ac_ProvidersPath A) ''SOMEGUY_PROVIDER_ENDPOINTS'' of
        Inl err \<Rightarrow> Inl err
      | Inr providers \<Rightarrow>
     (case validateEndpointURLs A (peerEndpoints cfg) (ac_PeersPath A) ''SOMEGUY_PEER_ENDPOINTS'' of
        Inl err \<Rightarrow> Inl err
      | Inr peers \<Rightarrow>
     (case validateEndpointURLs A (ipnsEndpoints cfg) (ac_IPNSPath A) ''SOMEGUY_IPNS_ENDPOINTS'' of
        Inl err \<Rightarrow> Inl err
      | Inr ipns \<Rightarrow>
          if \<not> autoConf_enabled cfg then
            (if ac_AutoPlaceholder A \<in> set providers \<or> ac_AutoPlaceholder A \<in> set peers \<or>
                ac_AutoPlaceholder A \<in> set ipns
             then Inl (ErrText ''auto placeholder found in endpoint option but autoconf is disabled'')
             else Inr (cfg\<lparr>contentEndpoints := deduplicateEndpoints providers,
                           peerEndpoints := deduplicateEndpoints peers,
                           ipnsEndpoints := deduplicateEndpoints ipns\<rparr>))
          else
            let nativeSystems = getNativeSystems A (dhtType cfg);
                expandedProviders = ac_Expand A providers nativeSystems (ac_ProvidersPath A);
                expandedPeers = ac_Expand A peers nativeSystems (ac_PeersPath A);
                expandedIPNS = ac_Expand A ipns nativeSystems (ac_IPNSPath A)
            in Inr (cfg\<lparr>contentEndpoints := stripRoutingPaths expandedProviders (ac_ProvidersPath A),
                        peerEndpoints := stripRoutingPaths expandedPeers (ac_PeersPath A),
                        ipnsEndpoints := stripRoutingPaths expandedIPNS (ac_IPNSPath A)\<rparr>))))"

section \<open>One client per base URL\<close>

record endpointConfig =
  baseURL :: string
  providers :: bool
  peers :: bool
  ipns :: bool

text \<open>
  The map from base URL to capabilities, as the list of its entries. The code ranges over a Go map, whose
  order is not specified: \<open>createDelegatedHTTPRouters\<close> takes the order as its parameter \<open>map_order\<close>.
\<close>

definition new_endpoint :: "string \<Rightarrow> endpointConfig" where
  "new_endpoint url = \<lparr>baseURL = url, providers = False, peers = False, ipns = False\<rparr>"

fun add_capability ::
  "(endpointConfig \<Rightarrow> endpointConfig) \<Rightarrow> string \<Rightarrow> endpointConfig list \<Rightarrow> endpointConfig list" where
  "add_capability grant url [] = [grant (new_endpoint url)]"
| "add_capability grant url (e # es) =
     (if baseURL e = url then grant e # es else e # add_capability grant url es)"

fun collect_urls ::
  "(endpointConfig \<Rightarrow> endpointConfig) \<Rightarrow> string list \<Rightarrow> endpointConfig list \<Rightarrow> endpointConfig list" where
  "collect_urls grant [] es = es"
| "collect_urls grant (url # urls) es =
     (if url = [] then collect_urls grant urls es
      else collect_urls grant urls (add_capability grant url es))"

definition collectEndpoints :: "'z config_scheme \<Rightarrow> endpointConfig list" where
  "collectEndpoints cfg =
     (let c1 = collect_urls (\<lambda>e. e\<lparr>providers := True\<rparr>) (contentEndpoints cfg) [];
          c2 = collect_urls (\<lambda>e. e\<lparr>peers := True\<rparr>) (peerEndpoints cfg) c1
      in collect_urls (\<lambda>e. e\<lparr>ipns := True\<rparr>) (ipnsEndpoints cfg) c2)"

text \<open>
  The client of a URL and its adaptation to the router interface, which drops the limit; \<open>new\<close> is the
  constructor of the boxo client, \<open>call\<close> one of its two lookups.
\<close>

record client_options =
  cp_UserAgent :: string
  cp_ProtocolFilter :: "string list"
  cp_DisabledLocalFiltering :: bool

definition newDelegatedRoutingClient :: "(string \<Rightarrow> client_options \<Rightarrow> go_err + 'cl) \<Rightarrow> string \<Rightarrow> string \<Rightarrow> go_err + 'cl" where
  "newDelegatedRoutingClient new version ep =
     new ep \<lparr>cp_UserAgent = ''someguy/'' @ version, cp_ProtocolFilter = [], cp_DisabledLocalFiltering = True\<rparr>"

definition clientRouter_FindProviders :: "('k \<Rightarrow> 'a) \<Rightarrow> 'k \<Rightarrow> int \<Rightarrow> 'a" where
  "clientRouter_FindProviders call key limit = call key"

definition clientRouter_FindPeers :: "('k \<Rightarrow> 'a) \<Rightarrow> 'k \<Rightarrow> int \<Rightarrow> 'a" where
  "clientRouter_FindPeers call pid limit = call pid"

text \<open>
  \<open>new_client\<close> is \<open>newDelegatedRoutingClient\<close>, \<open>register\<close> the error of registering the metric views.
\<close>

fun create_routers ::
  "(string \<Rightarrow> go_err + 'cl) \<Rightarrow> endpointConfig list \<Rightarrow> go_err + 'cl list \<times> 'cl list \<times> 'cl list" where
  "create_routers new_client [] = Inr ([], [], [])"
| "create_routers new_client (e # es) =
     (case new_client (baseURL e) of
        Inl err \<Rightarrow> Inl err
      | Inr router \<Rightarrow>
          (case create_routers new_client es of
             Inl err \<Rightarrow> Inl err
           | Inr (ps, qs, is) \<Rightarrow>
               Inr ((if providers e then [router] else []) @ ps, (if peers e then [router] else []) @ qs,
                    (if ipns e then [router] else []) @ is)))"

definition createDelegatedHTTPRouters ::
  "(string \<Rightarrow> go_err + 'cl) \<Rightarrow> go_err option \<Rightarrow> (endpointConfig list \<Rightarrow> endpointConfig list) \<Rightarrow> 'z config_scheme
     \<Rightarrow> go_err + 'cl list \<times> 'cl list \<times> 'cl list" where
  "createDelegatedHTTPRouters new_client register map_order cfg =
     (case create_routers new_client (map_order (collectEndpoints cfg)) of
        Inl err \<Rightarrow> Inl err
      | Inr (ps, qs, is) \<Rightarrow>
          (if length ps > 0 \<or> length qs > 0 \<or> length is > 0
           then (case register of Some err \<Rightarrow> Inl (ErrWrap ''registering HTTP delegated routing views'' err)
                 | None \<Rightarrow> Inr (ps, qs, is))
           else Inr (ps, qs, is)))"

section \<open>Normalisation, summed up\<close>

text \<open>A URL that names another endpoint's path, and the base URL of any other.\<close>

definition mismatched :: "autoconf_lib \<Rightarrow> string \<Rightarrow> string \<Rightarrow> bool" where
  "mismatched A path url \<longleftrightarrow> url \<noteq> ac_AutoPlaceholder A \<and> \<not> hasSuffix url path \<and> list_ex (hasSuffix url) (routingPaths A)"

definition base_of :: "autoconf_lib \<Rightarrow> string \<Rightarrow> string \<Rightarrow> string" where
  "base_of A path url = (if url = ac_AutoPlaceholder A then url else trimSuffix url path)"

lemma normalizeEndpointURL_eq:
  "(case normalizeEndpointURL A url path of Inl e \<Rightarrow> mismatched A path url
    | Inr b \<Rightarrow> \<not> mismatched A path url \<and> b = base_of A path url)"
  by (auto simp: normalizeEndpointURL_def mismatched_def base_of_def cutSuffix_def trimSuffix_def)

lemma validateEndpointURLs_eq:
  "(case validateEndpointURLs A urls path env of Inl e \<Rightarrow> list_ex (mismatched A path) urls
    | Inr bs \<Rightarrow> \<not> list_ex (mismatched A path) urls \<and> bs = map (base_of A path) urls)"
proof (induction urls)
  case (Cons url urls)
  then show ?case
    using normalizeEndpointURL_eq[where A = A and url = url and path = path] by (auto split: sum.splits)
qed simp

lemma validateEndpointURLs_cases:
  "validateEndpointURLs A urls path env =
     (if list_ex (mismatched A path) urls then Inl (projl (validateEndpointURLs A urls path env))
      else Inr (map (base_of A path) urls))"
  using validateEndpointURLs_eq[where A = A and urls = urls and path = path and env = env] by (auto split: sum.splits)

lemma dedup_set [simp]: "set (deduplicateEndpoints us) = set us"
  by (simp add: deduplicateEndpoints_def)

lemma strict_remdups_adj: "sorted xs \<Longrightarrow> sorted_wrt (<) (remdups_adj xs)"
  by (induction xs rule: remdups_adj.induct) (auto simp: order_le_less)

text \<open>Sorted without repetition: the one such list with these elements.\<close>

lemma dedup_strict: "sorted_wrt (<) (deduplicateEndpoints us)"
  by (auto simp: deduplicateEndpoints_def intro: strict_remdups_adj)

lemma dedup_eq_iff: "deduplicateEndpoints us = ds \<longleftrightarrow> sorted_wrt (<) ds \<and> set ds = set us"
  using dedup_strict[of us] strict_sorted_equal[of "deduplicateEndpoints us" ds] by auto

section \<open>Capabilities\<close>

definition cap_of :: "(endpointConfig \<Rightarrow> 'a) \<Rightarrow> endpointConfig list \<Rightarrow> string \<Rightarrow> 'a option" where
  "cap_of f es url = map_option f (List.find (\<lambda>e. baseURL e = url) es)"

lemma add_capability_urls:
  assumes "\<And>e. baseURL (grant e) = baseURL e"
  shows "set (map baseURL (add_capability grant url es)) = insert url (set (map baseURL es))"
    and "distinct (map baseURL es) \<Longrightarrow> distinct (map baseURL (add_capability grant url es))"
proof -
  show urls: "set (map baseURL (add_capability grant url es)) = insert url (set (map baseURL es))" for es
    by (induction es) (auto simp: assms new_endpoint_def)
  show "distinct (map baseURL es) \<Longrightarrow> distinct (map baseURL (add_capability grant url es))"
  proof (induction es)
    case (Cons e es)
    then show ?case using urls[of es] by (auto simp: assms)
  qed (simp)
qed

text \<open>
  \<open>entries P Q R es\<close>: every entry grants what \<open>P\<close>, \<open>Q\<close> and \<open>R\<close> say of its URL, the URLs are distinct,
  and they are those of which one of the three holds.
\<close>

definition entries ::
  "(string \<Rightarrow> bool) \<Rightarrow> (string \<Rightarrow> bool) \<Rightarrow> (string \<Rightarrow> bool) \<Rightarrow> endpointConfig list \<Rightarrow> bool" where
  "entries P Q R es \<longleftrightarrow> distinct (map baseURL es) \<and> baseURL ` set es = {u. P u \<or> Q u \<or> R u} \<and>
     (\<forall>e \<in> set es. providers e = P (baseURL e) \<and> peers e = Q (baseURL e) \<and> ipns e = R (baseURL e))"

lemma add_capability_mem:
  assumes "\<And>e. baseURL (grant e) = baseURL e" and "distinct (map baseURL es)"
  shows "e \<in> set (add_capability grant url es) \<longleftrightarrow>
    (e \<in> set es \<and> baseURL e \<noteq> url) \<or> (\<exists>d \<in> set es. baseURL d = url \<and> e = grant d) \<or>
    (url \<notin> baseURL ` set es \<and> e = grant (new_endpoint url))"
  using assms(2)
proof (induction es)
  case Nil
  then show ?case by simp
next
  case (Cons d es)
  then show ?case by (auto simp: image_iff)
qed

text \<open>A grant that sets the capabilities \<open>a\<close>, \<open>b\<close> and \<open>c\<close>.\<close>

lemma grant_entries:
  assumes ent: "entries P Q R es" and url: "\<And>e. baseURL (grant e) = baseURL e" and some: "a \<or> b \<or> c"
    and cap: "\<And>e. providers (grant e) = (providers e \<or> a)" "\<And>e. peers (grant e) = (peers e \<or> b)"
      "\<And>e. ipns (grant e) = (ipns e \<or> c)"
  shows "entries (\<lambda>u. P u \<or> a \<and> u = url) (\<lambda>u. Q u \<or> b \<and> u = url) (\<lambda>u. R u \<or> c \<and> u = url)
    (add_capability grant url es)"
proof -
  have d: "distinct (map baseURL es)" and urls: "baseURL ` set es = {u. P u \<or> Q u \<or> R u}"
    and caps: "\<And>e. e \<in> set es \<Longrightarrow> providers e = P (baseURL e) \<and> peers e = Q (baseURL e) \<and> ipns e = R (baseURL e)"
    using ent by (auto simp: entries_def)
  have absent: "url \<notin> baseURL ` set es \<Longrightarrow> \<not> P url \<and> \<not> Q url \<and> \<not> R url" unfolding urls by simp
  have "baseURL ` set (add_capability grant url es) = insert url (baseURL ` set es)"
    using add_capability_urls(1)[OF url, of url es] by simp
  also have "\<dots> = {u. (P u \<or> a \<and> u = url) \<or> (Q u \<or> b \<and> u = url) \<or> (R u \<or> c \<and> u = url)}"
    unfolding urls using some by auto
  finally have set_eq: "baseURL ` set (add_capability grant url es) =
    {u. (P u \<or> a \<and> u = url) \<or> (Q u \<or> b \<and> u = url) \<or> (R u \<or> c \<and> u = url)}" .
  have "providers e = (P (baseURL e) \<or> a \<and> baseURL e = url) \<and> peers e = (Q (baseURL e) \<or> b \<and> baseURL e = url) \<and>
      ipns e = (R (baseURL e) \<or> c \<and> baseURL e = url)" if "e \<in> set (add_capability grant url es)" for e
    using that unfolding add_capability_mem[OF url d]
  proof (elim disjE)
    assume "e \<in> set es \<and> baseURL e \<noteq> url"
    with caps[of e] show ?thesis by simp
  next
    assume "\<exists>d \<in> set es. baseURL d = url \<and> e = grant d"
    then obtain x where "x \<in> set es" "baseURL x = url" "e = grant x" by blast
    with caps[of x] show ?thesis by (simp add: url cap)
  next
    assume "url \<notin> baseURL ` set es \<and> e = grant (new_endpoint url)"
    with absent show ?thesis by (simp add: url cap new_endpoint_def)
  qed
  then show ?thesis
    using add_capability_urls(2)[OF url d, of url] set_eq by (simp add: entries_def)
qed

lemma add_capability_entries:
  assumes "entries P Q R es"
  shows "entries (\<lambda>u. P u \<or> u = url) Q R (add_capability (\<lambda>e. e\<lparr>providers := True\<rparr>) url es)"
    and "entries P (\<lambda>u. Q u \<or> u = url) R (add_capability (\<lambda>e. e\<lparr>peers := True\<rparr>) url es)"
    and "entries P Q (\<lambda>u. R u \<or> u = url) (add_capability (\<lambda>e. e\<lparr>ipns := True\<rparr>) url es)"
  using grant_entries[OF assms, where grant = "\<lambda>e. e\<lparr>providers := True\<rparr>" and url = url and a = True and b = False and c = False]
    grant_entries[OF assms, where grant = "\<lambda>e. e\<lparr>peers := True\<rparr>" and url = url and a = False and b = True and c = False]
    grant_entries[OF assms, where grant = "\<lambda>e. e\<lparr>ipns := True\<rparr>" and url = url and a = False and b = False and c = True]
  by simp_all

lemma collect_urls_entries:
  assumes "entries P Q R es"
  shows "entries (\<lambda>u. P u \<or> u \<noteq> [] \<and> u \<in> set urls) Q R (collect_urls (\<lambda>e. e\<lparr>providers := True\<rparr>) urls es)"
    and "entries P (\<lambda>u. Q u \<or> u \<noteq> [] \<and> u \<in> set urls) R (collect_urls (\<lambda>e. e\<lparr>peers := True\<rparr>) urls es)"
    and "entries P Q (\<lambda>u. R u \<or> u \<noteq> [] \<and> u \<in> set urls) (collect_urls (\<lambda>e. e\<lparr>ipns := True\<rparr>) urls es)"
proof -
  have same: "entries P' Q' R' es' \<Longrightarrow> P' = P'' \<Longrightarrow> Q' = Q'' \<Longrightarrow> R' = R'' \<Longrightarrow> entries P'' Q'' R'' es'"
    for P' Q' R' P'' Q'' R'' es' by simp
  show "entries (\<lambda>u. P u \<or> u \<noteq> [] \<and> u \<in> set urls) Q R (collect_urls (\<lambda>e. e\<lparr>providers := True\<rparr>) urls es)"
    using assms
  proof (induction urls arbitrary: P es)
    case (Cons url urls)
    from Cons.IH[OF Cons.prems] Cons.IH[OF add_capability_entries(1)[OF Cons.prems, of url]]
    show ?case by (cases "url = []") (auto elim!: same simp: fun_eq_iff)
  qed simp
  show "entries P (\<lambda>u. Q u \<or> u \<noteq> [] \<and> u \<in> set urls) R (collect_urls (\<lambda>e. e\<lparr>peers := True\<rparr>) urls es)"
    using assms
  proof (induction urls arbitrary: Q es)
    case (Cons url urls)
    from Cons.IH[OF Cons.prems] Cons.IH[OF add_capability_entries(2)[OF Cons.prems, of url]]
    show ?case by (cases "url = []") (auto elim!: same simp: fun_eq_iff)
  qed simp
  show "entries P Q (\<lambda>u. R u \<or> u \<noteq> [] \<and> u \<in> set urls) (collect_urls (\<lambda>e. e\<lparr>ipns := True\<rparr>) urls es)"
    using assms
  proof (induction urls arbitrary: R es)
    case (Cons url urls)
    from Cons.IH[OF Cons.prems] Cons.IH[OF add_capability_entries(3)[OF Cons.prems, of url]]
    show ?case by (cases "url = []") (auto elim!: same simp: fun_eq_iff)
  qed simp
qed

lemma collectEndpoints_entries:
  "entries (\<lambda>u. u \<noteq> [] \<and> u \<in> set (contentEndpoints cfg)) (\<lambda>u. u \<noteq> [] \<and> u \<in> set (peerEndpoints cfg))
     (\<lambda>u. u \<noteq> [] \<and> u \<in> set (ipnsEndpoints cfg)) (collectEndpoints cfg)"
proof -
  have "entries (\<lambda>u. False) (\<lambda>u. False) (\<lambda>u. False) []" by (simp add: entries_def)
  from collect_urls_entries(3)[OF collect_urls_entries(2)[OF collect_urls_entries(1)[OF this]]]
  show ?thesis by (simp add: collectEndpoints_def Let_def)
qed

lemma create_routers_eq:
  "create_routers new_client es = Inr (ps, qs, is) \<longleftrightarrow>
     list_all (\<lambda>e. \<not> isl (new_client (baseURL e))) es \<and>
     ps = map (\<lambda>e. projr (new_client (baseURL e))) (filter providers es) \<and>
     qs = map (\<lambda>e. projr (new_client (baseURL e))) (filter peers es) \<and>
     is = map (\<lambda>e. projr (new_client (baseURL e))) (filter ipns es)"
proof (induction es arbitrary: ps qs "is")
  case (Cons e es)
  show ?case
  proof (cases "new_client (baseURL e)")
    case (Inr c)
    show ?thesis
    proof (cases "create_routers new_client es")
      case (Inl err)
      with Cons.IH have "\<not> list_all (\<lambda>e. \<not> isl (new_client (baseURL e))) es" by fastforce
      with Inr Inl show ?thesis by simp
    next
      case inr: (Inr r)
      obtain ps' qs' is' where r: "r = (ps', qs', is')" by (cases r)
      from Cons.IH[of ps' qs' is'] inr r Inr show ?thesis by auto
    qed
  qed simp
qed auto

lemma create_routers_error:
  "create_routers new_client es = Inl e \<Longrightarrow> \<exists>d \<in> set es. new_client (baseURL d) = Inl e"
  by (induction es) (auto split: sum.splits)

lemma entries_mset: "entries P Q R es \<Longrightarrow> mset es' = mset es \<Longrightarrow> entries P Q R es'"
  using mset_eq_imp_distinct_iff[of "map baseURL es'" "map baseURL es"]
  by (auto simp: entries_def dest: mset_eq_setD)

lemma entries_capability:
  assumes "entries P Q R es"
  shows "distinct (map baseURL (filter providers es))" "set (map baseURL (filter providers es)) = {u. P u}"
    and "distinct (map baseURL (filter peers es))" "set (map baseURL (filter peers es)) = {u. Q u}"
    and "distinct (map baseURL (filter ipns es))" "set (map baseURL (filter ipns es)) = {u. R u}"
proof -
  have d: "distinct (map baseURL (filter f es))" for f
    using assms by (simp add: entries_def distinct_map_filter)
  show "distinct (map baseURL (filter providers es))" "distinct (map baseURL (filter peers es))"
    "distinct (map baseURL (filter ipns es))" by (rule d)+
  have urls: "baseURL ` set es = {u. P u \<or> Q u \<or> R u}"
    and caps: "\<And>e. e \<in> set es \<Longrightarrow> providers e = P (baseURL e) \<and> peers e = Q (baseURL e) \<and> ipns e = R (baseURL e)"
    using assms by (auto simp: entries_def)
  have "u \<in> baseURL ` set es" if "P u \<or> Q u \<or> R u" for u using that unfolding urls by simp
  then show "set (map baseURL (filter providers es)) = {u. P u}" "set (map baseURL (filter peers es)) = {u. Q u}"
    "set (map baseURL (filter ipns es)) = {u. R u}" using caps by (auto simp: image_iff)
qed

lemma set_nonempty_strings: "{u. u \<noteq> [] \<and> u \<in> set us} = set us - {[]}"
  by auto

section \<open>Properties\<close>

text \<open>
  Endpoint configuration without autoconf. It is accepted exactly when no URL ends in the path of
  another endpoint and none is, or strips down to, the placeholder; then each of the three lists
  holds the base URLs of the configured ones, every one once, in order.
\<close>

theorem endpoints_without_autoconf:
  assumes "\<not> autoConf_enabled cfg"
  shows "let cs = map (base_of A (ac_ProvidersPath A)) (contentEndpoints cfg);
             ps = map (base_of A (ac_PeersPath A)) (peerEndpoints cfg);
             is = map (base_of A (ac_IPNSPath A)) (ipnsEndpoints cfg);
             bad = list_ex (mismatched A (ac_ProvidersPath A)) (contentEndpoints cfg) \<or>
                   list_ex (mismatched A (ac_PeersPath A)) (peerEndpoints cfg) \<or>
                   list_ex (mismatched A (ac_IPNSPath A)) (ipnsEndpoints cfg) \<or>
                   ac_AutoPlaceholder A \<in> set (cs @ ps @ is)
         in case expandDelegatedRoutingEndpoints A cfg of
              Inl e \<Rightarrow> bad
            | Inr cfg' \<Rightarrow> \<not> bad \<and>
                sorted_wrt (<) (contentEndpoints cfg') \<and> set (contentEndpoints cfg') = set cs \<and>
                sorted_wrt (<) (peerEndpoints cfg') \<and> set (peerEndpoints cfg') = set ps \<and>
                sorted_wrt (<) (ipnsEndpoints cfg') \<and> set (ipnsEndpoints cfg') = set is"
proof -
  define c where "c = validateEndpointURLs A (contentEndpoints cfg) (ac_ProvidersPath A) ''SOMEGUY_PROVIDER_ENDPOINTS''"
  define p where "p = validateEndpointURLs A (peerEndpoints cfg) (ac_PeersPath A) ''SOMEGUY_PEER_ENDPOINTS''"
  define i where "i = validateEndpointURLs A (ipnsEndpoints cfg) (ac_IPNSPath A) ''SOMEGUY_IPNS_ENDPOINTS''"
  note eqs = validateEndpointURLs_eq[where A = A and urls = "contentEndpoints cfg" and path = "ac_ProvidersPath A"
      and env = "''SOMEGUY_PROVIDER_ENDPOINTS''", folded c_def]
    validateEndpointURLs_eq[where A = A and urls = "peerEndpoints cfg" and path = "ac_PeersPath A"
      and env = "''SOMEGUY_PEER_ENDPOINTS''", folded p_def]
    validateEndpointURLs_eq[where A = A and urls = "ipnsEndpoints cfg" and path = "ac_IPNSPath A"
      and env = "''SOMEGUY_IPNS_ENDPOINTS''", folded i_def]
  show ?thesis
    unfolding expandDelegatedRoutingEndpoints_def c_def[symmetric] p_def[symmetric] i_def[symmetric] Let_def
    using eqs assms
    by (cases c; cases p; cases i) (auto simp: dedup_strict)
qed

definition sample_autoconf :: autoconf_lib where
  "sample_autoconf = \<lparr>ac_AutoPlaceholder = ''auto'', ac_ProvidersPath = ''/routing/v1/providers'',
     ac_PeersPath = ''/routing/v1/peers'', ac_IPNSPath = ''/routing/v1/ipns'', ac_SystemAminoDHT = ''AminoDHT'',
     ac_Expand = (\<lambda>urls native path. urls)\<rparr>"

definition sample_config :: config where
  "sample_config = \<lparr>dhtType = ''standard'', contentEndpoints = [''x/routing/v1/providers'', ''x''],
     peerEndpoints = [], ipnsEndpoints = [], autoConf_enabled = False\<rparr>"

lemma endpoints_without_autoconf_witness:
  "case expandDelegatedRoutingEndpoints sample_autoconf sample_config of
     Inl e \<Rightarrow> False | Inr cfg' \<Rightarrow> set (contentEndpoints cfg') = {''x''}"
proof -
  have "\<not> autoConf_enabled sample_config" by (simp add: sample_config_def)
  from endpoints_without_autoconf[OF this, of sample_autoconf] show ?thesis
    by (auto simp: sample_config_def sample_autoconf_def mismatched_def base_of_def routingPaths_def hasSuffix_def
        trimSuffix_def cutSuffix_def Let_def split: sum.splits)
qed

text \<open>
  A trailing slash is treated differently by the two ways a URL can take. \<open>stripRoutingPaths\<close>, on the
  way with autoconf, reduces \<open>base + path + "/"\<close> to \<open>base\<close>; validation, which is the only treatment
  without autoconf, takes the same URL for a base URL and keeps its routing path, whichever endpoint's
  path it is.
\<close>

theorem trailing_slash_keeps_path:
  assumes "hasSuffix path ''/'' = False" "path \<noteq> []" "expected \<noteq> []" "hasSuffix expected ''/'' = False"
    and "list_all (\<lambda>p. p \<noteq> [] \<and> \<not> hasSuffix p ''/'') (routingPaths A)"
  shows "normalizeEndpointURL A (base @ path @ ''/'') expected = Inr (base @ path @ ''/'') \<and>
    stripRoutingPaths [base @ path @ ''/''] path = [base]"
proof -
  have no: "\<not> hasSuffix (base @ path @ ''/'') p" if "p \<noteq> []" "\<not> hasSuffix p ''/''" for p
  proof
    assume "hasSuffix (base @ path @ ''/'') p"
    then obtain b where "base @ path @ ''/'' = b @ p" by (auto simp: hasSuffix_iff)
    then have "last p = CHR ''/''" using that(1) by (metis append_assoc last_appendR last_snoc append_is_Nil_conv not_Cons_self2)
    then have "p = butlast p @ ''/''" using that(1) by (metis append_butlast_last_id)
    with that(2) show False by (metis hasSuffix_append)
  qed
  have "cutSuffix (base @ path @ ''/'') expected = (base @ path @ ''/'', False)"
    using no[of expected] assms(3,4) by (simp add: cutSuffix_def)
  moreover have "\<not> list_ex (hasSuffix (base @ path @ ''/'')) (routingPaths A)"
    using no assms(5) by (auto simp: list_ex_iff list_all_iff)
  ultimately have "normalizeEndpointURL A (base @ path @ ''/'') expected = Inr (base @ path @ ''/'')"
    by (simp add: normalizeEndpointURL_def)
  moreover have "trimSuffix (base @ path @ ''/'') ''/'' = base @ path"
    using trimSuffix_append[of "base @ path" "''/''"] by simp
  ultimately show ?thesis by (simp add: stripRoutingPaths_def deduplicateEndpoints_def)
qed

lemma trailing_slash_keeps_path_witness:
  "normalizeEndpointURL sample_autoconf (''https://x'' @ ''/routing/v1/peers'' @ ''/'') ''/routing/v1/providers''
     = Inr (''https://x'' @ ''/routing/v1/peers'' @ ''/'')"
  by (rule trailing_slash_keeps_path[THEN conjunct1])
    (simp_all add: sample_autoconf_def routingPaths_def hasSuffix_def)

text \<open>
  One HTTP client per base URL, in whatever order the map is traversed. The call fails exactly when
  the client of some configured URL cannot be made, with the error of such a URL, or when there is a URL
  and the views cannot be registered. Otherwise each router list holds one router for every non-empty URL
  of its endpoint list, and a URL's router is the same client in all three lists.
\<close>

theorem createDelegatedHTTPRouters_spec:
  assumes "mset (map_order (collectEndpoints cfg)) = mset (collectEndpoints cfg)"
  shows "let urls = (set (contentEndpoints cfg) \<union> set (peerEndpoints cfg) \<union> set (ipnsEndpoints cfg)) - {[]}
    in case createDelegatedHTTPRouters new_client register map_order cfg of
      Inl e \<Rightarrow> (\<exists>u. u \<in> urls \<and> new_client u = Inl e) \<or>
        (\<exists>err. register = Some err \<and> e = ErrWrap ''registering HTTP delegated routing views'' err \<and>
          urls \<noteq> {} \<and> (\<forall>u \<in> urls. \<not> isl (new_client u)))
    | Inr (ps, qs, is) \<Rightarrow> (\<forall>u \<in> urls. \<not> isl (new_client u)) \<and> (register = None \<or> urls = {}) \<and> (\<exists>cs us vs.
        ps = map (projr \<circ> new_client) cs \<and> distinct cs \<and> set cs = set (contentEndpoints cfg) - {[]} \<and>
        qs = map (projr \<circ> new_client) us \<and> distinct us \<and> set us = set (peerEndpoints cfg) - {[]} \<and>
        is = map (projr \<circ> new_client) vs \<and> distinct vs \<and> set vs = set (ipnsEndpoints cfg) - {[]})"
proof -
  let ?es = "map_order (collectEndpoints cfg)"
  let ?urls = "(set (contentEndpoints cfg) \<union> set (peerEndpoints cfg) \<union> set (ipnsEndpoints cfg)) - {[]}"
  have ent: "entries (\<lambda>u. u \<noteq> [] \<and> u \<in> set (contentEndpoints cfg)) (\<lambda>u. u \<noteq> [] \<and> u \<in> set (peerEndpoints cfg))
     (\<lambda>u. u \<noteq> [] \<and> u \<in> set (ipnsEndpoints cfg)) ?es"
    by (rule entries_mset[OF collectEndpoints_entries assms])
  then have urls: "baseURL ` set ?es = ?urls" by (auto simp: entries_def)
  note caps = entries_capability[OF ent]
  show ?thesis
  proof (cases "create_routers new_client ?es")
    case (Inl e)
    then show ?thesis using create_routers_error[OF Inl] urls
      by (auto simp: createDelegatedHTTPRouters_def Let_def)
  next
    case (Inr r)
    obtain ps qs is' where r: "r = (ps, qs, is')" by (cases r)
    from Inr r have "list_all (\<lambda>e. \<not> isl (new_client (baseURL e))) ?es"
      by (simp add: create_routers_eq)
    then have all: "\<forall>u \<in> ?urls. \<not> isl (new_client u)"
      unfolding urls[symmetric] by (simp add: list_all_iff)
    from Inr r have "ps = map (projr \<circ> new_client) (map baseURL (filter providers ?es))"
      "qs = map (projr \<circ> new_client) (map baseURL (filter peers ?es))"
      "is' = map (projr \<circ> new_client) (map baseURL (filter ipns ?es))"
      by (simp_all add: create_routers_eq comp_def)
    with caps obtain cs us vs where
      cs: "ps = map (projr \<circ> new_client) cs" "distinct cs" "set cs = set (contentEndpoints cfg) - {[]}" and
      us: "qs = map (projr \<circ> new_client) us" "distinct us" "set us = set (peerEndpoints cfg) - {[]}" and
      vs: "is' = map (projr \<circ> new_client) vs" "distinct vs" "set vs = set (ipnsEndpoints cfg) - {[]}"
      unfolding set_nonempty_strings by blast
    have "?urls = set cs \<union> set us \<union> set vs" unfolding cs us vs by blast
    then have "?urls = {} \<longleftrightarrow> ps = [] \<and> qs = [] \<and> is' = []" by (auto simp: cs(1) us(1) vs(1))
    moreover have "\<exists>cs us vs.
        ps = map (projr \<circ> new_client) cs \<and> distinct cs \<and> set cs = set (contentEndpoints cfg) - {[]} \<and>
        qs = map (projr \<circ> new_client) us \<and> distinct us \<and> set us = set (peerEndpoints cfg) - {[]} \<and>
        is' = map (projr \<circ> new_client) vs \<and> distinct vs \<and> set vs = set (ipnsEndpoints cfg) - {[]}"
      using cs us vs by blast
    ultimately show ?thesis using Inr r all
      by (cases register) (auto simp: createDelegatedHTTPRouters_def Let_def simp del: Un_empty Diff_eq_empty_iff)
  qed
qed

definition sample_client :: "string \<Rightarrow> go_err + string" where
  "sample_client u = (if u = ''bad'' then Inl (ErrText ''bad url'') else Inr u)"

lemma createDelegatedHTTPRouters_spec_witness:
  "case createDelegatedHTTPRouters sample_client None rev (sample_config\<lparr>peerEndpoints := [''x'', [], ''bad'']\<rparr>) of
     Inl e \<Rightarrow> e = ErrText ''bad url'' | Inr (ps, qs, is) \<Rightarrow> False"
  using createDelegatedHTTPRouters_spec[where map_order = rev and new_client = sample_client and register = None
      and cfg = "sample_config\<lparr>peerEndpoints := [''x'', [], ''bad'']\<rparr>"]
  by (auto simp: Let_def sample_client_def sample_config_def isl_def split: sum.splits if_splits)

end
