(* ===== verification/HttpBlock.thy ===== *)
theory HttpBlock
  imports Rewriting
begin

text \<open>
  The router over an HTTP trustless gateway (http_block_router.go): the validation of its endpoint, the
  multiaddr it advertises, and its one query. What \<open>net/url\<close>, \<open>net\<close> and the multiaddr package make of a
  text are parameters; the decimal conversions of \<open>strconv\<close> and \<open>fmt\<close> are modelled.
\<close>

section \<open>Decimal numbers\<close>

definition is_digit :: "char \<Rightarrow> bool" where
  "is_digit c \<longleftrightarrow> 48 \<le> (of_char c :: nat) \<and> (of_char c :: nat) \<le> 57"

definition digits_val :: "string \<Rightarrow> nat" where
  "digits_val ds = foldl (\<lambda>n c. 10 * n + (of_char c - 48)) 0 ds"

text \<open>\<open>strconv.Atoi\<close> with a 64-bit \<open>int\<close>.\<close>

definition Atoi :: "string \<Rightarrow> go_err + int" where
  "Atoi s =
     (let (neg, ds) = (case s of
                         c # r \<Rightarrow> if c = CHR ''-'' then (True, r) else if c = CHR ''+'' then (False, r) else (False, s)
                       | [] \<Rightarrow> (False, s));
          v = (if neg then - int (digits_val ds) else int (digits_val ds))
      in if ds = [] \<or> \<not> list_all is_digit ds then Inl (ErrText ''invalid syntax'')
         else if v < - (2 ^ 63) \<or> 2 ^ 63 - 1 < v then Inl (ErrText ''value out of range'')
         else Inr v)"

text \<open>The verb \<open>%d\<close>.\<close>

fun nat_str :: "nat \<Rightarrow> string" where
  "nat_str n = (if n < 10 then [char_of (48 + n)] else nat_str (n div 10) @ [char_of (48 + n mod 10)])"

declare nat_str.simps [simp del]

definition fmt_d :: "int \<Rightarrow> string" where
  "fmt_d i = (if i < 0 then ''-'' @ nat_str (nat (- i)) else nat_str (nat i))"

lemma digit_char: "n < 10 \<Longrightarrow> of_char (char_of (48 + n)) = (48 + n :: nat)"
  by (simp add: of_char_of take_bit_eq_mod)

lemma nat_str_digits: "list_all is_digit (nat_str n) \<and> nat_str n \<noteq> [] \<and> digits_val (nat_str n) = n"
proof (induction n rule: nat_str.induct)
  case (1 n)
  show ?case
  proof (cases "n < 10")
    case True
    then show ?thesis by (simp add: nat_str.simps digit_char is_digit_def digits_val_def)
  next
    case False
    with 1 have "list_all is_digit (nat_str (n div 10))" "digits_val (nat_str (n div 10)) = n div 10" by auto
    with False show ?thesis
      by (subst (1 2 3) nat_str.simps) (simp add: digit_char is_digit_def digits_val_def)
  qed
qed

lemma nat_str_hd: "\<exists>c r. nat_str n = c # r \<and> c \<noteq> CHR ''-'' \<and> c \<noteq> CHR ''+''"
proof -
  obtain c r where n: "nat_str n = c # r" using nat_str_digits[of n] by (cases "nat_str n") auto
  moreover have "is_digit c" using nat_str_digits[of n] n by simp
  then have "c \<noteq> CHR ''-'' \<and> c \<noteq> CHR ''+''" by (auto simp: is_digit_def)
  ultimately show ?thesis by blast
qed

section \<open>Construction\<close>

record url =
  u_Scheme :: string
  u_Hostname :: string
  u_Port :: string
  u_EscapedPath :: string

text \<open>
  \<open>url.Parse\<close>, whether \<open>net.ParseIP\<close> finds an address, \<open>multiaddr.NewMultiaddr\<close>, and \<open>$DEBUG\<close>.
\<close>

record 'ma http_lib =
  hl_Parse :: "string \<Rightarrow> go_err + url"
  hl_isIP :: "string \<Rightarrow> bool"
  hl_NewMultiaddr :: "string \<Rightarrow> go_err + 'ma"
  hl_DEBUG :: string

text \<open>Of the HTTP client the code sets its timeout, here in nanoseconds.\<close>

record 'ma httpBlockRouter =
  endpoint :: string
  endpointMa :: 'ma
  hb_peerID :: peer_id
  clientTimeout :: nat

definition httpBlockRouterTimeout :: nat where "httpBlockRouterTimeout = 5 * 10 ^ 9"

definition hostComponent :: "'ma http_lib \<Rightarrow> string \<Rightarrow> string" where
  "hostComponent L h =
     (if \<not> hl_isIP L h then ''dns'' else if CHR '':'' \<in> set h then ''ip6'' else ''ip4'')"

definition endpoint_port :: "url \<Rightarrow> go_err + int" where
  "endpoint_port u =
     (if u_Port u \<noteq> [] then
        (case Atoi (u_Port u) of Inl err \<Rightarrow> Inl (ErrWrap ''invalid port'' err) | Inr p \<Rightarrow> Inr p)
      else if u_Scheme u = ''https'' then Inr 443
      else Inr 80)"

definition endpointMaStr :: "'ma http_lib \<Rightarrow> url \<Rightarrow> int \<Rightarrow> string" where
  "endpointMaStr L u port =
     ''/'' @ hostComponent L (u_Hostname u) @ ''/'' @ u_Hostname u @ ''/tcp/'' @ fmt_d port @
     (if u_Scheme u = ''https'' then ''/tls'' else []) @ ''/http''"

definition newHTTPBlockRouter ::
  "'ma http_lib \<Rightarrow> string \<Rightarrow> peer_id \<Rightarrow> nat option \<Rightarrow> go_err + 'ma httpBlockRouter" where
  "newHTTPBlockRouter L ep p client =
     (let timeout = (case client of None \<Rightarrow> httpBlockRouterTimeout | Some t \<Rightarrow> t);
          timeout1 = (if timeout = 0 then httpBlockRouterTimeout else timeout)
      in case hl_Parse L ep of
           Inl err \<Rightarrow> Inl (ErrWrap ''failed to parse endpoint'' err)
         | Inr u \<Rightarrow>
             if u_Scheme u \<noteq> ''http'' \<and> u_Scheme u \<noteq> ''https'' then Inl (ErrText ''unsupported scheme'')
             else
               (case endpoint_port u of
                  Inl err \<Rightarrow> Inl err
                | Inr port \<Rightarrow>
                    if u_Scheme u \<noteq> ''https'' \<and> hl_DEBUG L \<noteq> ''true''
                    then Inl (ErrText ''only HTTPS providers are allowed'')
                    else if u_EscapedPath u \<noteq> [] \<and> u_EscapedPath u \<noteq> ''/''
                    then Inl (ErrText ''only URLs without path are supported'')
                    else
                      (case hl_NewMultiaddr L (endpointMaStr L u port) of
                         Inl err \<Rightarrow> Inl (ErrWrap ''failed to parse endpoint'' err)
                       | Inr a \<Rightarrow> Inr \<lparr>endpoint = ep, endpointMa = a, hb_peerID = p, clientTimeout = timeout1\<rparr>)))"

text \<open>\<open>response\<close> is the HEAD request: an error, or its status code.\<close>

definition httpBlock_record :: "'ma httpBlockRouter \<Rightarrow> 'ma Record result" where
  "httpBlock_record h =
     ok_result (RPeer \<lparr>Schema = SchemaPeer, ID = Some (hb_peerID h), Addrs = [endpointMa h],
                       Protocols = [''transport-ipfs-gateway-http'']\<rparr>)"

definition httpBlock_FindProviders ::
  "'ma httpBlockRouter \<Rightarrow> go_err option \<Rightarrow> go_err + nat \<Rightarrow> go_err + 'ma Record result list" where
  "httpBlock_FindProviders h newRequest response =
     (case newRequest of
        Some err \<Rightarrow> Inl err
      | None \<Rightarrow> if response = Inr 200 then Inr [httpBlock_record h] else Inr [])"

lemma httpBlock_never_reports_transport:
  "httpBlock_FindProviders h None response = Inr its \<Longrightarrow> its = [] \<or> its = [httpBlock_record h] \<and> response = Inr 200"
  by (auto simp: httpBlock_FindProviders_def split: if_splits)

text \<open>What \<open>%d\<close> prints of a port, or any other \<open>int\<close>, \<open>Atoi\<close> reads back.\<close>

lemma Atoi_fmt_d:
  assumes "- (2 ^ 63) \<le> i" "i < 2 ^ 63"
  shows "Atoi (fmt_d i) = Inr i"
proof (cases "i < 0")
  case True
  with assms nat_str_digits[of "nat (- i)"] show ?thesis by (simp add: Atoi_def fmt_d_def)
next
  case False
  obtain c r where "nat_str (nat i) = c # r" "c \<noteq> CHR ''-''" "c \<noteq> CHR ''+''" using nat_str_hd by blast
  with False assms nat_str_digits[of "nat i"] show ?thesis by (auto simp: Atoi_def fmt_d_def)
qed

section \<open>The client and the request\<close>

text \<open>What the code sets of an HTTP client; \<open>version\<close> is \<open>buildVersion()\<close>.\<close>

record http_client =
  hc_Timeout :: nat
  hc_InsecureSkipVerify :: bool
  hc_LimitBytes :: nat
  hc_UserAgent :: string

definition defaultHTTPBlockRouterClient :: "string \<Rightarrow> bool \<Rightarrow> http_client" where
  "defaultHTTPBlockRouterClient version insecureSkipVerify =
     \<lparr>hc_Timeout = httpBlockRouterTimeout, hc_InsecureSkipVerify = insecureSkipVerify, hc_LimitBytes = 2 ^ 12,
      hc_UserAgent = ''someguy/'' @ version\<rparr>"

lemma default_client_timeout:
  "newHTTPBlockRouter L ep p None = newHTTPBlockRouter L ep p (Some (hc_Timeout (defaultHTTPBlockRouterClient version False)))"
  by (simp add: newHTTPBlockRouter_def defaultHTTPBlockRouterClient_def Let_def)

record head_request =
  hq_Method :: string
  hq_URL :: string
  hq_Accept :: string

definition httpBlock_request :: "'ma httpBlockRouter \<Rightarrow> string \<Rightarrow> head_request" where
  "httpBlock_request h c =
     \<lparr>hq_Method = ''HEAD'', hq_URL = endpoint h @ ''/ipfs/'' @ c @ ''?format=raw'', hq_Accept = ''application/vnd.ipld.raw''\<rparr>"

text \<open>\<open>newRequest\<close> is the check of the URL, \<open>exchange\<close> the client's \<open>Do\<close> within its timeout.\<close>

definition httpBlock_lookup ::
  "(string \<Rightarrow> go_err option) \<Rightarrow> (nat \<Rightarrow> head_request \<Rightarrow> go_err + nat) \<Rightarrow> 'ma httpBlockRouter \<Rightarrow> string \<Rightarrow>
     go_err + 'ma Record result list" where
  "httpBlock_lookup newRequest exchange h c =
     (let req = httpBlock_request h c
      in httpBlock_FindProviders h (newRequest (hq_URL req)) (exchange (clientTimeout h) req))"

text \<open>
  An endpoint given with a trailing slash is accepted, its path being \<open>/\<close>, and kept with the slash, so
  that every request for a block goes to a path with an empty first segment.
\<close>

lemma trailing_slash_doubles:
  assumes "hl_Parse L (b @ ''/'') = Inr u" "u_Scheme u = ''https''" "u_Port u = []" "u_EscapedPath u = ''/''"
    and "hl_NewMultiaddr L (endpointMaStr L u 443) = Inr a"
  shows "\<exists>h. newHTTPBlockRouter L (b @ ''/'') p None = Inr h \<and>
    hq_URL (httpBlock_request h c) = b @ ''//ipfs/'' @ c @ ''?format=raw''"
  using assms by (simp add: newHTTPBlockRouter_def endpoint_port_def httpBlock_request_def Let_def)

section \<open>Properties\<close>

text \<open>
  Which endpoints are accepted. The constructor succeeds exactly for a URL without a path whose
  scheme is \<open>https\<close>, or \<open>http\<close> when \<open>DEBUG\<close> is \<open>true\<close>, whose port is a number if it has one, and whose
  multiaddr is valid; the router then carries the given peer and that multiaddr, with \<open>/tls\<close> exactly
  for \<open>https\<close> and the scheme's port by default, and its client always has a timeout.
\<close>

theorem newHTTPBlockRouter_spec:
  "(newHTTPBlockRouter L ep p client = Inr r) = (\<exists>u port.
     hl_Parse L ep = Inr u \<and> (u_Scheme u = ''https'' \<or> u_Scheme u = ''http'' \<and> hl_DEBUG L = ''true'') \<and>
     (u_EscapedPath u = [] \<or> u_EscapedPath u = ''/'') \<and>
     (if u_Port u = [] then port = (if u_Scheme u = ''https'' then 443 else 80) else Atoi (u_Port u) = Inr port) \<and>
     hl_NewMultiaddr L (endpointMaStr L u port) = Inr (endpointMa r) \<and>
     endpoint r = ep \<and> hb_peerID r = p \<and>
     clientTimeout r = (if client = None \<or> client = Some 0 then 5 * 10 ^ 9 else the client))"
proof (cases "hl_Parse L ep")
  case (Inr u)
  define https http where "https = (u_Scheme u = ''https'')" and "http = (u_Scheme u = ''http'')"
  define debug path where "debug = (hl_DEBUG L = ''true'')" and "path = (u_EscapedPath u = [] \<or> u_EscapedPath u = ''/'')"
  define t where "t = (if client = None \<or> client = Some 0 then 5 * 10 ^ 9 else the client)"
  note folds = t_def[symmetric] https_def[symmetric] http_def[symmetric] debug_def[symmetric] path_def[symmetric]
  have new: "newHTTPBlockRouter L ep p client =
    (if \<not> http \<and> \<not> https then Inl (ErrText ''unsupported scheme'')
     else case endpoint_port u of Inl err \<Rightarrow> Inl err
       | Inr port \<Rightarrow>
         if \<not> https \<and> \<not> debug then Inl (ErrText ''only HTTPS providers are allowed'')
         else if \<not> path then Inl (ErrText ''only URLs without path are supported'')
         else (case hl_NewMultiaddr L (endpointMaStr L u port) of
             Inl err \<Rightarrow> Inl (ErrWrap ''failed to parse endpoint'' err)
           | Inr a \<Rightarrow> Inr \<lparr>endpoint = ep, endpointMa = a, hb_peerID = p, clientTimeout = t\<rparr>))"
  proof -
    have t_eq: "(if (case client of None \<Rightarrow> httpBlockRouterTimeout | Some t \<Rightarrow> t) = 0 then httpBlockRouterTimeout
        else (case client of None \<Rightarrow> httpBlockRouterTimeout | Some t \<Rightarrow> t)) = t"
      by (cases client) (simp_all add: t_def httpBlockRouterTimeout_def)
    have path_eq: "(u_EscapedPath u \<noteq> [] \<and> u_EscapedPath u \<noteq> ''/'') = (\<not> path)" unfolding path_def by blast
    show ?thesis
      unfolding newHTTPBlockRouter_def Let_def t_eq Inr sum.case path_eq https_def http_def debug_def by (rule refl)
  qed
  have port: "(if u_Port u = [] then q = (if https then 443 else 80) else Atoi (u_Port u) = Inr q) = (endpoint_port u = Inr q)" for q
    unfolding endpoint_port_def https_def[symmetric] by (cases "Atoi (u_Port u)") auto
  have "(newHTTPBlockRouter L ep p client = Inr r) = (\<exists>port. (https \<or> http \<and> debug) \<and> path \<and> endpoint_port u = Inr port \<and>
      hl_NewMultiaddr L (endpointMaStr L u port) = Inr (endpointMa r) \<and> endpoint r = ep \<and> hb_peerID r = p \<and> clientTimeout r = t)"
    unfolding new by (cases r) (auto split: sum.split)
  moreover have one: "(\<exists>ua q. Inr u = (Inr ua :: go_err + url) \<and> F ua q) = (\<exists>q. F u q)" for F :: "url \<Rightarrow> int \<Rightarrow> bool"
    by simp
  ultimately show ?thesis
    unfolding Inr one folds port by simp
qed (simp add: newHTTPBlockRouter_def)

end
