(* ===== verification/Server.thy ===== *)
theory Server
  imports AddrBook DnsMode Endpoints HttpBlock
begin

text \<open>
  The assembly of the server (server.go, and the action of the \<open>start\<close> command in main.go): the checks of
  the flags, the choice of the DHT client, the options of the address book, the block routers, and the
  tree of routers behind each endpoint. The outcome of every constructor that is not in this repository
  is a field of \<open>start_env\<close>. A router here is the tree of wrappers around its backends; what a wrapper
  does to a response is modelled in \<open>Rewriting\<close>, \<open>CachedRouter\<close> and \<open>Routers\<close>.
\<close>

section \<open>Configuration\<close>

record server_config = config +
  cachedAddrBookOn :: bool
  cachedAddrBookActiveProbing :: bool
  cachedAddrBookRecentTTL :: int
  cachedAddrBookMaxFindPeers :: int
  routingTimeout :: int
  dnsAddrResolution :: DNSAddrResolution
  recordsLimit :: int
  streamingRecordsLimit :: int
  blockProviderEndpoints :: "string list"
  blockProviderPeerIDs :: "string list"

text \<open>
  The \<open>start\<close> action: \<open>cfg\<close> holds the values of the flags and \<open>synthetic\<close> is the peer ID derived from
  the hash of an endpoint.
\<close>

fun generate_ids :: "(string \<Rightarrow> go_err + string) \<Rightarrow> string list \<Rightarrow> go_err + string list" where
  "generate_ids synthetic [] = Inr []"
| "generate_ids synthetic (ep # eps) =
     (case synthetic ep of
        Inl err \<Rightarrow> Inl err
      | Inr p \<Rightarrow> (case generate_ids synthetic eps of Inl err \<Rightarrow> Inl err | Inr ps \<Rightarrow> Inr (p # ps)))"

definition start_action :: "(string \<Rightarrow> go_err + string) \<Rightarrow> server_config \<Rightarrow> go_err + server_config" where
  "start_action synthetic cfg =
     (if recordsLimit cfg < 0 then Inl (ErrText ''records-limit must be non-negative'')
      else if streamingRecordsLimit cfg < 0 then Inl (ErrText ''streaming-records-limit must be non-negative'')
      else
        (case ParseDNSAddrResolution (dnsAddrResolution cfg) of
           Inl err \<Rightarrow> Inl err
         | Inr mode \<Rightarrow>
             let cfg1 = cfg\<lparr>dnsAddrResolution := mode\<rparr>
             in if length (blockProviderEndpoints cfg1) > 0 \<and> length (blockProviderPeerIDs cfg1) = 0 then
                  (case generate_ids synthetic (blockProviderEndpoints cfg1) of
                     Inl err \<Rightarrow> Inl err
                   | Inr ps \<Rightarrow> Inr (cfg1\<lparr>blockProviderPeerIDs := ps\<rparr>))
                else Inr cfg1))"

section \<open>Routers\<close>

datatype ('cl, 'ma) router =
    Libp2pRouter
  | ClientRouter 'cl
  | BlockRouter "'ma httpBlockRouter"
  | CachedRouter "('cl, 'ma) router"
  | SanitizeRouter "('cl, 'ma) router"
  | DnsAddrRouter DNSAddrResolution "('cl, 'ma) router"
  | ParallelRouter "('cl, 'ma) router list"
  | ComposableRouter "('cl, 'ma) router option" "('cl, 'ma) router option" "('cl, 'ma) router option" "('cl, 'ma) router option"

definition withDNSAddrResolution ::
  "('cl, 'ma) router \<Rightarrow> bool \<Rightarrow> DNSAddrResolution \<Rightarrow> ('cl, 'ma) router" where
  "withDNSAddrResolution r resolver mode =
     (if \<not> resolver \<or> mode = DNSAddrResolutionNever then r else DnsAddrRouter mode r)"

text \<open>\<open>dht\<close> and \<open>book\<close> are whether the DHT client and the address book are there.\<close>

definition combineRouters ::
  "bool \<Rightarrow> bool \<Rightarrow> ('cl, 'ma) router list \<Rightarrow> ('cl, 'ma) router list \<Rightarrow> bool \<Rightarrow> DNSAddrResolution \<Rightarrow> ('cl, 'ma) router" where
  "combineRouters dht book delegatedRouters additionalRouters dnsAddr dnsAddrMode =
     (let dhtRouter =
            (if book then Some (SanitizeRouter (CachedRouter Libp2pRouter))
             else if dht then Some (SanitizeRouter Libp2pRouter)
             else None)
      in if length delegatedRouters = 0 \<and> length additionalRouters = 0 then
           (case dhtRouter of
              None \<Rightarrow> ComposableRouter None None None None
            | Some r \<Rightarrow> withDNSAddrResolution r dnsAddr dnsAddrMode)
         else
           let routers = delegatedRouters @ (case dhtRouter of None \<Rightarrow> [] | Some r \<Rightarrow> [r]) @ additionalRouters
           in withDNSAddrResolution (ParallelRouter routers) dnsAddr dnsAddrMode)"

section \<open>The start of the server\<close>

record ('ab, 'c, 'ma, 'env, 'cl) start_env =
  se_newHost :: "go_err option"
  se_autoconf :: autoconf_lib
  se_bundledDHT :: "go_err option"
  se_standardDHT :: "go_err option"
  se_book :: "('ab, 'c, 'ma, 'env) book_env"
  se_newLRU :: "go_err + 'c"
  se_peerstore :: 'ab
  se_Decode :: "string \<Rightarrow> go_err + peer_id"
  se_http :: "'ma http_lib"
  se_newClient :: "string \<Rightarrow> go_err + 'cl"
  se_register :: "go_err option"
  se_map_order :: "endpointConfig list \<Rightarrow> endpointConfig list"
  se_newDNSAddrResolver :: "go_err option"
  se_SplitHostPort :: "go_err option"
  se_setupTracing :: "go_err option"

definition start_dht :: "('ab, 'c, 'ma, 'env, 'cl) start_env \<Rightarrow> string \<Rightarrow> go_err + bool" where
  "start_dht S t =
     (if t = ''accelerated'' then (case se_bundledDHT S of Some err \<Rightarrow> Inl err | None \<Rightarrow> Inr True)
      else if t = ''standard'' then (case se_standardDHT S of Some err \<Rightarrow> Inl err | None \<Rightarrow> Inr True)
      else if t = ''disabled'' then Inr False
      else Inl (ErrText ''invalid dht type''))"

definition start_opts ::
  "('ab, 'c, 'ma, 'env, 'cl) start_env \<Rightarrow> server_config \<Rightarrow> ('ab, 'c) AddrBookOption list" where
  "start_opts S cfg =
     (if cachedAddrBookRecentTTL cfg > 0 then [WithRecentlyConnectedTTL (cachedAddrBookRecentTTL cfg)] else []) @
     (if cachedAddrBookMaxFindPeers cfg > 0 then [WithMaxConcurrentFindPeers (cachedAddrBookMaxFindPeers cfg)] else []) @
     [WithActiveProbing (cachedAddrBookActiveProbing cfg)] @
     [WithHostPeerstore (se_peerstore S)]"

definition start_book ::
  "('ab, 'c, 'ma, 'env, 'cl) start_env \<Rightarrow> server_config \<Rightarrow> bool \<Rightarrow> go_err + ('ab, 'c) cachedAddrBook option" where
  "start_book S cfg dht =
     (if cachedAddrBookOn cfg \<and> dht then
        (case newCachedAddrBook (se_book S) (se_newLRU S) (start_opts S cfg) of
           Inl err \<Rightarrow> Inl err
         | Inr cab \<Rightarrow> Inr (Some cab))
      else Inr None)"

fun block_routers ::
  "('ab, 'c, 'ma, 'env, 'cl) start_env \<Rightarrow> (string \<times> string) list \<Rightarrow> go_err + ('cl, 'ma) router list" where
  "block_routers S [] = Inr []"
| "block_routers S ((ep, pid) # rest) =
     (case se_Decode S pid of
        Inl err \<Rightarrow> Inl (ErrWrap ''invalid peer ID'' err)
      | Inr p \<Rightarrow>
          (case newHTTPBlockRouter (se_http S) ep p None of
             Inl err \<Rightarrow> Inl err
           | Inr r \<Rightarrow>
               (case block_routers S rest of
                  Inl err \<Rightarrow> Inl err
                | Inr rs \<Rightarrow> Inr (ComposableRouter (Some (BlockRouter r)) None None None # rs))))"

definition start_blocks ::
  "('ab, 'c, 'ma, 'env, 'cl) start_env \<Rightarrow> server_config \<Rightarrow> go_err + ('cl, 'ma) router list" where
  "start_blocks S cfg =
     (if length (blockProviderEndpoints cfg) > 0 then
        (if length (blockProviderPeerIDs cfg) \<noteq> length (blockProviderEndpoints cfg)
         then Inl (ErrText ''number of block provider peer IDs must match number of endpoints'')
         else block_routers S (zip (blockProviderEndpoints cfg) (blockProviderPeerIDs cfg)))
      else Inr [])"

text \<open>The router for the closest-peers endpoint.\<close>

definition closest_router :: "bool \<Rightarrow> bool \<Rightarrow> bool \<Rightarrow> DNSAddrResolution \<Rightarrow> ('cl, 'ma) router option" where
  "closest_router dht book dnsAddr mode =
     (let dhtRouters =
            (if book \<and> dht then Some (SanitizeRouter (CachedRouter Libp2pRouter))
             else if dht then Some (SanitizeRouter Libp2pRouter)
             else None)
      in (case dhtRouters of None \<Rightarrow> None | Some r \<Rightarrow> Some (withDNSAddrResolution r dnsAddr mode)))"

definition DefaultRoutingTimeout :: int where "DefaultRoutingTimeout = 25 * 10 ^ 9"

record ('ab, 'c, 'ma, 'cl) server =
  sv_book :: "('ab, 'c) cachedAddrBook option"
  sv_router :: "('cl, 'ma) router"
  sv_timeout :: int
  sv_recordsLimit :: int
  sv_streamingRecordsLimit :: int

text \<open>\<open>start\<close> up to the handler.\<close>

definition start ::
  "('ab, 'c, 'ma, 'env, 'cl) start_env \<Rightarrow> server_config \<Rightarrow> go_err + ('ab, 'c, 'ma, 'cl) server" where
  "start S cfg0 =
     (case se_newHost S of Some err \<Rightarrow> Inl err | None \<Rightarrow>
     (case expandDelegatedRoutingEndpoints (se_autoconf S) cfg0 of Inl err \<Rightarrow> Inl err | Inr cfg \<Rightarrow>
     (case start_dht S (dhtType cfg) of Inl err \<Rightarrow> Inl err | Inr dht \<Rightarrow>
     (case start_book S cfg dht of Inl err \<Rightarrow> Inl err | Inr book \<Rightarrow>
     (case start_blocks S cfg of Inl err \<Rightarrow> Inl err | Inr blocks \<Rightarrow>
     (case createDelegatedHTTPRouters (se_newClient S) (se_register S) (se_map_order S) cfg of
        Inl err \<Rightarrow> Inl err | Inr (providerHTTPRouters, peerHTTPRouters, ipnsHTTPRouters) \<Rightarrow>
     (case (if dnsAddrResolution cfg \<noteq> DNSAddrResolutionNever then se_newDNSAddrResolver S else None) of
        Some err \<Rightarrow> Inl err | None \<Rightarrow>
     (case se_SplitHostPort S of Some err \<Rightarrow> Inl err | None \<Rightarrow>
     (case se_setupTracing S of Some err \<Rightarrow> Inl err | None \<Rightarrow>
        let dnsAddr = (dnsAddrResolution cfg \<noteq> DNSAddrResolutionNever);
            mode = dnsAddrResolution cfg;
            hasBook = (book \<noteq> None);
            crRouters = combineRouters dht hasBook (map ClientRouter providerHTTPRouters) blocks dnsAddr mode;
            prRouters = combineRouters dht hasBook (map ClientRouter peerHTTPRouters) [] dnsAddr mode;
            ipnsRouters = combineRouters dht hasBook (map ClientRouter ipnsHTTPRouters) [] dnsAddr mode
        in Inr \<lparr>sv_book = book,
                sv_router = ComposableRouter (Some crRouters) (Some prRouters) (Some ipnsRouters)
                              (closest_router dht hasBook dnsAddr mode),
                sv_timeout = (if routingTimeout cfg > 0 then routingTimeout cfg else DefaultRoutingTimeout),
                sv_recordsLimit = recordsLimit cfg, sv_streamingRecordsLimit = streamingRecordsLimit cfg\<rparr>)))))))))"

section \<open>Tracing headers\<close>

text \<open>A header maps a canonical key to its values; \<open>Get\<close> gives the first or the empty string.\<close>

type_synonym header = "string \<Rightarrow> string list"

definition header_Get :: "header \<Rightarrow> string \<Rightarrow> string" where
  "header_Get h k = (case h k of [] \<Rightarrow> [] | v # _ \<Rightarrow> v)"

definition header_Del :: "header \<Rightarrow> string \<Rightarrow> header" where
  "header_Del h k = h(k := [])"

definition withTracingAndDebug :: "string \<Rightarrow> (header \<Rightarrow> 'w) \<Rightarrow> header \<Rightarrow> 'w" where
  "withTracingAndDebug authToken next h =
     (let h' =
            (if authToken = [] \<or> header_Get h ''Authorization'' \<noteq> authToken then
               let h1 = (if header_Get h ''Traceparent'' \<noteq> [] then header_Del h ''Traceparent'' else h);
                   h2 = (if header_Get h1 ''Tracestate'' \<noteq> [] then header_Del h1 ''Tracestate'' else h1)
               in h2
             else h)
      in next h')"

section \<open>What stands behind an endpoint\<close>

datatype api = Providers | Peers | IPNS | ClosestPeers

datatype wrapper = WDns DNSAddrResolution | WSanitize | WCached

text \<open>The backends a request reaches, each with the wrappers its answer passes, outermost first.\<close>

definition under :: "wrapper list \<Rightarrow> (wrapper list \<times> 'b) list \<Rightarrow> (wrapper list \<times> 'b) list" where
  "under ws = map (\<lambda>(vs, b). (ws @ vs, b))"

fun backends :: "api \<Rightarrow> ('cl, 'ma) router \<Rightarrow> (wrapper list \<times> ('cl, 'ma) router) list" where
  "backends a (CachedRouter r) = under [WCached] (backends a r)"
| "backends a (SanitizeRouter r) = under [WSanitize] (backends a r)"
| "backends a (DnsAddrRouter m r) = under [WDns m] (backends a r)"
| "backends a (ParallelRouter rs) = concat (map (backends a) rs)"
| "backends a (ComposableRouter p q i d) =
     (case a of
        Providers \<Rightarrow> (case p of None \<Rightarrow> [] | Some r \<Rightarrow> backends a r)
      | Peers \<Rightarrow> (case q of None \<Rightarrow> [] | Some r \<Rightarrow> backends a r)
      | IPNS \<Rightarrow> (case i of None \<Rightarrow> [] | Some r \<Rightarrow> backends a r)
      | ClosestPeers \<Rightarrow> (case d of None \<Rightarrow> [] | Some r \<Rightarrow> backends a r))"
| "backends a r = [([], r)]"

definition dns_wraps :: "bool \<Rightarrow> DNSAddrResolution \<Rightarrow> wrapper list" where
  "dns_wraps dnsAddr mode = (if \<not> dnsAddr \<or> mode = DNSAddrResolutionNever then [] else [WDns mode])"

definition dht_backend :: "bool \<Rightarrow> bool \<Rightarrow> (wrapper list \<times> ('cl, 'ma) router) list" where
  "dht_backend dht book =
     (if book then [([WSanitize, WCached], Libp2pRouter)] else if dht then [([WSanitize], Libp2pRouter)] else [])"

lemma under_simps [simp]:
  "under ws [] = []" "under ws ((vs, b) # bs) = (ws @ vs, b) # under ws bs" "under ws (as @ bs) = under ws as @ under ws bs"
  "under [] bs = bs" "under ws (under vs bs) = under (ws @ vs) bs"
  by (induction bs) (auto simp: under_def)

lemma backends_withDNS: "backends a (withDNSAddrResolution r d m) = under (dns_wraps d m) (backends a r)"
  by (simp add: withDNSAddrResolution_def dns_wraps_def)

lemma backends_combine:
  "backends a (combineRouters dht book ds as d m) =
     under (dns_wraps d m) (concat (map (backends a) ds) @ dht_backend dht book @ concat (map (backends a) as))"
  by (cases a) (auto simp: combineRouters_def dht_backend_def backends_withDNS Let_def)

lemma backends_closest:
  "(case closest_router dht book d m of None \<Rightarrow> [] | Some r \<Rightarrow> backends a r) =
     under (dns_wraps d m) (dht_backend dht (book \<and> dht))" if "book \<longrightarrow> dht"
  using that by (auto simp: closest_router_def dht_backend_def backends_withDNS Let_def)

lemma clients_backends: "concat (map (backends a) (map ClientRouter cs)) = map (\<lambda>c. ([], ClientRouter c)) cs"
  by (induction cs) auto

lemma under_map: "under ws (map (\<lambda>c. ([], f c)) cs) = map (\<lambda>c. (ws, f c)) cs"
  by (induction cs) auto

text \<open>The block routers, one per endpoint, in order.\<close>

lemma block_routers_eq:
  "block_routers S eps = Inr rs \<Longrightarrow> \<exists>bs. rs = map (\<lambda>b. ComposableRouter (Some (BlockRouter b)) None None None) bs \<and>
     list_all2 (\<lambda>(ep, pid) b. \<exists>p. se_Decode S pid = Inr p \<and> newHTTPBlockRouter (se_http S) ep p None = Inr b) eps bs"
proof (induction eps arbitrary: rs)
  case (Cons e eps)
  obtain ep pid where e: "e = (ep, pid)" by (cases e)
  with Cons.prems obtain p b rs' where
    *: "se_Decode S pid = Inr p" "newHTTPBlockRouter (se_http S) ep p None = Inr b" "block_routers S eps = Inr rs'"
      "rs = ComposableRouter (Some (BlockRouter b)) None None None # rs'"
    by (auto split: sum.splits)
  from Cons.IH[OF *(3)] obtain bs where
    "rs' = map (\<lambda>b. ComposableRouter (Some (BlockRouter b)) None None None) bs"
    "list_all2 (\<lambda>(ep, pid) b. \<exists>p. se_Decode S pid = Inr p \<and> newHTTPBlockRouter (se_http S) ep p None = Inr b) eps bs"
    by blast
  with * e show ?case by (intro exI[of _ "b # bs"]) auto
qed simp

lemma blocks_backends:
  "concat (map (backends a) (map (\<lambda>b. ComposableRouter (Some (BlockRouter b)) None None None) bs)) =
     (if a = Providers then map (\<lambda>b. ([], BlockRouter b)) bs else [])"
  by (induction bs) (cases a; simp)+

text \<open>Inversion of a start that succeeds.\<close>

lemma start_success:
  assumes "start S cfg0 = Inr sv"
  obtains cfg dht book blocks ps qs vs where
    "expandDelegatedRoutingEndpoints (se_autoconf S) cfg0 = Inr cfg" "start_dht S (dhtType cfg) = Inr dht"
    "start_book S cfg dht = Inr book" "start_blocks S cfg = Inr blocks"
    "createDelegatedHTTPRouters (se_newClient S) (se_register S) (se_map_order S) cfg = Inr (ps, qs, vs)"
    "sv_book sv = book" "sv_timeout sv = (if routingTimeout cfg > 0 then routingTimeout cfg else DefaultRoutingTimeout)"
    "sv_router sv = (let d = (dnsAddrResolution cfg \<noteq> DNSAddrResolutionNever); m = dnsAddrResolution cfg; b = (book \<noteq> None)
       in ComposableRouter (Some (combineRouters dht b (map ClientRouter ps) blocks d m))
            (Some (combineRouters dht b (map ClientRouter qs) [] d m)) (Some (combineRouters dht b (map ClientRouter vs) [] d m))
            (closest_router dht b d m))"
  using assms unfolding start_def Let_def
  by (auto split: option.splits sum.splits)

text \<open>Expanding the endpoints changes nothing else of the configuration.\<close>

lemma expand_keeps:
  assumes "expandDelegatedRoutingEndpoints A c = Inr c'"
  shows "\<exists>p q i. c' = c\<lparr>contentEndpoints := p, peerEndpoints := q, ipnsEndpoints := i\<rparr>"
  using assms unfolding expandDelegatedRoutingEndpoints_def Let_def by (auto split: sum.splits if_splits)

lemma start_dht_eq: "start_dht S t = Inr dht \<Longrightarrow>
    (t = ''disabled'' \<and> \<not> dht) \<or> ((t = ''accelerated'' \<or> t = ''standard'') \<and> t \<noteq> ''disabled'' \<and> dht)"
  by (auto simp: start_dht_def split: if_splits option.splits)

lemma start_book_eq: "start_book S cfg dht = Inr book \<Longrightarrow> (book \<noteq> None) = (cachedAddrBookOn cfg \<and> dht)"
  by (auto simp: start_book_def split: if_splits sum.splits)

lemma start_blocks_eq:
  assumes "start_blocks S cfg = Inr blocks"
  shows "\<exists>bs. blocks = map (\<lambda>b. ComposableRouter (Some (BlockRouter b)) None None None) bs \<and>
     length bs = length (blockProviderEndpoints cfg) \<and>
     list_all2 (\<lambda>(ep, pid) b. \<exists>p. se_Decode S pid = Inr p \<and> newHTTPBlockRouter (se_http S) ep p None = Inr b)
       (zip (blockProviderEndpoints cfg) (blockProviderPeerIDs cfg)) bs"
proof (cases "blockProviderEndpoints cfg = []")
  case True
  with assms show ?thesis by (simp add: start_blocks_def)
next
  case False
  with assms have len: "length (blockProviderPeerIDs cfg) = length (blockProviderEndpoints cfg)"
    and run: "block_routers S (zip (blockProviderEndpoints cfg) (blockProviderPeerIDs cfg)) = Inr blocks"
    by (auto simp: start_blocks_def split: if_splits)
  from block_routers_eq[OF run] obtain bs where
    bs: "blocks = map (\<lambda>b. ComposableRouter (Some (BlockRouter b)) None None None) bs"
      "list_all2 (\<lambda>(ep, pid) b. \<exists>p. se_Decode S pid = Inr p \<and> newHTTPBlockRouter (se_http S) ep p None = Inr b)
        (zip (blockProviderEndpoints cfg) (blockProviderPeerIDs cfg)) bs" by blast
  from list_all2_lengthD[OF bs(2)] len have "length bs = length (blockProviderEndpoints cfg)" by simp
  with bs show ?thesis by blast
qed

text \<open>What stands behind each endpoint of a started server.\<close>

lemma start_backends:
  assumes "start S cfg0 = Inr sv"
  shows "\<exists>cfg bs ps qs vs.
    expandDelegatedRoutingEndpoints (se_autoconf S) cfg0 = Inr cfg \<and>
    createDelegatedHTTPRouters (se_newClient S) (se_register S) (se_map_order S) cfg = Inr (ps, qs, vs) \<and>
    length bs = length (blockProviderEndpoints cfg) \<and>
    list_all2 (\<lambda>(ep, pid) b. \<exists>p. se_Decode S pid = Inr p \<and> newHTTPBlockRouter (se_http S) ep p None = Inr b)
      (zip (blockProviderEndpoints cfg) (blockProviderPeerIDs cfg)) bs \<and>
    (let dns = (if dnsAddrResolution cfg = ''never'' then [] else [WDns (dnsAddrResolution cfg)]);
         cache = (if cachedAddrBookOn cfg then [WCached] else []);
         dht = (if dhtType cfg = ''disabled'' then [] else [(dns @ [WSanitize] @ cache, Libp2pRouter)])
     in backends Providers (sv_router sv) =
          map (\<lambda>c. (dns, ClientRouter c)) ps @ dht @ map (\<lambda>b. (dns, BlockRouter b)) bs \<and>
        backends Peers (sv_router sv) = map (\<lambda>c. (dns, ClientRouter c)) qs @ dht \<and>
        backends IPNS (sv_router sv) = map (\<lambda>c. (dns, ClientRouter c)) vs @ dht \<and>
        backends ClosestPeers (sv_router sv) = dht)"
proof -
  obtain cfg dht book blocks ps qs vs where
    ex: "expandDelegatedRoutingEndpoints (se_autoconf S) cfg0 = Inr cfg" and
    dht: "start_dht S (dhtType cfg) = Inr dht" and book: "start_book S cfg dht = Inr book" and
    blocks: "start_blocks S cfg = Inr blocks" and
    cl: "createDelegatedHTTPRouters (se_newClient S) (se_register S) (se_map_order S) cfg = Inr (ps, qs, vs)" and
    "sv_book sv = book" "sv_timeout sv = (if routingTimeout cfg > 0 then routingTimeout cfg else DefaultRoutingTimeout)" and
    sv: "sv_router sv = (let d = (dnsAddrResolution cfg \<noteq> DNSAddrResolutionNever); m = dnsAddrResolution cfg; b = (book \<noteq> None)
       in ComposableRouter (Some (combineRouters dht b (map ClientRouter ps) blocks d m))
            (Some (combineRouters dht b (map ClientRouter qs) [] d m)) (Some (combineRouters dht b (map ClientRouter vs) [] d m))
            (closest_router dht b d m))" by (rule start_success[OF assms])
  from start_blocks_eq[OF blocks] obtain bs where
    bs: "blocks = map (\<lambda>b. ComposableRouter (Some (BlockRouter b)) None None None) bs"
      "length bs = length (blockProviderEndpoints cfg)"
      "list_all2 (\<lambda>(ep, pid) b. \<exists>p. se_Decode S pid = Inr p \<and> newHTTPBlockRouter (se_http S) ep p None = Inr b)
       (zip (blockProviderEndpoints cfg) (blockProviderPeerIDs cfg)) bs" by blast
  note dht' = start_dht_eq[OF dht] and book' = start_book_eq[OF book]
  define dns where "dns = dns_wraps (dnsAddrResolution cfg \<noteq> DNSAddrResolutionNever) (dnsAddrResolution cfg)"
  have dns: "dns = (if dnsAddrResolution cfg = ''never'' then [] else [WDns (dnsAddrResolution cfg)])"
    by (simp add: dns_def dns_wraps_def DNSAddrResolutionNever_def)
  have d: "under dns (dht_backend dht (book \<noteq> None)) =
      (if dhtType cfg = ''disabled'' then []
       else [(dns @ [WSanitize] @ (if cachedAddrBookOn cfg then [WCached] else []), Libp2pRouter)])"
    using dht' book' by (auto simp: dht_backend_def)
  have "(book \<noteq> None) \<longrightarrow> dht" using book' by simp
  note closest = backends_closest[OF this, where a = ClosestPeers and
      d = "dnsAddrResolution cfg \<noteq> DNSAddrResolutionNever" and m = "dnsAddrResolution cfg", folded dns_def]
  have b: "((book \<noteq> None) \<and> dht) = (book \<noteq> None)" using book' by simp
  let ?D = "under dns (dht_backend dht (book \<noteq> None))"
  have "backends Providers (sv_router sv) = map (\<lambda>c. (dns, ClientRouter c)) ps @ ?D @ map (\<lambda>b. (dns, BlockRouter b)) bs"
    "backends Peers (sv_router sv) = map (\<lambda>c. (dns, ClientRouter c)) qs @ ?D"
    "backends IPNS (sv_router sv) = map (\<lambda>c. (dns, ClientRouter c)) vs @ ?D"
    by (simp_all only: sv Let_def backends.simps api.case option.case backends_combine dns_def[symmetric]
        clients_backends bs(1) blocks_backends under_simps(1,3) under_map list.map(1) concat.simps(1) append_Nil2 if_True simp_thms)
  moreover have "backends ClosestPeers (sv_router sv) = ?D"
    using closest by (simp only: sv Let_def backends.simps api.case b)
  ultimately have eqs: "backends Providers (sv_router sv) = map (\<lambda>c. (dns, ClientRouter c)) ps @ ?D @ map (\<lambda>b. (dns, BlockRouter b)) bs \<and>
      backends Peers (sv_router sv) = map (\<lambda>c. (dns, ClientRouter c)) qs @ ?D \<and>
      backends IPNS (sv_router sv) = map (\<lambda>c. (dns, ClientRouter c)) vs @ ?D \<and> backends ClosestPeers (sv_router sv) = ?D"
    by blast
  show ?thesis
    apply (rule exI[of _ cfg], rule exI[of _ bs], rule exI[of _ ps], rule exI[of _ qs], rule exI[of _ vs])
    using ex cl bs(2,3) eqs unfolding Let_def dns[symmetric] d[symmetric] by blast
qed

section \<open>Properties\<close>

text \<open>
  C16. What stands behind each endpoint of a started server. In every mode but \<open>never\<close> each backend is
  behind exactly one \<open>/dnsaddr\<close> resolver, the outermost wrapper; the DHT, wherever it is reached, is
  behind the sanitiser and, where the address book is on, the cache inside it. The providers endpoint
  asks the delegated routers of its list, the DHT unless it is disabled, and one block router per
  configured gateway; peers and IPNS their own lists and the DHT; closest peers the DHT alone.
\<close>

theorem start_composes_routers:
  assumes "start S cfg0 = Inr sv"
  shows "\<exists>cfg bs ps qs vs.
    expandDelegatedRoutingEndpoints (se_autoconf S) cfg0 = Inr cfg \<and>
    createDelegatedHTTPRouters (se_newClient S) (se_register S) (se_map_order S) cfg = Inr (ps, qs, vs) \<and>
    length bs = length (blockProviderEndpoints cfg) \<and>
    list_all2 (\<lambda>(ep, pid) b. \<exists>p. se_Decode S pid = Inr p \<and> newHTTPBlockRouter (se_http S) ep p None = Inr b)
      (zip (blockProviderEndpoints cfg) (blockProviderPeerIDs cfg)) bs \<and>
    (let dns = (if dnsAddrResolution cfg = ''never'' then [] else [WDns (dnsAddrResolution cfg)]);
         cache = (if cachedAddrBookOn cfg then [WCached] else []);
         dht = (if dhtType cfg = ''disabled'' then [] else [(dns @ [WSanitize] @ cache, Libp2pRouter)])
     in backends Providers (sv_router sv) =
          map (\<lambda>c. (dns, ClientRouter c)) ps @ dht @ map (\<lambda>b. (dns, BlockRouter b)) bs \<and>
        backends Peers (sv_router sv) = map (\<lambda>c. (dns, ClientRouter c)) qs @ dht \<and>
        backends IPNS (sv_router sv) = map (\<lambda>c. (dns, ClientRouter c)) vs @ dht \<and>
        backends ClosestPeers (sv_router sv) = dht)"
  by (rule start_backends[OF assms])

text \<open>
  The address book of a started server. It is there exactly when it is switched on and a DHT client
  runs; its TTL and its lookup limit are the configured ones where those are positive and the defaults
  otherwise, so that it always has a slot; it starts idle, filters private addresses and falls back to
  the host's peerstore.
\<close>

theorem start_configures_book:
  assumes "start S cfg = Inr sv"
  shows "case sv_book sv of
      None \<Rightarrow> \<not> cachedAddrBookOn cfg \<or> dhtType cfg = ''disabled''
    | Some cab \<Rightarrow> cachedAddrBookOn cfg \<and> dhtType cfg \<noteq> ''disabled'' \<and>
        recentlyConnectedTTL cab = (if cachedAddrBookRecentTTL cfg > 0 then cachedAddrBookRecentTTL cfg
          else DefaultRecentlyConnectedAddrTTL (be_K (se_book S))) \<and>
        relayAddrTTL cab = DefaultRelayAddrTTL (be_K (se_book S)) \<and>
        findPeerCap cab = (if cachedAddrBookMaxFindPeers cfg > 0 then nat (cachedAddrBookMaxFindPeers cfg) else 512) \<and>
        fst (tryAcquireFindPeerSlot cab) \<and> probingEnabled cab = cachedAddrBookActiveProbing cfg \<and>
        \<not> isProbing cab \<and> \<not> allowPrivateIPs cab \<and> hostPeerstore cab = Some (se_peerstore S)"
proof -
  obtain cfg1 dht book where
    ex: "expandDelegatedRoutingEndpoints (se_autoconf S) cfg = Inr cfg1" and
    dht: "start_dht S (dhtType cfg1) = Inr dht" and book: "start_book S cfg1 dht = Inr book" "sv_book sv = book"
    by (rule start_success[OF assms])
  from expand_keeps[OF ex] have same: "cachedAddrBookOn cfg1 = cachedAddrBookOn cfg" "dhtType cfg1 = dhtType cfg"
    "cachedAddrBookRecentTTL cfg1 = cachedAddrBookRecentTTL cfg" "cachedAddrBookMaxFindPeers cfg1 = cachedAddrBookMaxFindPeers cfg"
    "cachedAddrBookActiveProbing cfg1 = cachedAddrBookActiveProbing cfg" by auto
  note dht' = start_dht_eq[OF dht, unfolded same]
  show ?thesis
  proof (cases book)
    case None
    with start_book_eq[OF book(1)] dht' show ?thesis by (auto simp: book(2) same)
  next
    case (Some cab)
    with book(1) have on: "cachedAddrBookOn cfg" "dht" and
      new: "newCachedAddrBook (se_book S) (se_newLRU S) (start_opts S cfg1) = Inr cab"
      by (auto simp: start_book_def same split: if_splits sum.splits)
    from new obtain c where "se_newLRU S = Inr c" by (auto simp: newCachedAddrBook_def split: sum.splits)
    with new show ?thesis
      using on dht' unfolding book(2) Some start_opts_def same
      by (cases "cachedAddrBookRecentTTL cfg > 0"; cases "cachedAddrBookMaxFindPeers cfg > 0")
        (auto simp: newCachedAddrBook_def Let_def WithRecentlyConnectedTTL_def WithMaxConcurrentFindPeers_def
          WithActiveProbing_def WithHostPeerstore_def tryAcquireFindPeerSlot_def DefaultMaxConcurrentFindPeers_def)
  qed
qed

definition sample_server_config :: server_config where
  "sample_server_config = \<lparr>dhtType = ''standard'', contentEndpoints = [''a/routing/v1/providers''], peerEndpoints = [],
     ipnsEndpoints = [''b''], autoConf_enabled = False, cachedAddrBookOn = True, cachedAddrBookActiveProbing = True,
     cachedAddrBookRecentTTL = 0, cachedAddrBookMaxFindPeers = 3, routingTimeout = 0, dnsAddrResolution = ''append'',
     recordsLimit = 100, streamingRecordsLimit = 1000, blockProviderEndpoints = [], blockProviderPeerIDs = []\<rparr>"

definition sample_start_env ::
  "(sample_book, peer_id \<rightharpoonup> peerState, comps, peer_id \<times> comps list, string) start_env" where
  "sample_start_env = \<lparr>se_newHost = None, se_autoconf = sample_autoconf, se_bundledDHT = None, se_standardDHT = None,
     se_book = sample_book_env, se_newLRU = Inr Map.empty, se_peerstore = [], se_Decode = Inr,
     se_http = \<lparr>hl_Parse = (\<lambda>_. Inl ErrNotFound), hl_isIP = (\<lambda>_. False), hl_NewMultiaddr = (\<lambda>_. Inr []), hl_DEBUG = []\<rparr>,
     se_newClient = Inr, se_register = None, se_map_order = (\<lambda>es. es), se_newDNSAddrResolver = None, se_SplitHostPort = None, se_setupTracing = None\<rparr>"

lemma sample_expand: "expandDelegatedRoutingEndpoints sample_autoconf sample_server_config =
    Inr (sample_server_config\<lparr>contentEndpoints := [''a'']\<rparr>)"
  by (simp add: expandDelegatedRoutingEndpoints_def sample_autoconf_def sample_server_config_def normalizeEndpointURL_def
      cutSuffix_def hasSuffix_def routingPaths_def deduplicateEndpoints_def)

lemma sample_clients: "createDelegatedHTTPRouters (se_newClient sample_start_env) (se_register sample_start_env)
    (se_map_order sample_start_env) (sample_server_config\<lparr>contentEndpoints := [''a'']\<rparr>) = Inr ([''a''], [], [''b''])"
  by (simp add: createDelegatedHTTPRouters_def collectEndpoints_def sample_start_env_def sample_server_config_def
      new_endpoint_def Let_def)

lemma sample_start:
  "\<exists>sv. start sample_start_env sample_server_config = Inr sv"
proof -
  let ?cfg = "sample_server_config\<lparr>contentEndpoints := [''a'']\<rparr>"
  have "\<exists>book. start_book sample_start_env ?cfg True = Inr book"
    by (simp add: start_book_def sample_start_env_def sample_server_config_def newCachedAddrBook_def Let_def start_opts_def
        WithRecentlyConnectedTTL_def WithMaxConcurrentFindPeers_def WithActiveProbing_def WithHostPeerstore_def)
  moreover have "start_dht sample_start_env (dhtType ?cfg) = Inr True" "start_blocks sample_start_env ?cfg = Inr []"
    by (simp_all add: start_dht_def start_blocks_def sample_start_env_def sample_server_config_def)
  moreover note sample_clients
  moreover have "se_newHost sample_start_env = None" "se_autoconf sample_start_env = sample_autoconf"
    "se_newDNSAddrResolver sample_start_env = None" "se_SplitHostPort sample_start_env = None"
    "se_setupTracing sample_start_env = None" by (simp_all add: sample_start_env_def)
  ultimately show ?thesis
    unfolding start_def by (auto simp: sample_expand Let_def split: sum.splits)
qed

definition sample_server :: "(sample_book, peer_id \<rightharpoonup> peerState, comps, string) server" where
  "sample_server = projr (start sample_start_env sample_server_config)"

lemma sample_server: "start sample_start_env sample_server_config = Inr sample_server"
  using sample_start by (auto simp: sample_server_def)

lemma start_configures_book_witness:
  "case sv_book sample_server of None \<Rightarrow> False | Some cab \<Rightarrow> findPeerCap cab = 3 \<and> probingEnabled cab"
  using start_configures_book[OF sample_server]
  by (auto simp: sample_server_config_def split: option.splits)

lemma start_composes_routers_witness:
  "backends ClosestPeers (sv_router sample_server) = [([WDns ''append'', WSanitize, WCached], Libp2pRouter)]"
  using start_composes_routers[OF sample_server] sample_expand
  by (auto simp: sample_start_env_def sample_server_config_def Let_def)

section \<open>Flags and headers\<close>

lemma generate_ids_length: "generate_ids synthetic eps = Inr ps \<Longrightarrow> length ps = length eps"
  by (induction eps arbitrary: ps) (auto split: sum.splits)

text \<open>
  The action refuses negative limits and unknown modes and keeps the rest; when no peer ID is given it
  makes up one per endpoint, so that the count \<open>start\<close> checks then agrees.
\<close>

lemma start_action_accepts:
  assumes "start_action synthetic cfg = Inr cfg'"
  shows "0 \<le> recordsLimit cfg' \<and> 0 \<le> streamingRecordsLimit cfg' \<and>
    ParseDNSAddrResolution (dnsAddrResolution cfg') = Inr (dnsAddrResolution cfg') \<and>
    (blockProviderPeerIDs cfg = [] \<longrightarrow> length (blockProviderPeerIDs cfg') = length (blockProviderEndpoints cfg'))"
  using assms generate_ids_length
  by (auto simp: start_action_def Let_def ParseDNSAddrResolution_def split: sum.splits if_splits)

text \<open>A request without the token loses both tracing headers and nothing else; one with it loses nothing.\<close>

lemma withTracingAndDebug_filters:
  assumes "h' = withTracingAndDebug token id h"
  shows "if token \<noteq> [] \<and> header_Get h ''Authorization'' = token then h' = h
    else header_Get h' ''Traceparent'' = [] \<and> header_Get h' ''Tracestate'' = [] \<and>
      (\<forall>k. k \<noteq> ''Traceparent'' \<longrightarrow> k \<noteq> ''Tracestate'' \<longrightarrow> h' k = h k)"
  using assms by (auto simp: withTracingAndDebug_def Let_def header_Get_def header_Del_def)

end
