(* ===== verification/Client.thy ===== *)
theory Client
  imports Endpoints Rewriting
begin

text \<open>
  The client commands, \<open>someguy ask ...\<close> (main.go, client.go): which endpoint each subcommand talks to,
  the key a text is read as, and the loop that prints the results of a lookup. The server's answer is the
  list of results its iterator yields; rendering a value as JSON is a parameter.
\<close>

section \<open>The endpoint\<close>

datatype ask_command = FindProvs | FindPeers | GetClosestPeers | GetIPNS | PutIPNS

definition ask_config :: "bool \<Rightarrow> string \<Rightarrow> config" where
  "ask_config autoconf ep = \<lparr>dhtType = ''none'', contentEndpoints = [ep], peerEndpoints = [], ipnsEndpoints = [],
     autoConf_enabled = autoconf\<rparr>"

definition ask_expand :: "autoconf_lib \<Rightarrow> bool \<Rightarrow> string \<Rightarrow> go_err + string" where
  "ask_expand A autoconf ep =
     (case expandDelegatedRoutingEndpoints A (ask_config autoconf ep) of
        Inl err \<Rightarrow> Inl err
      | Inr cfg \<Rightarrow>
          (case contentEndpoints cfg of
             [] \<Rightarrow> Inl (ErrText ''no delegated routing endpoint configured, use --endpoint to specify'')
           | e # _ \<Rightarrow> Inr e))"

text \<open>
  The actions of the subcommands, up to the base URL the client is made with: the count of the arguments,
  then their parsing, with its first error if any, then the endpoint.
\<close>

definition ask_arity :: "ask_command \<Rightarrow> nat" where
  "ask_arity cmd = (if cmd = PutIPNS then 2 else 1)"

definition ask_action :: "autoconf_lib \<Rightarrow> bool \<Rightarrow> ask_command \<Rightarrow> nat \<Rightarrow> go_err option \<Rightarrow> string \<Rightarrow> go_err + string" where
  "ask_action A autoconf cmd nargs parse ep =
     (if nargs \<noteq> ask_arity cmd then Inl (ErrText ''invalid command, see help'')
      else case parse of
             Some err \<Rightarrow> Inl err
           | None \<Rightarrow>
               (case cmd of
                  FindProvs \<Rightarrow> ask_expand A autoconf ep
                | FindPeers \<Rightarrow> ask_expand A autoconf ep
                | GetClosestPeers \<Rightarrow> Inr ep
                | GetIPNS \<Rightarrow> Inr ep
                | PutIPNS \<Rightarrow> Inr ep))"

text \<open>\<open>peer.Decode\<close> and \<open>cid.Parse\<close> of the key, and the CID of a peer.\<close>

definition parseKey :: "(peer_id \<Rightarrow> 'cid) \<Rightarrow> go_err + peer_id \<Rightarrow> go_err + 'cid \<Rightarrow> go_err + 'cid" where
  "parseKey ToCid asPeer asCid =
     (case asPeer of
        Inr pid \<Rightarrow> Inr (ToCid pid)
      | Inl pidErr \<Rightarrow>
          (case asCid of
             Inr c \<Rightarrow> Inr c
           | Inl cidErr \<Rightarrow>
               Inl (ErrWrap ''unable to parse as CID or PeerID'' (the (errors_Join [Some cidErr, Some pidErr])))))"

section \<open>Printing\<close>

datatype 'ma line =
    PrettyLine "peer_id option" "string list" "'ma list"
  | JsonLine string

text \<open>Printing a value gives a line, fails, or panics: a nil value, or a type assertion that does not hold.\<close>

datatype 'ma printing = Printed "'ma line" | Failed go_err | Panicked

definition print_json :: "('a \<Rightarrow> go_err + string) \<Rightarrow> 'a \<Rightarrow> 'ma printing" where
  "print_json json v = (case json v of Inl err \<Rightarrow> Failed err | Inr s \<Rightarrow> Printed (JsonLine s))"

definition pretty_peer :: "'ma PeerRecord \<Rightarrow> 'ma printing" where
  "pretty_peer r = Printed (PrettyLine (ID r) (Protocols r) (Addrs r))"

definition print_provider :: "('ma Record option \<Rightarrow> go_err + string) \<Rightarrow> bool \<Rightarrow> 'ma Record option \<Rightarrow> 'ma printing" where
  "print_provider json pretty v =
     (if pretty then
        (case v of
           None \<Rightarrow> Panicked
         | Some r \<Rightarrow>
             if GetSchema r = SchemaPeer then (case r of RPeer p \<Rightarrow> pretty_peer p | _ \<Rightarrow> Panicked)
             else if GetSchema r = SchemaBitswap then (case r of RBitswap p \<Rightarrow> pretty_peer p | _ \<Rightarrow> Panicked)
             else print_json json v)
      else print_json json v)"

definition print_peer :: "('ma PeerRecord option \<Rightarrow> go_err + string) \<Rightarrow> bool \<Rightarrow> 'ma PeerRecord option \<Rightarrow> 'ma printing" where
  "print_peer json pretty v =
     (if pretty then (case v of None \<Rightarrow> Panicked | Some r \<Rightarrow> pretty_peer r) else print_json json v)"

text \<open>How a command ends: it returns, perhaps with an error, or panics.\<close>

datatype ask_end = Returned "go_err option" | Crashed

fun print_loop :: "('a option \<Rightarrow> 'ma printing) \<Rightarrow> 'a result list \<Rightarrow> 'ma line list \<times> ask_end" where
  "print_loop pr [] = ([], Returned None)"
| "print_loop pr (res # rest) =
     (case Err res of
        Some err \<Rightarrow> if \<not> errors_Is err ErrDeadlineExceeded then ([], Returned (Some err)) else ([], Returned None)
      | None \<Rightarrow>
          (case pr (Val res) of
             Printed l \<Rightarrow> let (ls, e) = print_loop pr rest in (l # ls, e)
           | Failed err \<Rightarrow> ([], Returned (Some err))
           | Panicked \<Rightarrow> ([], Crashed)))"

definition ask_lookup :: "('a option \<Rightarrow> 'ma printing) \<Rightarrow> go_err + 'a result list \<Rightarrow> 'ma line list \<times> ask_end" where
  "ask_lookup pr answer = (case answer of Inl err \<Rightarrow> ([], Returned (Some err)) | Inr it \<Rightarrow> print_loop pr it)"

definition findProviders ::
  "('ma Record option \<Rightarrow> go_err + string) \<Rightarrow> bool \<Rightarrow> go_err option \<Rightarrow> go_err + 'ma Record result list \<Rightarrow> 'ma line list \<times> ask_end" where
  "findProviders json pretty newClient answer =
     (case newClient of Some err \<Rightarrow> ([], Returned (Some err)) | None \<Rightarrow> ask_lookup (print_provider json pretty) answer)"

definition findPeers ::
  "('ma PeerRecord option \<Rightarrow> go_err + string) \<Rightarrow> bool \<Rightarrow> go_err option \<Rightarrow> go_err + 'ma PeerRecord result list \<Rightarrow> 'ma line list \<times> ask_end" where
  "findPeers json pretty newClient answer =
     (case newClient of Some err \<Rightarrow> ([], Returned (Some err)) | None \<Rightarrow> ask_lookup (print_peer json pretty) answer)"

definition getClosestPeers ::
  "('ma PeerRecord option \<Rightarrow> go_err + string) \<Rightarrow> bool \<Rightarrow> go_err option \<Rightarrow> go_err + 'ma PeerRecord result list \<Rightarrow> 'ma line list \<times> ask_end" where
  "getClosestPeers json pretty newClient answer =
     (case newClient of Some err \<Rightarrow> ([], Returned (Some err)) | None \<Rightarrow> ask_lookup (print_peer json pretty) answer)"

text \<open>
  The loop prints the results before the first error, in order; it succeeds exactly when there is no
  error or the first one is the deadline, and reads nothing after it. A record whose schema and type
  agree never panics it.
\<close>

lemma print_loop_eq:
  assumes "list_all (\<lambda>r. Err r = None \<longrightarrow> (\<exists>l. pr (Val r) = Printed l)) rs"
  shows "print_loop pr rs =
    (map (\<lambda>r. case pr (Val r) of Printed l \<Rightarrow> l) (takeWhile (\<lambda>r. Err r = None) rs),
     Returned (case List.find (\<lambda>r. Err r \<noteq> None) rs of
        None \<Rightarrow> None | Some r \<Rightarrow> if errors_Is (the (Err r)) ErrDeadlineExceeded then None else Err r))"
  using assms
proof (induction rs)
  case (Cons r rs)
  show ?case
  proof (cases "Err r")
    case None
    with Cons.prems obtain l where "pr (Val r) = Printed l" by auto
    with None Cons show ?thesis by simp
  qed simp
qed simp

lemma print_provider_never_panics:
  assumes "case r of RPeer p \<Rightarrow> Schema p = SchemaPeer | RBitswap p \<Rightarrow> Schema p = SchemaBitswap
    | RUnknown s b \<Rightarrow> s \<noteq> SchemaPeer \<and> s \<noteq> SchemaBitswap"
  shows "print_provider json pretty (Some r) \<noteq> Panicked"
  using assms by (cases r) (auto simp: print_provider_def pretty_peer_def print_json_def SchemaPeer_def SchemaBitswap_def split: sum.splits)

section \<open>IPNS\<close>

text \<open>
  The record's accessors as the command reads them. \<open>ci_Format\<close> is \<open>time.RFC3339\<close>, \<open>ci_TTLString\<close> the
  text of a duration.
\<close>

record 'r client_ipns_lib =
  ci_Value :: "'r \<Rightarrow> go_err + string"
  ci_Sequence :: "'r \<Rightarrow> go_err + nat"
  ci_Validity :: "'r \<Rightarrow> go_err + int"
  ci_TTL :: "'r \<Rightarrow> go_err + int"
  ci_Format :: "int \<Rightarrow> string"
  ci_TTLString :: "int \<Rightarrow> string"
  ci_Marshal :: "'r \<Rightarrow> go_err + string"
  ci_Unmarshal :: "string \<Rightarrow> go_err + 'r"

datatype ipns_line =
    NameLine string
  | SignatureValidatedLine
  | ValueLine string
  | SequenceLine nat
  | ValidityTypeLine
  | ValidityLine string
  | TTLLine string
  | RawRecord string

definition pretty_ipns :: "'r client_ipns_lib \<Rightarrow> string \<Rightarrow> 'r \<Rightarrow> ipns_line list \<times> go_err option" where
  "pretty_ipns I name rec =
     (case ci_Value I rec of Inl err \<Rightarrow> ([], Some err) | Inr v \<Rightarrow>
     (case ci_Sequence I rec of Inl err \<Rightarrow> ([], Some err) | Inr seq \<Rightarrow>
     (case ci_Validity I rec of Inl err \<Rightarrow> ([], Some err) | Inr eol \<Rightarrow>
        ([NameLine name, SignatureValidatedLine, ValueLine v, SequenceLine seq, ValidityTypeLine,
          ValidityLine (ci_Format I eol)] @
         (case ci_TTL I rec of Inr ttl \<Rightarrow> [TTLLine (ci_TTLString I ttl)] | Inl _ \<Rightarrow> []), None))))"

text \<open>\<open>stdout\<close> is the error of writing to the standard output, if any.\<close>

definition getIPNS ::
  "'r client_ipns_lib \<Rightarrow> go_err option \<Rightarrow> bool \<Rightarrow> string \<Rightarrow> go_err option \<Rightarrow> go_err + 'r \<Rightarrow> ipns_line list \<times> go_err option" where
  "getIPNS I stdout pretty name newClient answer =
     (case newClient of
        Some err \<Rightarrow> ([], Some err)
      | None \<Rightarrow>
          (case answer of
             Inl err \<Rightarrow> ([], Some err)
           | Inr rec \<Rightarrow>
               if pretty then pretty_ipns I name rec
               else (case ci_Marshal I rec of Inl err \<Rightarrow> ([], Some err) | Inr raw \<Rightarrow> ([RawRecord raw], stdout))))"

text \<open>\<open>put\<close> is the client's \<open>PutIPNS\<close> of the name.\<close>

definition putIPNS :: "'r client_ipns_lib \<Rightarrow> string \<Rightarrow> go_err option \<Rightarrow> ('r \<Rightarrow> go_err option) \<Rightarrow> go_err option" where
  "putIPNS I raw newClient put =
     (case newClient of
        Some err \<Rightarrow> Some err
      | None \<Rightarrow> (case ci_Unmarshal I raw of Inl err \<Rightarrow> Some err | Inr rec \<Rightarrow> put rec))"

text \<open>
  Pretty printing shows a record whole or not at all: a field that cannot be read, other than the
  optional TTL, fails the command before anything is printed.
\<close>

lemma pretty_ipns_whole:
  "case pretty_ipns I name rec of (ls, err) \<Rightarrow>
     (err = None \<longleftrightarrow> \<not> isl (ci_Value I rec) \<and> \<not> isl (ci_Sequence I rec) \<and> \<not> isl (ci_Validity I rec)) \<and>
     (if err = None then take 1 ls = [NameLine name] \<and> length ls = (if isl (ci_TTL I rec) then 6 else 7) else ls = [])"
  by (auto simp: pretty_ipns_def split: sum.splits)

text \<open>
  What \<open>getipns\<close> writes raw, \<open>putipns\<close> reads back as the same record, provided the record format does.
\<close>

lemma ipns_round_trip:
  assumes "\<And>r raw. ci_Marshal I r = Inr raw \<Longrightarrow> ci_Unmarshal I raw = Inr r"
    and "getIPNS I None False name None (Inr rec) = ([RawRecord raw], None)"
  shows "putIPNS I raw None put = put rec"
  using assms by (auto simp: getIPNS_def putIPNS_def split: sum.splits)

section \<open>Properties\<close>

text \<open>
  The endpoint of the client commands. \<open>findprovs\<close> and \<open>findpeers\<close> expand the \<open>--endpoint\<close> flag:
  without autoconf they talk to its base URL and refuse the placeholder and any other endpoint's path.
  \<open>getclosestpeers\<close>, \<open>getipns\<close> and \<open>putipns\<close> do not, so with the flag at its default they talk to the
  placeholder itself, autoconf or not.
\<close>

theorem ask_endpoint_spec:
  "list_all (\<lambda>cmd. ask_action A autoconf cmd (ask_arity cmd) None (ac_AutoPlaceholder A) = Inr (ac_AutoPlaceholder A))
     [GetClosestPeers, GetIPNS, PutIPNS] \<and>
   ask_action A autoconf FindPeers 1 parse ep = ask_action A autoconf FindProvs 1 parse ep \<and>
   (case ask_action A False FindProvs 1 None ep of
      Inl e \<Rightarrow> mismatched A (ac_ProvidersPath A) ep \<or> base_of A (ac_ProvidersPath A) ep = ac_AutoPlaceholder A
    | Inr url \<Rightarrow> url = base_of A (ac_ProvidersPath A) ep \<and> url \<noteq> ac_AutoPlaceholder A \<and>
        \<not> mismatched A (ac_ProvidersPath A) ep)"
proof -
  let ?env = "''SOMEGUY_PROVIDER_ENDPOINTS''"
  let ?v = "validateEndpointURLs A [ep] (ac_ProvidersPath A) ?env"
  have v: "case ?v of Inl e \<Rightarrow> mismatched A (ac_ProvidersPath A) ep
    | Inr bs \<Rightarrow> \<not> mismatched A (ac_ProvidersPath A) ep \<and> bs = [base_of A (ac_ProvidersPath A) ep]"
    using validateEndpointURLs_eq[where A = A and urls = "[ep]" and path = "ac_ProvidersPath A" and env = ?env]
    by (simp split: sum.splits)
  have ex: "ask_expand A False ep = (case ?v of Inl err \<Rightarrow> Inl err
    | Inr bs \<Rightarrow> if ac_AutoPlaceholder A \<in> set bs
        then Inl (ErrText ''auto placeholder found in endpoint option but autoconf is disabled'')
        else (case deduplicateEndpoints bs of
            [] \<Rightarrow> Inl (ErrText ''no delegated routing endpoint configured, use --endpoint to specify'') | e # _ \<Rightarrow> Inr e))"
    unfolding ask_expand_def expandDelegatedRoutingEndpoints_def
    by (simp add: ask_config_def split: sum.split del: validateEndpointURLs.simps(2))
  have "case ask_expand A False ep of
      Inl e \<Rightarrow> mismatched A (ac_ProvidersPath A) ep \<or> base_of A (ac_ProvidersPath A) ep = ac_AutoPlaceholder A
    | Inr url \<Rightarrow> url = base_of A (ac_ProvidersPath A) ep \<and> url \<noteq> ac_AutoPlaceholder A \<and>
        \<not> mismatched A (ac_ProvidersPath A) ep"
    using v unfolding ex by (cases ?v) (auto simp: deduplicateEndpoints_def)
  then show ?thesis by (cases parse) (simp_all add: ask_action_def ask_arity_def)
qed

end
