(* ===== verification/DhtTypes.thy ===== *)
theory DhtTypes
  imports FallbackSpec Routers
begin

text \<open>
  The results that travel through the routers over the DHT are well typed: \<open>libp2pRouter\<close> yields peer
  records with the peer schema and an ID, \<open>cachedRouter\<close> and \<open>cacheFallbackIter\<close> keep them so in every
  order of their steps. This discharges what \<open>FallbackSpec\<close> asks of sources and answers: over the DHT no
  type assertion, nil value or nil ID is ever met.
\<close>

section \<open>Typed results\<close>

definition typed_rec :: "'ma PeerRecord \<Rightarrow> bool" where
  "typed_rec r \<longleftrightarrow> Schema r = SchemaPeer \<and> ID r \<noteq> None"

definition typed_peer :: "'ma PeerRecord result \<Rightarrow> bool" where
  "typed_peer v \<longleftrightarrow> Err v = None \<and> (case Val v of None \<Rightarrow> False | Some r \<Rightarrow> typed_rec r)"

definition typed :: "'ma Record result \<Rightarrow> bool" where
  "typed v \<longleftrightarrow> Err v = None \<and> (case Val v of Some (RPeer r) \<Rightarrow> typed_rec r | _ \<Rightarrow> False)"

definition typed_answer :: "go_err + 'ma PeerRecord result list \<Rightarrow> bool" where
  "typed_answer res = (case res of Inl e \<Rightarrow> True | Inr it \<Rightarrow> list_all typed_peer it)"

lemma typed_ok [simp]: "typed (ok_result (RPeer r)) = typed_rec r" "typed_peer (ok_result r) = typed_rec r"
  by (simp_all add: typed_def typed_peer_def)

lemma typed_addrs [simp]: "typed_rec (r\<lparr>Addrs := as\<rparr>) = typed_rec r"
  by (simp add: typed_rec_def)

lemma typedE:
  assumes "typed v"
  obtains r where "v = ok_result (RPeer r)" "typed_rec r"
  using assms by (cases v) (auto simp: typed_def ok_result_def split: option.splits Record.splits)

lemma typed_wf: "typed v \<Longrightarrow> wf_source v" "typed_answer res \<Longrightarrow> wf_answer res"
  by (auto simp: typed_def typed_rec_def wf_source_def typed_answer_def typed_peer_def wf_answer_def wf_result_def
      list_all_iff split: sum.splits option.splits Record.splits)

section \<open>What the libp2p router yields\<close>

text \<open>
  \<open>iter.ToResultIter\<close> over \<open>peerChanIter\<close>: each value with a nil error.
\<close>

definition libp2p_results :: "'ma AddrInfo list \<Rightarrow> 'ma Record result list" where
  "libp2p_results ch = map (\<lambda>v. \<lparr>Val = v, Err = None\<rparr>) (read_chan (length ch) (libp2p_FindProviders ch))"

lemma read_chan_eq:
  "pc_ch it = ch \<Longrightarrow> read_chan (length ch) it = map (\<lambda>i. Some (RPeer (record_of_info i))) ch"
  by (induction ch arbitrary: it) (simp_all add: peerChanIter_Next_def peerChanIter_Val_def)

lemma libp2p_results_eq: "libp2p_results ch = map (\<lambda>i. ok_result (RPeer (record_of_info i))) ch"
  using read_chan_eq[of "libp2p_FindProviders ch" ch]
  by (simp add: libp2p_results_def libp2p_FindProviders_def ok_result_def)

lemma typed_info [simp]: "typed_rec (record_of_info i)"
  by (simp add: typed_rec_def record_of_info_def)

lemma typed_answer_map:
  "(\<And>p. typed_rec (f p)) \<Longrightarrow> typed_answer (case x of Inl e \<Rightarrow> Inl e | Inr ps \<Rightarrow> Inr (map (\<lambda>p. ok_result (f p)) ps))"
  by (cases x) (simp_all add: typed_answer_def list_all_iff)

lemma typed_GetClosestPeers: "typed_answer (libp2p_GetClosestPeers undef client store)"
proof (cases undef)
  case True
  then show ?thesis by (simp add: libp2p_GetClosestPeers_def typed_answer_def)
next
  case False
  show ?thesis unfolding libp2p_GetClosestPeers_def Let_def if_not_P[OF False]
    by (rule typed_answer_map) (simp add: typed_rec_def)
qed

lemma libp2p_typed:
  "list_all typed (libp2p_results ch)" "typed_answer (libp2p_FindPeers found)"
  by (auto simp: libp2p_results_eq list_all_iff typed_answer_def libp2p_FindPeers_def split: sum.splits)

section \<open>The cached router keeps the types\<close>

lemma typed_enrich: "typed_peer v \<Longrightarrow> typed_peer (FindPeers_enrich E cab v)"
  by (cases v) (auto simp: typed_peer_def FindPeers_enrich_def typed_rec_def split: option.splits)

lemma typed_answer_enrich:
  "list_all typed_peer it \<Longrightarrow> list_all typed_peer (map (FindPeers_enrich E cab) it)"
  by (auto simp: list_all_iff typed_enrich)

lemma typed_cached: "FindPeers_cached E pid s = (Some it, s') \<Longrightarrow> list_all typed_peer it"
  by (auto simp: FindPeers_cached_def Let_def case_prod_beta typed_rec_def split: if_splits)

lemma typed_inner: "typed_answer inner \<Longrightarrow> typed_answer (fst (FindPeers_inner E now pid inner s))"
  by (auto simp: FindPeers_inner_def typed_answer_def split: sum.splits)

lemma typed_FindPeers: "typed_answer inner \<Longrightarrow> typed_answer (fst (cachedRouter_FindPeers E now pid inner s))"
  using typed_cached[of E pid s] typed_inner[of inner E now pid "snd (FindPeers_cached E pid s)"]
  by (auto simp: cachedRouter_FindPeers_def typed_answer_def case_prod_beta Let_def typed_answer_enrich prod_eq_iff
      split: option.splits sum.splits)

lemma ReadAllResults_typed:
  "list_all typed_peer it \<Longrightarrow> ReadAllResults it = Inr rs \<Longrightarrow> list_all (\<lambda>v. case v of None \<Rightarrow> False | Some r \<Rightarrow> typed_rec r) rs"
  by (induction it arbitrary: rs) (auto simp: typed_peer_def split: option.splits sum.splits)

lemma lookup_answer_typed:
  assumes "typed_answer res" "typed_rec r" "lookup_answer E cab r enrich res = Some q"
  shows "typed_rec q"
proof (cases res)
  case (Inr it)
  define it' where "it' = (if enrich then map (FindPeers_enrich E cab) it else it)"
  have "list_all typed_peer it'" using assms(1) Inr by (simp add: it'_def typed_answer_def typed_answer_enrich)
  from ReadAllResults_typed[OF this] assms(2,3) show ?thesis
    unfolding lookup_answer_def Inr sum.case it'_def[symmetric]
    by (cases "ReadAllResults it'") (auto split: list.splits option.splits)
qed (use assms in \<open>simp add: lookup_answer_def\<close>)

fun typed_call :: "'ma find_peer_call \<Rightarrow> bool" where
  "typed_call (LStart r) = typed_rec r"
| "typed_call (LWalk r) = typed_rec r"
| "typed_call (LGot r enrich res) = (typed_rec r \<and> typed_answer res)"
| "typed_call (LSend r) = typed_rec r"
| "typed_call c = True"

fun typed_action :: "'ma fallback_action \<Rightarrow> bool" where
  "typed_action (CallInner i inner now) = typed_answer inner"
| "typed_action a = True"

definition typed_iter :: "('ab, 'c, 'ma) fallback_iter \<Rightarrow> bool" where
  "typed_iter s \<longleftrightarrow> list_all typed (fi_source s) \<and> list_all typed (fi_out s) \<and>
     list_all typed_rec (fi_findPeersResult s) \<and> list_all typed_call (fi_calls s)"

lemma typed_set_call:
  "typed_iter s \<Longrightarrow> typed_call c \<Longrightarrow> typed_iter (set_call i c s)"
  by (auto simp: typed_iter_def set_call_def list_all_iff dest!: set_update_subset_insert[THEN subsetD])

lemma typed_iter_simps [simp]:
  "typed_iter (s\<lparr>fi_state := cs\<rparr>) = typed_iter s" "typed_iter (s\<lparr>fi_consumer := c\<rparr>) = typed_iter s"
  "typed_iter (s\<lparr>fi_ctx := b\<rparr>) = typed_iter s" "typed_iter (s\<lparr>fi_others := n\<rparr>) = typed_iter s"
  "typed_iter (s\<lparr>fi_ongoingLookups := k\<rparr>) = typed_iter s" "typed_iter (return_false s) = typed_iter s"
  "typed_iter (return_true v s) = (typed_iter s \<and> typed v)" "typed_iter (with_cab cab s) = typed_iter s"
  by (auto simp: typed_iter_def return_false_def return_true_def with_cab_def)

lemma typed_dispatch: "typed_iter s \<Longrightarrow> typed_rec r \<Longrightarrow> typed_iter (dispatch E now pid r s)"
  by (auto simp: dispatch_def Let_def typed_iter_def split: prod.split)

lemma typed_next_source:
  assumes "typed_iter s" "typed v"
  shows "typed_iter (next_source E origin now v s)"
  using assms by (elim typedE) (auto simp: next_source_def typed_rec_def Let_def case_prod_beta intro!: typed_dispatch)

lemma typed_next_step:
  assumes "typed_iter s" "next_step E origin a s = Some s'"
  shows "typed_iter s'"
proof (cases "\<exists>now. fi_consumer s = CLoop \<and> a = NextSource now")
  case True
  then obtain now v vs where "fi_source s = v # vs" "s' = next_source E origin now v (s\<lparr>fi_source := vs\<rparr>)"
    using assms(2) by (auto simp: next_step_def split: list.splits)
  with assms(1) show ?thesis by (auto simp: typed_iter_def intro!: typed_next_source[unfolded typed_iter_def])
next
  case False
  with assms show ?thesis
    by (auto simp: next_step_def Let_def split: consumer.splits fallback_action.splits list.splits if_splits)
      (auto simp: typed_iter_def)
qed

lemma typed_call_step:
  assumes s: "typed_iter s" and c: "typed_call c" and a: "typed_action a" and step: "call_step E i c a s = Some s'"
  shows "typed_iter s'"
proof (cases c)
  case (LStart r)
  with step obtain pid j where "ID r = Some pid" "a = CallCache j"
    by (auto simp: call_step_def split: fallback_action.splits option.splits)
  with step LStart have s': "s' = set_call i (case fst (FindPeers_cached E pid (fi_state s)) of
        Some it \<Rightarrow> LGot r False (Inr it) | None \<Rightarrow> LWalk r) (s\<lparr>fi_state := snd (FindPeers_cached E pid (fi_state s))\<rparr>)"
    by (simp add: call_step_def case_prod_beta Let_def)
  show ?thesis unfolding s' using s c LStart typed_cached[of E pid "fi_state s"]
    by (auto intro!: typed_set_call split: option.split simp: typed_answer_def prod_eq_iff)
next
  case (LWalk r)
  with step obtain j inner now pid where a': "a = CallInner j inner now"
    and s': "s' = set_call i (LGot r True (fst (FindPeers_inner E now pid inner (fi_state s))))
        (s\<lparr>fi_state := snd (FindPeers_inner E now pid inner (fi_state s))\<rparr>)"
    by (auto simp: call_step_def case_prod_beta Let_def split: fallback_action.splits option.splits)
  show ?thesis unfolding s' using s c a a' LWalk by (auto intro!: typed_set_call typed_inner)
next
  case (LGot r enrich res)
  with step s c show ?thesis
    by (auto simp: call_step_def split: fallback_action.splits option.splits if_splits
        intro!: typed_set_call intro: lookup_answer_typed)
next
  case (LSend r)
  with s c have "typed_iter (s\<lparr>fi_findPeersResult := fi_findPeersResult s @ [r]\<rparr>)" by (simp add: typed_iter_def)
  with step s LSend show ?thesis
    by (auto simp: call_step_def split: fallback_action.splits if_splits intro!: typed_set_call)
next
  case LRelease
  with step s show ?thesis
    by (auto simp: call_step_def split: fallback_action.splits option.splits intro!: typed_set_call)
next
  case LCount
  with step s show ?thesis
    by (auto simp: call_step_def split: fallback_action.splits intro!: typed_set_call)
qed (use step in \<open>simp add: call_step_def\<close>)

lemma typed_other_step: "typed_iter s \<Longrightarrow> other_step E a s = Some s' \<Longrightarrow> typed_iter s'"
  by (auto simp: other_step_def Let_def case_prod_beta split: fallback_action.splits option.splits if_splits)

lemma typed_fallback_step:
  assumes "typed_iter s" "typed_action a" "fallback_step E origin s a = Some s'"
  shows "typed_iter s'"
proof (cases "call_of a")
  case None
  with assms show ?thesis
    by (auto simp: fallback_step_def split: option.splits if_splits intro: typed_next_step typed_other_step)
next
  case (Some i)
  with assms(3) have i: "i < length (fi_calls s)" and step: "call_step E i (fi_calls s ! i) a s = Some s'"
    by (auto simp: fallback_step_def split: if_splits)
  from assms(1) i have "typed_call (fi_calls s ! i)" by (simp add: typed_iter_def list_all_length)
  from typed_call_step[OF assms(1) this assms(2) step] show ?thesis .
qed

lemma typed_run:
  assumes "list_all typed src" "list_all typed_action as"
    and "run_steps (fallback_step E origin) (NewCacheFallbackIter src others cs) as = Some s"
  shows "typed_iter s"
proof (rule run_steps_guarded[where I = typed_iter and ok = typed_action])
  show "typed_iter (NewCacheFallbackIter src others cs)"
    using assms(1) by (simp add: typed_iter_def NewCacheFallbackIter_def)
qed (use assms(2,3) in \<open>auto elim: typed_fallback_step\<close>)

lemma typed_action_wf: "list_all typed_action as \<Longrightarrow> list_all wf_action as"
proof (induction as)
  case (Cons a as)
  then show ?case by (cases a) (simp_all add: typed_wf)
qed simp

section \<open>Properties\<close>

text \<open>
  C9. Type soundness of the DHT path. Over whatever the DHT's channel delivers, with every background
  lookup answered by the DHT, in every order of the steps: no step panics (no failed type assertion, no
  nil value or ID is met), and every result \<open>Next\<close> has returned is a peer record with the peer schema, an
  ID, at least one address and no error.
\<close>

theorem dht_path_is_typed:
  assumes "slots_ok 0 others (cr_cab cs)"
    and "list_all (\<lambda>a. case a of CallInner i inner now \<Rightarrow> \<exists>found. inner = libp2p_FindPeers found | _ \<Rightarrow> True) as"
    and "run_steps (fallback_step E origin) (NewCacheFallbackIter (libp2p_results ch) others cs) as = Some s"
  shows "fi_consumer s \<noteq> CPanic \<and>
    list_all (\<lambda>v. \<exists>r. v = ok_result (RPeer r) \<and> Schema r = SchemaPeer \<and> ID r \<noteq> None \<and> Addrs r \<noteq> []) (fi_out s)"
proof -
  have acts: "list_all typed_action as"
    using assms(2) by (induction as) (auto split: fallback_action.splits simp: libp2p_typed)
  have src: "list_all wf_source (libp2p_results ch)"
    using libp2p_typed(1)[of ch] by (auto simp: list_all_iff typed_wf)
  from fallback_reachable(1)[OF assms(1) src typed_action_wf[OF acts] assms(3)]
  have "fi_consumer s \<noteq> CPanic" "list_all shows_addrs (fi_out s)" by (simp_all add: fallback_inv_def)
  moreover have "list_all typed (fi_out s)"
    using typed_run[OF libp2p_typed(1) acts assms(3)] by (simp add: typed_iter_def)
  moreover have "\<exists>r. v = ok_result (RPeer r) \<and> Schema r = SchemaPeer \<and> ID r \<noteq> None \<and> Addrs r \<noteq> []"
    if "typed v" "shows_addrs v" for v :: "'c Record result"
    using that by (elim typedE) (auto simp: shows_addrs_def typed_rec_def)
  ultimately show ?thesis by (simp add: list_all_iff)
qed

definition dht_sample :: "comps AddrInfo list" where
  "dht_sample = [\<lparr>ai_ID = ''P'', ai_Addrs = [sample_ip]\<rparr>]"

lemma dht_path_is_typed_witness:
  "\<exists>s. run_steps (fallback_step sample_book_env addrQueryOriginProviders)
         (NewCacheFallbackIter (libp2p_results dht_sample) 0 sample_cr) [NextCall, NextSource 5] = Some s \<and>
       fi_consumer s \<noteq> CPanic \<and> fi_out s \<noteq> []"
proof -
  let ?s0 = "NewCacheFallbackIter (libp2p_results dht_sample) 0 sample_cr"
  obtain s where run: "run_steps (fallback_step sample_book_env addrQueryOriginProviders) ?s0 [NextCall, NextSource 5] = Some s"
    and out: "fi_out s \<noteq> []"
    by (auto simp: libp2p_results_eq dht_sample_def NewCacheFallbackIter_def fallback_step_def next_step_def next_source_def
        record_of_info_def withAddrsFromCache_def case_prod_beta Let_def)
  from dht_path_is_typed[OF _ _ run] early_ok(1) out run show ?thesis by auto
qed

end
