(* ===== verification/PeerPaths.thy ===== *)
theory PeerPaths
  imports DhtTypes
begin

text \<open>
  The two roads a peer record takes. \<open>sanitizeRouter\<close> and \<open>dnsAddrRouter\<close> treat it twice in the code,
  once as a record of \<open>FindProviders\<close> and once as a peer of \<open>FindPeers\<close> and \<open>GetClosestPeers\<close>, and
  \<open>cachedRouter.GetClosestPeers\<close> sends peers through the record iterator and back. Both roads agree, and
  the detour gives back what went in.
\<close>

section \<open>The two treatments\<close>

definition peer_schema :: "'ma PeerRecord result \<Rightarrow> bool" where
  "peer_schema v \<longleftrightarrow> Err v = None \<longrightarrow> (case Val v of None \<Rightarrow> True | Some r \<Rightarrow> Schema r = SchemaPeer)"

lemma treated_peer_to_record: "peer_schema v \<Longrightarrow> treated (peer_to_record v) = treated_peer v"
  by (auto simp: treated_def peer_to_record_def treated_peer_def peer_schema_def split: option.splits)

lemma with_addrs_peer:
  "Err v = None \<Longrightarrow> Val v = Some p \<Longrightarrow> with_addrs as (peer_to_record v) = peer_to_record (v\<lparr>Val := Some (p\<lparr>Addrs := as\<rparr>)\<rparr>)"
  by (simp add: with_addrs_def peer_to_record_def)

lemma rewrite_peer_to_record:
  "peer_schema v \<Longrightarrow> rewrite_record f (peer_to_record v) s = (peer_to_record (fst (rewrite_peer f v s)), snd (rewrite_peer f v s))"
  using treated_peer_to_record[of v]
  by (cases "treated_peer v")
    (auto simp: rewrite_record_def rewrite_peer_def case_prod_beta treated_peer_def with_addrs_peer split: if_splits)

lemma map_state_agree:
  assumes "\<And>v s. v \<in> set vs \<Longrightarrow> f (g v) s = (h (fst (k v s)), snd (k v s))"
  shows "map_state f (map g vs) s = (map h (fst (map_state k vs s)), snd (map_state k vs s))"
  using assms by (induction vs arbitrary: s) (simp_all add: case_prod_beta)

section \<open>The detour through records\<close>

lemma record_to_peer_inverse: "Err v = None \<and> Val v \<noteq> None \<or> Err v \<noteq> None \<and> Val v = None \<Longrightarrow> record_to_peer (peer_to_record v) = v"
  by (cases v) (auto simp: record_to_peer_def peer_to_record_def split: option.splits)

definition with_address :: "'ma PeerRecord result \<Rightarrow> bool" where
  "with_address v \<longleftrightarrow> (\<exists>r. v = ok_result r \<and> typed_rec r \<and> Addrs r \<noteq> [])"

text \<open>Where every source record has an address, the iterator hands each on as it is and starts no lookup.\<close>

definition passing :: "'ma Record result list \<Rightarrow> ('ab, 'c, 'ma) fallback_iter \<Rightarrow> bool" where
  "passing src s \<longleftrightarrow> src = fi_out s @ fi_source s \<and> fi_calls s = [] \<and> fi_ongoingLookups s = 0 \<and>
     fi_consumer s \<in> {CIdle, CLoop} \<and> (fi_ret s = Some False \<longrightarrow> fi_source s = []) \<and>
     list_all (\<lambda>v. \<exists>p. with_address p \<and> v = peer_to_record p) (fi_source s)"

lemma next_source_passes:
  assumes "with_address p" "v = peer_to_record p"
  shows "\<exists>cs. next_source E origin now v s = return_true v (s\<lparr>fi_state := cs\<rparr>)"
proof -
  from assms(1) obtain r pid where r: "p = ok_result r" "Schema r = SchemaPeer" "ID r = Some pid" "Addrs r \<noteq> []"
    by (auto simp: with_address_def typed_rec_def)
  then have v: "v = ok_result (RPeer r)" by (simp add: assms(2) peer_to_record_def)
  have "r\<lparr>Addrs := Addrs r\<rparr> = r" by simp
  then show ?thesis
    unfolding v using r(2-4) by (auto simp: next_source_def withAddrs_nonempty case_prod_beta Let_def)
qed

lemma passing_step:
  assumes "passing src s" "fallback_step E origin s a = Some s'"
  shows "passing src s'"
proof -
  from assms have no_call: "call_of a = None" and step: "next_step E origin a s = Some s' \<or> other_step E a s = Some s'"
    by (auto simp: fallback_step_def passing_def split: option.splits if_splits)
  from step show ?thesis
  proof
    assume n: "next_step E origin a s = Some s'"
    show ?thesis
    proof (cases "\<exists>now. fi_consumer s = CLoop \<and> a = NextSource now")
      case True
      with n obtain now v vs where v: "fi_source s = v # vs" "s' = next_source E origin now v (s\<lparr>fi_source := vs\<rparr>)"
        by (auto simp: next_step_def split: list.splits)
      from assms(1) v(1) obtain p where "with_address p" "v = peer_to_record p" by (auto simp: passing_def)
      from next_source_passes[OF this, of E origin now "s\<lparr>fi_source := vs\<rparr>"] v(2) obtain cs where
        "s' = return_true v (s\<lparr>fi_source := vs, fi_state := cs\<rparr>)" by auto
      with assms(1) v(1) show ?thesis by (auto simp: passing_def return_true_def)
    next
      case False
      with n assms(1) show ?thesis
        by (auto simp: next_step_def passing_def return_false_def split: consumer.splits fallback_action.splits list.splits if_splits)
    qed
  next
    assume "other_step E a s = Some s'"
    with assms(1) show ?thesis
      by (auto simp: other_step_def passing_def with_cab_def Let_def case_prod_beta
          split: fallback_action.splits option.splits if_splits)
  qed
qed

interpretation passing: step_invariant "fallback_step E origin" "passing src"
  for E :: "('ab, 'c, 'ma, 'env) book_env" and origin and src :: "'ma Record result list"
  by unfold_locales (rule passing_step)

section \<open>Properties\<close>

text \<open>
  C17. The record and the peer versions of the rewriting routers agree. On results that carry the peer
  schema, converting and then treating them as records of \<open>FindProviders\<close> gives what treating them as
  peers and then converting gives, for the sanitiser and for the resolver, whose cache, budget and
  queries end the same too; \<open>FindPeers\<close> and \<open>GetClosestPeers\<close> do the same.
\<close>

theorem record_and_peer_paths_agree:
  assumes "list_all peer_schema it"
  shows "sanitizeRouter_FindProviders M (Inr (map peer_to_record it)) =
      map_sum id (map peer_to_record) (sanitizeRouter_FindPeers M (Inr it)) \<and>
    sanitizeRouter_GetClosestPeers M (Inr it) = sanitizeRouter_FindPeers M (Inr it) \<and>
    dnsAddrRouter_FindProviders R (Inr (map peer_to_record it)) st =
      map_prod (map_sum id (map peer_to_record)) id (dnsAddrRouter_FindPeers R (Inr it) st) \<and>
    dnsAddrRouter_GetClosestPeers R (Inr it) st = dnsAddrRouter_FindPeers R (Inr it) st"
proof -
  have schema: "peer_schema v" if "v \<in> set it" for v using assms that by (simp add: list_all_iff)
  have "map (\<lambda>x. sanitize_record M (peer_to_record x)) it = map (\<lambda>x. peer_to_record (sanitize_peer M x)) it"
    by (rule map_cong) (simp_all add: sanitize_record_eq sanitize_peer_eq rewrite_peer_to_record schema)
  moreover have "map_state (dnsaddr_record R) (map peer_to_record it) st' =
      (map peer_to_record (fst (map_state (dnsaddr_peer R) it st')), snd (map_state (dnsaddr_peer R) it st'))" for st'
    by (rule map_state_agree) (simp add: dnsaddr_record_eq dnsaddr_peer_eq rewrite_peer_to_record schema)
  ultimately show ?thesis
    by (simp add: sanitizeRouter_FindProviders_def sanitizeRouter_FindPeers_def sanitizeRouter_GetClosestPeers_def
        dnsAddrRouter_FindProviders_def dnsAddrRouter_FindPeers_def dnsAddrRouter_GetClosestPeers_def
        resolvePeerRecords_def case_prod_beta comp_def)
qed

lemma record_and_peer_paths_agree_witness:
  "\<exists>it. it \<noteq> [] \<and> sanitizeRouter_FindProviders sample_lib (Inr (map peer_to_record it)) =
     map_sum id (map peer_to_record) (sanitizeRouter_FindPeers sample_lib (Inr it))"
proof -
  have "list_all peer_schema [ok_result (sample_peer ''P'' [sample_lan, sample_ip])]"
    by (simp add: peer_schema_def sample_peer_def)
  from record_and_peer_paths_agree[OF this] show ?thesis by blast
qed

text \<open>
  C18. The detour of \<open>GetClosestPeers\<close>. Peers that come with addresses go into the record iterator and
  come out of the conversion back as they were, in order: in every interleaving with other requests what
  was read and what is left to read make up the wrapped router's answer, no background lookup starts,
  nothing panics, and once \<open>Next\<close> returns false the client has read exactly that answer.
\<close>

theorem closest_peers_come_back:
  assumes "list_all with_address it" "cachedRouter_GetClosestPeers (Inr it) others cs = Inr (iter, origin)"
    and "run_steps (fallback_step E origin) iter as = Some s"
  shows "map record_to_peer (fi_out s) @ map record_to_peer (fi_source s) = it \<and> fi_calls s = [] \<and>
    fi_consumer s \<noteq> CPanic \<and> (fi_ret s = Some False \<longrightarrow> map record_to_peer (fi_out s) = it)"
proof -
  let ?src = "map peer_to_record it"
  from assms(2) have iter: "iter = NewCacheFallbackIter ?src others cs" by (simp add: cachedRouter_GetClosestPeers_def)
  have "passing ?src iter"
    using assms(1) unfolding iter by (auto simp: passing_def NewCacheFallbackIter_def list_all_iff)
  from passing.inv_run[OF this assms(3)] have p: "passing ?src s" .
  have "map record_to_peer ?src = it"
    unfolding map_map using assms(1)
    by (intro map_idI) (auto simp: list_all_iff with_address_def record_to_peer_inverse)
  with p show ?thesis by (auto simp: passing_def simp flip: map_append)
qed

lemma closest_peers_come_back_witness:
  "map record_to_peer (fi_out (the (run_steps (fallback_step sample_book_env addrQueryOriginClosestPeers)
     (NewCacheFallbackIter [peer_to_record (ok_result (sample_peer ''Q'' [sample_ip]))] 0 sample_cr)
     [NextCall, NextSource 5, RequestDone, NextCall, NextExhausted]))) = [ok_result (sample_peer ''Q'' [sample_ip])]"
proof -
  let ?p = "ok_result (sample_peer ''Q'' [sample_ip])"
  obtain s where run: "run_steps (fallback_step sample_book_env addrQueryOriginClosestPeers)
      (NewCacheFallbackIter [peer_to_record ?p] 0 sample_cr) [NextCall, NextSource 5, RequestDone, NextCall, NextExhausted] = Some s"
    and ret: "fi_ret s = Some False"
    by (auto simp: NewCacheFallbackIter_def fallback_step_def next_step_def next_source_def other_step_def sample_peer_def
        peer_to_record_def withAddrsFromCache_def return_true_def return_false_def case_prod_beta Let_def
        addrQueryOriginProviders_def addrQueryOriginClosestPeers_def)
  have "with_address (ok_result r)" if "typed_rec r" "Addrs r \<noteq> []" for r :: "comps PeerRecord"
    using that by (auto simp: with_address_def)
  then have "list_all with_address [?p]" by (simp add: typed_rec_def sample_peer_def)
  from closest_peers_come_back[OF this _ run, of 0 sample_cr] run ret show ?thesis
    by (simp add: cachedRouter_GetClosestPeers_def)
qed

end
