(* ===== verification/Serve.thy ===== *)
theory Serve
  imports DhtTypes Server
begin

text \<open>
  Composition: what a client of the running server can be served. The tree of routers that \<open>Server.start\<close>
  builds is given its meaning by the operations modelled per router, as relations: an answer of a wrapper
  is its operation applied to an answer of what it wraps, an answer of a backend is any the surroundings
  allow. On top of it the privacy of the answers, which needs the typing of the DHT path (\<open>DhtTypes\<close>),
  the sanitiser and the resolver (\<open>Rewriting\<close>), the merge (\<open>ManyIter\<close>) and the assembly (\<open>Server\<close>).
\<close>

section \<open>The surroundings\<close>

text \<open>
  The address book's and the resolver's environments, and what a delegated HTTP router may answer; the
  DHT, the network behind a block provider and the name servers may answer anything.
\<close>

record ('ab, 'c, 'ma, 'env, 'cl, 'd) surroundings =
  su_book :: "('ab, 'c, 'ma, 'env) book_env"
  su_dns :: "('d, 'ma) dns_env"
  su_lru :: "('d, 'ma) dns_lru"
  su_client_providers :: "'cl \<Rightarrow> go_err + 'ma Record result list \<Rightarrow> bool"
  su_client_peers :: "api \<Rightarrow> 'cl \<Rightarrow> go_err + 'ma PeerRecord result list \<Rightarrow> bool"

abbreviation su_ma :: "('ab, 'c, 'ma, 'env, 'cl, 'd) surroundings \<Rightarrow> 'ma malib" where
  "su_ma W \<equiv> be_MA (su_book W)"

text \<open>The resolver of mode \<open>m\<close> for a request with the filter \<open>flt\<close>.\<close>

definition resolver ::
  "('ab, 'c, 'ma, 'env, 'cl, 'd) surroundings \<Rightarrow> DNSAddrResolution \<Rightarrow> addrFilter option \<Rightarrow> ('d, 'ma) dnsAddrRouter" where
  "resolver W m flt = \<lparr>dr_env = su_dns W, dr_lru = su_lru W, dr_ma = su_ma W, dr_mode = m, dr_filter = flt\<rparr>"

lemma resolver_ma [simp]: "dr_ma (resolver W m flt) = su_ma W"
  by (simp add: resolver_def)

section \<open>The answers of a tree\<close>

text \<open>What has been read of the iterator \<open>find\<close> returns, after some run of the merge.\<close>

inductive delivers :: "'a found \<Rightarrow> 'a list \<Rightarrow> bool" where
  direct: "delivers (Direct it) it"
| merged: "run_steps many_step mi as = Some s \<Longrightarrow> delivers (Merged mi) (map snd (mi_out s))"

text \<open>\<open>FindPeers\<close> (\<open>a = Peers\<close>) and \<open>GetClosestPeers\<close> (\<open>a = ClosestPeers\<close>).\<close>

inductive serves_peers ::
  "('ab, 'c, 'ma, 'env, 'cl, 'd) surroundings \<Rightarrow> api \<Rightarrow> ('cl, 'ma) router \<Rightarrow> go_err + 'ma PeerRecord result list \<Rightarrow> bool"
  for W :: "('ab, 'c, 'ma, 'env, 'cl, 'd) surroundings" where
  libp2p_peers: "serves_peers W Peers Libp2pRouter (libp2p_FindPeers found)"
| libp2p_closest: "serves_peers W ClosestPeers Libp2pRouter (libp2p_GetClosestPeers undef client peerstore)"
| client: "su_client_peers W a c res \<Longrightarrow> serves_peers W a (ClientRouter c) res"
| cached_peers:
    "serves_peers W Peers r inner \<Longrightarrow>
     serves_peers W Peers (CachedRouter r) (fst (cachedRouter_FindPeers (su_book W) now pid inner cs))"
| cached_closest_error:
    "serves_peers W ClosestPeers r inner \<Longrightarrow> cachedRouter_GetClosestPeers inner others (cs :: ('ab, 'c) cr_state) = Inl err \<Longrightarrow>
     serves_peers W ClosestPeers (CachedRouter r) (Inl err)"
| cached_closest:
    "serves_peers W ClosestPeers r inner \<Longrightarrow> cachedRouter_GetClosestPeers inner others cs = Inr (it, origin) \<Longrightarrow>
     (\<And>i res now. CallInner i res now \<in> set as \<Longrightarrow> serves_peers W Peers r res) \<Longrightarrow>
     run_steps (fallback_step (su_book W) origin) it as = Some s \<Longrightarrow>
     serves_peers W ClosestPeers (CachedRouter r) (Inr (map record_to_peer (fi_out s)))"
| sanitize_peers:
    "serves_peers W Peers r inner \<Longrightarrow> serves_peers W Peers (SanitizeRouter r) (sanitizeRouter_FindPeers (su_ma W) inner)"
| sanitize_closest:
    "serves_peers W ClosestPeers r inner \<Longrightarrow>
     serves_peers W ClosestPeers (SanitizeRouter r) (sanitizeRouter_GetClosestPeers (su_ma W) inner)"
| dnsaddr_peers:
    "serves_peers W Peers r inner \<Longrightarrow>
     serves_peers W Peers (DnsAddrRouter m r) (fst (dnsAddrRouter_FindPeers (resolver W m flt) inner st))"
| dnsaddr_closest:
    "serves_peers W ClosestPeers r inner \<Longrightarrow>
     serves_peers W ClosestPeers (DnsAddrRouter m r) (fst (dnsAddrRouter_GetClosestPeers (resolver W m flt) inner st))"
| parallel_error:
    "length answers = length rs \<Longrightarrow> (\<And>i. i < length rs \<Longrightarrow> serves_peers W a (rs ! i) (answers ! i)) \<Longrightarrow>
     find_routers answers = Inl err \<Longrightarrow> serves_peers W a (ParallelRouter rs) (Inl err)"
| parallel:
    "length answers = length rs \<Longrightarrow> (\<And>i. i < length rs \<Longrightarrow> serves_peers W a (rs ! i) (answers ! i)) \<Longrightarrow>
     find_routers answers = Inr fd \<Longrightarrow> delivers fd out \<Longrightarrow> serves_peers W a (ParallelRouter rs) (Inr out)"
| no_peers: "serves_peers W Peers (ComposableRouter p None i d) (composable_FindPeers None)"
| peers: "serves_peers W Peers q res \<Longrightarrow> serves_peers W Peers (ComposableRouter p (Some q) i d) (composable_FindPeers (Some res))"
| no_closest: "serves_peers W ClosestPeers (ComposableRouter p q i None) (composable_GetClosestPeers None)"
| closest:
    "serves_peers W ClosestPeers d res \<Longrightarrow>
     serves_peers W ClosestPeers (ComposableRouter p q i (Some d)) (composable_GetClosestPeers (Some res))"

text \<open>\<open>FindProviders\<close>. The fallback iterator asks the wrapped router for peers.\<close>

inductive serves_providers ::
  "('ab, 'c, 'ma, 'env, 'cl, 'd) surroundings \<Rightarrow> ('cl, 'ma) router \<Rightarrow> go_err + 'ma Record result list \<Rightarrow> bool"
  for W :: "('ab, 'c, 'ma, 'env, 'cl, 'd) surroundings" where
  libp2p: "serves_providers W Libp2pRouter (Inr (libp2p_results ch))"
| client: "su_client_providers W c res \<Longrightarrow> serves_providers W (ClientRouter c) res"
| block: "serves_providers W (BlockRouter h) (httpBlock_FindProviders h newRequest response)"
| cached_error:
    "serves_providers W r inner \<Longrightarrow> cachedRouter_FindProviders inner others (cs :: ('ab, 'c) cr_state) = Inl err \<Longrightarrow>
     serves_providers W (CachedRouter r) (Inl err)"
| cached:
    "serves_providers W r inner \<Longrightarrow> cachedRouter_FindProviders inner others cs = Inr (it, origin) \<Longrightarrow>
     (\<And>i res now. CallInner i res now \<in> set as \<Longrightarrow> serves_peers W Peers r res) \<Longrightarrow>
     run_steps (fallback_step (su_book W) origin) it as = Some s \<Longrightarrow>
     serves_providers W (CachedRouter r) (Inr (fi_out s))"
| sanitize: "serves_providers W r inner \<Longrightarrow> serves_providers W (SanitizeRouter r) (sanitizeRouter_FindProviders (su_ma W) inner)"
| dnsaddr:
    "serves_providers W r inner \<Longrightarrow>
     serves_providers W (DnsAddrRouter m r) (fst (dnsAddrRouter_FindProviders (resolver W m flt) inner st))"
| parallel_error:
    "length answers = length rs \<Longrightarrow> (\<And>i. i < length rs \<Longrightarrow> serves_providers W (rs ! i) (answers ! i)) \<Longrightarrow>
     find_routers answers = Inl err \<Longrightarrow> serves_providers W (ParallelRouter rs) (Inl err)"
| parallel:
    "length answers = length rs \<Longrightarrow> (\<And>i. i < length rs \<Longrightarrow> serves_providers W (rs ! i) (answers ! i)) \<Longrightarrow>
     find_routers answers = Inr fd \<Longrightarrow> delivers fd out \<Longrightarrow> serves_providers W (ParallelRouter rs) (Inr out)"
| no_providers: "serves_providers W (ComposableRouter None q i d) (composable_FindProviders None)"
| providers:
    "serves_providers W p res \<Longrightarrow> serves_providers W (ComposableRouter (Some p) q i d) (composable_FindProviders (Some res))"

text \<open>What \<open>find\<close> delivers comes from its routers.\<close>

lemma find_delivers:
  assumes "find_routers answers = Inr fd" "delivers fd out" "v \<in> set out"
  shows "\<exists>i its. i < length answers \<and> answers ! i = Inr its \<and> v \<in> set its"
proof -
  have "\<exists>its. Inr its \<in> set answers \<and> v \<in> set its"
    using assms(2,1,3)
  proof cases
    case (direct)
    with assms(1,3) show ?thesis
      by (cases answers rule: remdups_adj.cases) (auto simp: find_routers_def Let_def case_prod_beta split: sum.splits if_splits)
  next
    case (merged mi as s)
    with assms(1) have mi: "mi = newManyIter (oks answers)"
      by (cases answers rule: remdups_adj.cases)
        (auto simp: find_routers_def find_loop_eq Let_def case_prod_beta simp del: find_loop.simps split: sum.splits if_splits)
    have run: "run_steps many_step (newManyIter (oks answers)) as = Some s" using merged(3) mi by simp
    from merged assms(3) obtain j where j: "(j, v) \<in> set (mi_out s)" by auto
    with many_inv_reachable[OF run] have "j < length (oks answers)" and pre: "prefix (received j s) (oks answers ! j)"
      by (auto simp: many_inv_def source_inv_def list_all_iff)
    moreover have "v \<in> set (received j s)" using j by (force simp: received_def)
    ultimately have "oks answers ! j \<in> set (oks answers)" "v \<in> set (oks answers ! j)"
      using set_mono_prefix[OF pre] by auto
    then show ?thesis by (auto simp: oks_def split: sum.splits)
  qed
  then show ?thesis by (metis in_set_conv_nth)
qed

section \<open>The DHT's answers are typed\<close>

definition typed_records :: "go_err + 'ma Record result list \<Rightarrow> bool" where
  "typed_records res = (case res of Inl e \<Rightarrow> True | Inr it \<Rightarrow> list_all typed it)"

inductive_cases serves_peers_libp2pE: "serves_peers W a Libp2pRouter out"
inductive_cases serves_libp2pE: "serves_providers W Libp2pRouter out"

lemma typed_convert:
  "typed_peer v \<Longrightarrow> typed (peer_to_record v)" "typed w \<Longrightarrow> typed_peer (record_to_peer w)"
  by (auto simp: typed_peer_def peer_to_record_def typed_def record_to_peer_def split: option.splits Record.splits)

lemma libp2p_serves_typed: "serves_peers W a Libp2pRouter out \<Longrightarrow> typed_answer out"
  by (erule serves_peers_libp2pE) (simp_all add: libp2p_typed typed_GetClosestPeers)

text \<open>A run of the iterator over typed values whose lookups ask the DHT.\<close>

lemma typed_dht_run:
  assumes "list_all typed src" "\<And>i res now. CallInner i res now \<in> set as \<Longrightarrow> serves_peers W Peers Libp2pRouter res"
    and "run_steps (fallback_step E origin) (NewCacheFallbackIter src others cs) as = Some s"
  shows "list_all typed (fi_out s)"
proof -
  have "typed_action a" if "a \<in> set as" for a
    using assms(2) that by (cases a) (auto intro: libp2p_serves_typed)
  then have "list_all typed_action as" by (simp add: list_all_iff)
  from typed_run[OF assms(1) this assms(3)] show ?thesis by (simp add: typed_iter_def)
qed

lemma cached_dht_peers_typed:
  assumes "serves_peers W a (CachedRouter Libp2pRouter) out"
  shows "typed_answer out"
  using assms
proof cases
  case (cached_peers inner now pid cs)
  then show ?thesis by (simp add: typed_FindPeers libp2p_serves_typed)
next
  case (cached_closest inner others cs it origin as s)
  from cached_closest(4) obtain src where
    inner: "inner = Inr src" and it: "it = NewCacheFallbackIter (map peer_to_record src) others cs"
    by (auto simp: cachedRouter_GetClosestPeers_def split: sum.splits)
  from libp2p_serves_typed[OF cached_closest(3)] have src: "list_all typed (map peer_to_record src)"
    by (simp add: inner typed_answer_def list_all_iff typed_convert)
  from it cached_closest(6) have
    run: "run_steps (fallback_step (su_book W) origin) (NewCacheFallbackIter (map peer_to_record src) others cs) as = Some s"
    by simp
  have "list_all typed (fi_out s)" by (rule typed_dht_run[OF src _ run]) (rule cached_closest(5))
  then show ?thesis unfolding cached_closest(2) by (simp add: typed_answer_def list_all_iff typed_convert)
qed (simp add: typed_answer_def)

lemma cached_dht_records_typed:
  assumes "serves_providers W (CachedRouter Libp2pRouter) out"
  shows "typed_records out"
  using assms
proof cases
  case (cached inner others cs it origin as s)
  from cached(2) obtain ch where "inner = Inr (libp2p_results ch)" by (elim serves_libp2pE) simp
  with cached(3,5) have
    run: "run_steps (fallback_step (su_book W) origin) (NewCacheFallbackIter (libp2p_results ch) others cs) as = Some s"
    by (simp add: cachedRouter_FindProviders_def)
  have "list_all typed (fi_out s)" by (rule typed_dht_run[OF libp2p_typed(1) _ run]) (rule cached(4))
  then show ?thesis unfolding cached(1) by (simp add: typed_records_def)
qed (simp add: typed_records_def)

lemma dht_typed:
  assumes "r \<in> {Libp2pRouter, CachedRouter Libp2pRouter}"
  shows "serves_peers W a r out \<Longrightarrow> typed_answer out" "serves_providers W r res \<Longrightarrow> typed_records res"
proof -
  show "serves_peers W a r out \<Longrightarrow> typed_answer out"
    using assms libp2p_serves_typed cached_dht_peers_typed by auto
  show "serves_providers W r res \<Longrightarrow> typed_records res"
    using assms cached_dht_records_typed by (auto elim!: serves_libp2pE simp: typed_records_def libp2p_typed)
qed

section \<open>Public answers\<close>

definition addrs_public :: "'ma malib \<Rightarrow> 'ma list \<Rightarrow> bool" where
  "addrs_public M as \<longleftrightarrow> list_all (\<lambda>a. \<not> manet_IsPrivateAddr M a) as"

definition public_record :: "'ma malib \<Rightarrow> 'ma Record result \<Rightarrow> bool" where
  "public_record M v = (case Val v of
     Some (RPeer r) \<Rightarrow> addrs_public M (Addrs r) | Some (RBitswap r) \<Rightarrow> addrs_public M (Addrs r) | _ \<Rightarrow> True)"

definition public_peer :: "'ma malib \<Rightarrow> 'ma PeerRecord result \<Rightarrow> bool" where
  "public_peer M v = (case Val v of Some r \<Rightarrow> addrs_public M (Addrs r) | None \<Rightarrow> True)"

text \<open>Every result of an answer satisfies \<open>P\<close>; an error shows none.\<close>

definition answer_all :: "('a \<Rightarrow> bool) \<Rightarrow> go_err + 'a list \<Rightarrow> bool" where
  "answer_all P res = (case res of Inl e \<Rightarrow> True | Inr it \<Rightarrow> list_all P it)"

lemma answer_all_simps [simp]: "answer_all P (Inl e)" "answer_all P (Inr it) = list_all P it"
  by (simp_all add: answer_all_def)

text \<open>The trees in which the DHT, with or without the cache, stands directly behind a sanitiser.\<close>

fun shielded :: "'ma malib \<Rightarrow> ('cl, 'ma) router \<Rightarrow> bool" where
  "shielded M (ClientRouter c) = True"
| "shielded M (BlockRouter h) = (\<not> manet_IsPrivateAddr M (endpointMa h))"
| "shielded M (SanitizeRouter r) = (r = Libp2pRouter \<or> r = CachedRouter Libp2pRouter)"
| "shielded M (DnsAddrRouter m r) = shielded M r"
| "shielded M (ParallelRouter rs) = list_all (shielded M) rs"
| "shielded M (ComposableRouter p q i d) =
     (pred_option (shielded M) p \<and> pred_option (shielded M) q \<and> pred_option (shielded M) i \<and> pred_option (shielded M) d)"
| "shielded M r = False"

lemma sanitized_public: "sanitized M as bs \<Longrightarrow> addrs_public M bs"
  by (auto simp: sanitized_def addrs_public_def list_all_iff simp flip: set_mset_mset)

lemma rewritten_public: "addrs_public M as \<Longrightarrow> dr_ma R = M \<Longrightarrow> rewritten R pid as bs \<Longrightarrow> addrs_public M bs"
  by (auto simp: rewritten_def addrs_public_def list_all_iff split: if_splits dest: mset_eq_setD)

lemma sanitize_public:
  "typed_peer v \<Longrightarrow> public_peer M (sanitize_peer M v)" "typed w \<Longrightarrow> public_record M (sanitize_record M w)"
  by (auto simp: sanitize_peer_def public_peer_def addrs_public_def list_all_iff typed_peer_def split: option.splits)
    (auto elim!: typedE simp: sanitize_record_def public_record_def addrs_public_def list_all_iff typed_rec_def)

lemma dns_public:
  "dr_ma R = M \<Longrightarrow> public_peer M v \<Longrightarrow> public_peer M (fst (rewrite_peer (resolveRecordAddrs R) v st))"
  "dr_ma R = M \<Longrightarrow> public_record M w \<Longrightarrow> public_record M (fst (rewrite_record (resolveRecordAddrs R) w st))"
  using dnsaddr.rewrite_peer_step[of R v st] dnsaddr.rewrite_record_step[of R w st]
  by (auto simp: public_peer_def public_record_def peer_rel_def record_rel_def treated_peer_def treated_def with_addrs_def
      split: option.splits Record.splits if_splits intro: rewritten_public)

lemma find_public:
  assumes "find_routers answers = Inr fd" "delivers fd out" "\<And>i. i < length answers \<Longrightarrow> answer_all P (answers ! i)"
  shows "list_all P out"
  unfolding list_all_iff
proof
  fix v assume "v \<in> set out"
  from find_delivers[OF assms(1,2) this] obtain i its where "i < length answers" "answers ! i = Inr its" "v \<in> set its"
    by blast
  with assms(3)[of i] show "P v" by (simp add: list_all_iff)
qed

lemma dns_answer_public:
  assumes "dr_ma R = M"
  shows "answer_all (public_peer M) inner \<Longrightarrow> answer_all (public_peer M) (fst (dnsAddrRouter_FindPeers R inner st))"
    and "answer_all (public_peer M) inner \<Longrightarrow> answer_all (public_peer M) (fst (dnsAddrRouter_GetClosestPeers R inner st))"
    and "answer_all (public_record M) res \<Longrightarrow> answer_all (public_record M) (fst (dnsAddrRouter_FindProviders R res st))"
proof -
  have peers: "list_all (public_peer M) (fst (map_state (dnsaddr_peer R) it st'))" if "list_all (public_peer M) it" for it st'
    using that by (induction it arbitrary: st')
      (auto simp: case_prod_beta Let_def dnsaddr_peer_eq dns_public(1)[OF assms])
  have recs: "list_all (public_record M) (fst (map_state (dnsaddr_record R) it st'))" if "list_all (public_record M) it" for it st'
    using that by (induction it arbitrary: st')
      (auto simp: case_prod_beta Let_def dnsaddr_record_eq dns_public(2)[OF assms])
  show "answer_all (public_peer M) inner \<Longrightarrow> answer_all (public_peer M) (fst (dnsAddrRouter_FindPeers R inner st))"
    and "answer_all (public_peer M) inner \<Longrightarrow> answer_all (public_peer M) (fst (dnsAddrRouter_GetClosestPeers R inner st))"
    by (cases inner; simp add: dnsAddrRouter_FindPeers_def dnsAddrRouter_GetClosestPeers_def resolvePeerRecords_def
        case_prod_beta peers)+
  show "answer_all (public_record M) res \<Longrightarrow> answer_all (public_record M) (fst (dnsAddrRouter_FindProviders R res st))"
    by (cases res) (simp_all add: dnsAddrRouter_FindProviders_def case_prod_beta recs)
qed

text \<open>A sanitiser over the DHT.\<close>

lemma sanitizer_public:
  assumes "r = Libp2pRouter \<or> r = CachedRouter Libp2pRouter"
  shows "serves_peers W a r inner \<Longrightarrow> answer_all (public_peer M) (sanitizeRouter_FindPeers M inner)"
    and "serves_peers W a r inner \<Longrightarrow> answer_all (public_peer M) (sanitizeRouter_GetClosestPeers M inner)"
    and "serves_providers W r res \<Longrightarrow> answer_all (public_record M) (sanitizeRouter_FindProviders M res)"
proof -
  from assms have r: "r \<in> {Libp2pRouter, CachedRouter Libp2pRouter}" by auto
  show "serves_peers W a r inner \<Longrightarrow> answer_all (public_peer M) (sanitizeRouter_FindPeers M inner)"
    and "serves_peers W a r inner \<Longrightarrow> answer_all (public_peer M) (sanitizeRouter_GetClosestPeers M inner)"
    by (drule dht_typed(1)[OF r], cases inner;
        simp add: sanitizeRouter_FindPeers_def sanitizeRouter_GetClosestPeers_def typed_answer_def list_all_iff sanitize_public(1))+
  show "serves_providers W r res \<Longrightarrow> answer_all (public_record M) (sanitizeRouter_FindProviders M res)"
    by (drule dht_typed(2)[OF r], cases res;
        simp add: sanitizeRouter_FindProviders_def typed_records_def list_all_iff sanitize_public(2))
qed

lemma peers_public:
  assumes "serves_peers W a r out" "\<And>a c res. su_client_peers W a c res \<Longrightarrow> answer_all (public_peer (su_ma W)) res"
    and "shielded (su_ma W) r"
  shows "answer_all (public_peer (su_ma W)) out"
  using assms(1,3)
proof induction
  case (parallel answers rs a fd out)
  then have "list_all (public_peer (su_ma W)) out" by (intro find_public[OF parallel(3,4)]) (simp add: list_all_length)
  then show ?case by simp
qed (simp_all add: assms(2) sanitizer_public dns_answer_public composable_FindPeers_def composable_GetClosestPeers_def)

lemma providers_public:
  assumes "serves_providers W r out" "\<And>c res. su_client_providers W c res \<Longrightarrow> answer_all (public_record (su_ma W)) res"
    and "shielded (su_ma W) r"
  shows "answer_all (public_record (su_ma W)) out"
  using assms(1,3)
proof induction
  case (parallel answers rs fd out)
  then have "list_all (public_record (su_ma W)) out" by (intro find_public[OF parallel(3,4)]) (simp add: list_all_length)
  then show ?case by simp
next
  case (block h newRequest response)
  then show ?case
    by (simp add: httpBlock_FindProviders_def httpBlock_record_def public_record_def addrs_public_def split: option.split)
qed (simp_all add: assms(2) sanitizer_public dns_answer_public composable_FindProviders_def)

section \<open>The started server\<close>

lemma combine_shielded:
  assumes "list_all (shielded M) ds" "list_all (shielded M) as"
  shows "shielded M (combineRouters dht book ds as dnsAddr mode)"
  using assms by (simp add: combineRouters_def withDNSAddrResolution_def Let_def)

lemma closest_shielded: "pred_option (shielded M) (closest_router dht book dnsAddr mode)"
  by (simp add: closest_router_def withDNSAddrResolution_def)

lemma start_shielded:
  fixes S :: "('ab, 'c, 'ma, 'env, 'cl) start_env"
  assumes "start S cfg = Inr sv"
    and "\<And>ep p h. newHTTPBlockRouter (se_http S) ep p None = Inr h \<Longrightarrow> \<not> manet_IsPrivateAddr M (endpointMa h)"
  shows "shielded M (sv_router sv)"
proof -
  obtain cfg1 dht and book :: "('ab, 'c) cachedAddrBook option" and blocks ps qs vs where blocks: "start_blocks S cfg1 = Inr blocks" and
    sv: "sv_router sv = (let d = (dnsAddrResolution cfg1 \<noteq> DNSAddrResolutionNever); m = dnsAddrResolution cfg1; b = (book \<noteq> None)
       in ComposableRouter (Some (combineRouters dht b (map ClientRouter ps) blocks d m))
            (Some (combineRouters dht b (map ClientRouter qs) [] d m)) (Some (combineRouters dht b (map ClientRouter vs) [] d m))
            (closest_router dht b d m))"
    by (rule start_success[OF assms(1)])
  from start_blocks_eq[OF blocks] obtain bs eps where
    bs: "blocks = map (\<lambda>b. ComposableRouter (Some (BlockRouter b)) None None None) bs"
      "list_all2 (\<lambda>(ep, pid) b. \<exists>p. se_Decode S pid = Inr p \<and> newHTTPBlockRouter (se_http S) ep p None = Inr b) eps bs"
    by blast
  have "\<not> manet_IsPrivateAddr M (endpointMa b)" if "b \<in> set bs" for b
  proof -
    from that obtain i where i: "i < length bs" "b = bs ! i" by (auto simp: in_set_conv_nth)
    with list_all2_nthD2[OF bs(2)] show ?thesis by (cases "eps ! i") (auto dest: assms(2))
  qed
  then have blocks: "list_all (shielded M) blocks" by (simp add: bs(1) list_all_iff)
  have clients: "list_all (shielded M) (map ClientRouter cs)" for cs by (simp add: list_all_iff)
  show ?thesis
    unfolding sv Let_def shielded.simps option.pred_inject
    by (intro conjI combine_shielded closest_shielded clients blocks) simp_all
qed

section \<open>Properties\<close>

text \<open>
  C3. No private address leaves the server. Provided the delegated routers answer with public addresses
  and the configured block providers have public ones, every address in every answer of a started
  server, to providers, peers and closest peers requests alike, is public: whatever the DHT's channel,
  walks and peerstore yield, whatever the address book holds, whatever the name servers answer, in
  every interleaving of background lookups and of the merge, however far the answer has been read.
\<close>

theorem served_addresses_are_public:
  assumes "start S cfg = Inr sv"
    and "\<And>ep p h. newHTTPBlockRouter (se_http S) ep p None = Inr h \<Longrightarrow> \<not> manet_IsPrivateAddr (be_MA (su_book W)) (endpointMa h)"
    and "\<And>c its. su_client_providers W c (Inr its) \<Longrightarrow> list_all (public_record (be_MA (su_book W))) its"
    and "\<And>a c its. su_client_peers W a c (Inr its) \<Longrightarrow> list_all (public_peer (be_MA (su_book W))) its"
  shows "(\<forall>its. serves_providers W (sv_router sv) (Inr its) \<longrightarrow> list_all (public_record (be_MA (su_book W))) its) \<and>
    (\<forall>a its. serves_peers W a (sv_router sv) (Inr its) \<longrightarrow> list_all (public_peer (be_MA (su_book W))) its)"
proof -
  have sh: "shielded (su_ma W) (sv_router sv)" by (rule start_shielded[OF assms(1)]) (rule assms(2))
  have c: "answer_all (public_record (su_ma W)) res" if "su_client_providers W c res" for c res
    using assms(3) that by (cases res) auto
  have d: "answer_all (public_peer (su_ma W)) res" if "su_client_peers W a c res" for a c res
    using assms(4) that by (cases res) auto
  have "answer_all (public_record (su_ma W)) (Inr its)" if "serves_providers W (sv_router sv) (Inr its)" for its
    by (rule providers_public[OF that _ sh]) (rule c)
  moreover have "answer_all (public_peer (su_ma W)) (Inr its)" if "serves_peers W a (sv_router sv) (Inr its)" for a its
    by (rule peers_public[OF that _ sh]) (rule d)
  ultimately show ?thesis by simp
qed

definition sample_surroundings ::
  "(sample_book, peer_id \<rightharpoonup> peerState, comps, peer_id \<times> comps list, string, string \<rightharpoonup> comps dnsAddrCacheEntry) surroundings" where
  "sample_surroundings = \<lparr>su_book = sample_book_env, su_dns = sample_env (\<lambda>_. Inl ErrNotFound), su_lru = map_lru,
     su_client_providers = (\<lambda>c res. res = Inr []), su_client_peers = (\<lambda>a c res. res = Inr [])\<rparr>"

lemma sample_peers_router:
  "\<exists>p i d. sv_router sample_server = ComposableRouter p (Some (DnsAddrRouter ''append'' (SanitizeRouter (CachedRouter Libp2pRouter)))) i d"
proof -
  let ?cfg = "sample_server_config\<lparr>contentEndpoints := [''a'']\<rparr>"
  note cl = sample_clients
  obtain cfg dht and book :: "sample_cab option" and qs where cfg: "cfg = ?cfg" "start_dht sample_start_env (dhtType cfg) = Inr dht"
      "start_book sample_start_env cfg dht = Inr book" "qs = ([] :: string list)" and
    sv: "\<exists>p i d. sv_router sample_server = ComposableRouter p
      (Some (combineRouters dht (book \<noteq> None) (map ClientRouter qs) [] (dnsAddrResolution cfg \<noteq> DNSAddrResolutionNever) (dnsAddrResolution cfg))) i d"
  proof (rule start_success[OF sample_server], goal_cases)
    case (1 cfg dht book blocks ps qs vs)
    have "cfg = ?cfg" using 1(2) sample_expand by (simp add: sample_start_env_def)
    moreover from this 1(6) cl have "qs = []" by simp
    ultimately show ?case using 1 by (intro 1(1)[of cfg dht book qs]) (auto simp: Let_def)
  qed
  have "dht" "book \<noteq> None" "dnsAddrResolution cfg = ''append''"
    using cfg start_dht_eq[OF cfg(2)] start_book_eq[OF cfg(3)] by (auto simp: sample_server_config_def)
  then show ?thesis using sv cfg(4)
    by (simp add: combineRouters_def withDNSAddrResolution_def DNSAddrResolutionNever_def Let_def)
qed

lemma served_addresses_are_public_witness:
  "\<exists>v. serves_peers sample_surroundings Peers (sv_router sample_server) (Inr [v]) \<and> public_peer sample_lib v"
proof -
  let ?W = sample_surroundings
  obtain p i d where r: "sv_router sample_server =
      ComposableRouter p (Some (DnsAddrRouter ''append'' (SanitizeRouter (CachedRouter Libp2pRouter)))) i d"
    using sample_peers_router by blast
  have libp2p: "serves_peers ?W Peers Libp2pRouter (libp2p_FindPeers (Inr \<lparr>ai_ID = ''P'', ai_Addrs = [sample_lan, sample_ip]\<rparr>))"
    by (rule serves_peers.libp2p_peers)
  note tree = serves_peers.peers[OF serves_peers.dnsaddr_peers[OF serves_peers.sanitize_peers[OF
    serves_peers.cached_peers[OF libp2p, where now = 0 and cs = sample_cr and pid = "''P''"]],
    where st = "sample_dns_state Map.empty" and flt = None and m = "''append''"], of p i d, folded r]
  have "\<exists>v. serves_peers ?W Peers (sv_router sample_server) (Inr [v])"
    using tree
    by (auto simp: composable_FindPeers_def dnsAddrRouter_FindPeers_def resolvePeerRecords_def sanitizeRouter_FindPeers_def
        cachedRouter_FindPeers_def FindPeers_cached_def FindPeers_inner_def libp2p_FindPeers_def withAddrsFromCache_def
        GetCachedAddrs_def count_lookup_def case_prod_beta Let_def sample_surroundings_def env_defs)
  then obtain v where v: "serves_peers ?W Peers (sv_router sample_server) (Inr [v])" ..
  have "list_all (public_peer sample_lib) its" if "serves_peers ?W Peers (sv_router sample_server) (Inr its)" for its
    using served_addresses_are_public[OF sample_server, of ?W] that
    by (auto simp: sample_surroundings_def sample_start_env_def newHTTPBlockRouter_def Let_def sample_book_env_def)
  from this[OF v] v show ?thesis by auto
qed

end
