(* ===== verification/DhtClient.thy ===== *)
theory DhtClient
  imports Routers
begin

text \<open>
  The bundled DHT client (server_dht.go): how its two clients are made, and which of them answers a call.
  The constructors of go-libp2p-kad-dht are parameters.
\<close>

record 'ma dht_options =
  do_ModeClient :: bool
  do_BootstrapPeers :: "'ma AddrInfo list"
  do_BucketSize :: "nat option"
  do_Validators :: "string list"

text \<open>\<open>'s\<close> is the standard client, \<open>'f\<close> the accelerated one.\<close>

record ('s, 'f, 'ma) dht_lib =
  dl_New :: "'ma dht_options \<Rightarrow> go_err + 's"
  dl_NewFullRT :: "string \<Rightarrow> 'ma dht_options \<Rightarrow> go_err + 'f"

record ('s, 'f) bundledDHT =
  bd_standard :: 's
  bd_fullRT :: 'f

definition newBundledDHT :: "('s, 'f, 'ma) dht_lib \<Rightarrow> 'ma AddrInfo list \<Rightarrow> go_err + ('s, 'f) bundledDHT" where
  "newBundledDHT L bootstrapAddrInfos =
     (case dl_New L \<lparr>do_ModeClient = True, do_BootstrapPeers = bootstrapAddrInfos, do_BucketSize = None, do_Validators = []\<rparr> of
        Inl err \<Rightarrow> Inl err
      | Inr standardDHT \<Rightarrow>
          (case dl_NewFullRT L ''/ipfs''
                  \<lparr>do_ModeClient = True, do_BootstrapPeers = bootstrapAddrInfos, do_BucketSize = Some 20,
                   do_Validators = [''pk'', ''ipns'']\<rparr> of
             Inl err \<Rightarrow> Inl err
           | Inr fullRT \<Rightarrow> Inr \<lparr>bd_standard = standardDHT, bd_fullRT = fullRT\<rparr>))"

text \<open>
  The calls of \<open>routing.Routing\<close>. A client is what it answers to each; whether the accelerated one is
  ready is asked anew at every call.
\<close>

datatype dht_call =
    DhtProvide string bool
  | DhtFindProvidersAsync string int
  | DhtFindPeer peer_id
  | DhtPutValue string string
  | DhtGetValue string
  | DhtSearchValue string
  | DhtBootstrap

definition bundled_call :: "bool \<Rightarrow> (dht_call \<Rightarrow> 'a) \<Rightarrow> (dht_call \<Rightarrow> 'a) \<Rightarrow> dht_call \<Rightarrow> 'a" where
  "bundled_call ready fullRT standard call =
     (case call of
        DhtProvide c brdcst \<Rightarrow> bundled_getDHT ready fullRT standard (DhtProvide c brdcst)
      | DhtFindProvidersAsync c i \<Rightarrow> bundled_getDHT ready fullRT standard (DhtFindProvidersAsync c i)
      | DhtFindPeer p \<Rightarrow> bundled_getDHT ready fullRT standard (DhtFindPeer p)
      | DhtPutValue k v \<Rightarrow> bundled_getDHT ready fullRT standard (DhtPutValue k v)
      | DhtGetValue k \<Rightarrow> bundled_getDHT ready fullRT standard (DhtGetValue k)
      | DhtSearchValue k \<Rightarrow> bundled_getDHT ready fullRT standard (DhtSearchValue k)
      | DhtBootstrap \<Rightarrow> standard DhtBootstrap)"

text \<open>
  A session: the calls with the readiness found at each. Until the accelerated client is ready the bundle
  answers as the standard client would, and from then on, where it stays ready, as the accelerated one.
\<close>

lemma bundled_session:
  assumes "list_all (\<lambda>(ready, c). \<not> ready) early" "list_all (\<lambda>(ready, c). ready \<and> c \<noteq> DhtBootstrap) late"
  shows "map (\<lambda>(ready, c). bundled_call ready fullRT standard c) (early @ late) =
    map (standard \<circ> snd) early @ map (fullRT \<circ> snd) late"
proof -
  have "bundled_call False fullRT standard c = standard c" for c
    by (simp add: bundled_call_def bundled_getDHT_def split: dht_call.split)
  moreover have "bundled_call True fullRT standard c = fullRT c" if "c \<noteq> DhtBootstrap" for c
    using that by (simp add: bundled_call_def bundled_getDHT_def split: dht_call.split)
  ultimately show ?thesis using assms by (auto simp: list_all_iff)
qed

text \<open>Both clients bootstrap from the same peers; only a bundle with both is returned.\<close>

lemma newBundledDHT_same_peers:
  assumes "newBundledDHT L peers = Inr b"
  shows "\<exists>o1 o2. dl_New L o1 = Inr (bd_standard b) \<and> dl_NewFullRT L ''/ipfs'' o2 = Inr (bd_fullRT b) \<and>
    do_BootstrapPeers o1 = peers \<and> do_BootstrapPeers o2 = peers \<and> do_ModeClient o1 \<and> do_ModeClient o2"
  using assms by (auto simp: newBundledDHT_def split: sum.splits intro!: exI)

end
