(* ===== verification/AutoConf.thy ===== *)
theory AutoConf
  imports Endpoints Routers
begin

text \<open>
  The autoconf client and the bootstrap peers (autoconf.go). The \<open>autoconf\<close> package is a parameter:
  making a client from its options, starting it, and the bootstrap peers of a configuration.
\<close>

record autoConfConfig =
  acc_enabled :: bool
  acc_url :: string
  acc_refreshInterval :: int
  acc_cacheDir :: string

record autoconf_options =
  ao_CacheDir :: string
  ao_UserAgent :: string
  ao_CacheSize :: int
  ao_Timeout :: int
  ao_URL :: string
  ao_RefreshInterval :: int
  ao_Fallback :: bool

text \<open>\<open>'cl\<close> is a client, \<open>'ac\<close> a configuration it fetched.\<close>

record ('cl, 'ac, 'ma) bootstrap_lib =
  bl_DefaultRefreshInterval :: int
  bl_MainnetAutoConfURL :: string
  bl_DefaultCacheSize :: int
  bl_DefaultTimeout :: int
  bl_NewClient :: "autoconf_options \<Rightarrow> go_err + 'cl"
  bl_Start :: "'cl \<Rightarrow> go_err + 'ac"
  bl_GetBootstrapPeers :: "'ac \<Rightarrow> string list \<Rightarrow> string list"
  bl_FallbackBootstrapPeers :: "string list"
  bl_NewMultiaddr :: "string \<Rightarrow> go_err + 'ma"
  bl_AddrInfoFromP2pAddr :: "'ma \<Rightarrow> go_err + 'ma AddrInfo"

text \<open>\<open>filepath.Join(".", ".autoconf-cache")\<close> is the cleaned path.\<close>

definition createAutoConfClient ::
  "('cl, 'ac, 'ma) bootstrap_lib \<Rightarrow> string \<Rightarrow> autoConfConfig \<Rightarrow> go_err + 'cl" where
  "createAutoConfClient B version cfg =
     (let cacheDir = (if acc_cacheDir cfg = [] then ''.autoconf-cache'' else acc_cacheDir cfg);
          refreshInterval = (if acc_refreshInterval cfg = 0 then bl_DefaultRefreshInterval B else acc_refreshInterval cfg);
          url = (if acc_url cfg = [] then bl_MainnetAutoConfURL B else acc_url cfg)
      in bl_NewClient B \<lparr>ao_CacheDir = cacheDir, ao_UserAgent = ''someguy/'' @ version,
           ao_CacheSize = bl_DefaultCacheSize B, ao_Timeout = bl_DefaultTimeout B, ao_URL = url,
           ao_RefreshInterval = refreshInterval, ao_Fallback = True\<rparr>)"

text \<open>A nil configuration is \<open>None\<close>. The caller logs an error and goes on with a nil configuration.\<close>

definition startAutoConf ::
  "('cl, 'ac, 'ma) bootstrap_lib \<Rightarrow> string \<Rightarrow> autoConfConfig \<Rightarrow> go_err + 'ac option" where
  "startAutoConf B version cfg =
     (if acc_enabled cfg \<and> acc_url cfg \<noteq> [] then
        (case createAutoConfClient B version cfg of
           Inl err \<Rightarrow> Inl (ErrWrap ''failed to create autoconf client'' err)
         | Inr client \<Rightarrow>
             (case bl_Start B client of
                Inl err \<Rightarrow> Inl (ErrWrap ''failed to start autoconf updater'' err)
              | Inr ac \<Rightarrow> Inr (Some ac)))
      else Inr None)"

fun stringsToPeerAddrInfos :: "('cl, 'ac, 'ma) bootstrap_lib \<Rightarrow> string list \<Rightarrow> 'ma AddrInfo list" where
  "stringsToPeerAddrInfos B [] = []"
| "stringsToPeerAddrInfos B (s # addrs) =
     (case bl_NewMultiaddr B s of
        Inl err \<Rightarrow> stringsToPeerAddrInfos B addrs
      | Inr ma \<Rightarrow>
          (case bl_AddrInfoFromP2pAddr B ma of
             Inl err \<Rightarrow> stringsToPeerAddrInfos B addrs
           | Inr info \<Rightarrow> info # stringsToPeerAddrInfos B addrs))"

definition getBootstrapPeerAddrInfos ::
  "('cl, 'ac, 'ma) bootstrap_lib \<Rightarrow> autoconf_lib \<Rightarrow> string \<Rightarrow> 'ac option \<Rightarrow> 'ma AddrInfo list" where
  "getBootstrapPeerAddrInfos B A dht autoConf =
     (case autoConf of
        Some ac \<Rightarrow> stringsToPeerAddrInfos B (bl_GetBootstrapPeers B ac (getNativeSystems A dht))
      | None \<Rightarrow> stringsToPeerAddrInfos B (bl_FallbackBootstrapPeers B))"

text \<open>What \<open>start\<close> does with the two: an error of the first is logged, its configuration then nil.\<close>

definition start_bootstrap ::
  "('cl, 'ac, 'ma) bootstrap_lib \<Rightarrow> autoconf_lib \<Rightarrow> string \<Rightarrow> autoConfConfig \<Rightarrow> string \<Rightarrow> 'ac option \<times> 'ma AddrInfo list" where
  "start_bootstrap B A version cfg dht =
     (let autoConf = (case startAutoConf B version cfg of Inl err \<Rightarrow> None | Inr ac \<Rightarrow> ac)
      in (autoConf, getBootstrapPeerAddrInfos B A dht autoConf))"

section \<open>Lemmas\<close>

text \<open>The bootstrap address a text stands for, if any; bad ones are skipped, the others keep their order.\<close>

definition bootstrap_info :: "('cl, 'ac, 'ma) bootstrap_lib \<Rightarrow> string \<Rightarrow> 'ma AddrInfo option" where
  "bootstrap_info B s = (case bl_NewMultiaddr B s of Inl _ \<Rightarrow> None
     | Inr ma \<Rightarrow> (case bl_AddrInfoFromP2pAddr B ma of Inl _ \<Rightarrow> None | Inr info \<Rightarrow> Some info))"

lemma stringsToPeerAddrInfos_eq: "stringsToPeerAddrInfos B ss = List.map_filter (bootstrap_info B) ss"
  by (induction ss) (auto simp: bootstrap_info_def List.map_filter_simps split: sum.split)

text \<open>
  The default URL of \<open>createAutoConfClient\<close> is never used: a client is only made for a URL, and it is
  made for exactly that URL.
\<close>

lemma startAutoConf_url:
  assumes "startAutoConf B version cfg = Inr (Some ac)"
  shows "\<exists>opts client. bl_NewClient B opts = Inr client \<and> bl_Start B client = Inr ac \<and> ao_URL opts = acc_url cfg \<and>
    ao_URL opts \<noteq> [] \<and> ao_CacheDir opts \<noteq> [] \<and> ao_RefreshInterval opts =
      (if acc_refreshInterval cfg = 0 then bl_DefaultRefreshInterval B else acc_refreshInterval cfg)"
  using assms unfolding startAutoConf_def createAutoConfClient_def Let_def
  by (auto split: if_splits sum.splits intro!: exI)

section \<open>Properties\<close>

text \<open>
  A server without a usable autoconf still bootstraps: when autoconf is off, has no URL, or its client
  cannot be made or started, the bootstrap peers are the fallback ones, in their order, without those
  that do not parse; otherwise they are those the configuration names for the native systems, which are
  none unless a DHT runs.
\<close>

theorem bootstrap_peers:
  "case start_bootstrap B A version cfg dht of (autoConf, infos) \<Rightarrow>
     (if acc_enabled cfg \<and> acc_url cfg \<noteq> [] \<and> \<not> isl (startAutoConf B version cfg)
      then \<exists>ac. autoConf = Some ac \<and> infos = List.map_filter (bootstrap_info B) (bl_GetBootstrapPeers B ac
             (if dht \<in> {''dht'', ''accelerated'', ''standard'', ''auto''} then [ac_SystemAminoDHT A] else []))
      else autoConf = None \<and> infos = List.map_filter (bootstrap_info B) (bl_FallbackBootstrapPeers B))"
  by (auto simp: start_bootstrap_def getBootstrapPeerAddrInfos_def stringsToPeerAddrInfos_eq startAutoConf_def
      getNativeSystems_def Let_def split: sum.split)

end
