(* ===== verification/Limits.thy ===== *)
theory Limits
  imports AddrBook "HOL-Library.Signed_Division"
begin

text \<open>
  The limits the libp2p host runs under (rcmgr.go, internal/fd): how memory and descriptor counts become
  the limits of go-libp2p's resource manager. The library's constants, its scaled defaults and its
  \<open>Build\<close> are parameters; \<open>rcmgr_lawful\<close> states what its documentation says of them. Go's \<open>int\<close> is an
  \<open>int\<close> kept in 64 bits by \<open>int64\<close>, \<open>uint64\<close> a \<open>64 word\<close>, and \<open>/\<close> on \<open>int\<close> truncates.
\<close>

section \<open>The library\<close>

record ResourceLimits =
  rl_Streams :: int
  rl_StreamsInbound :: int
  rl_StreamsOutbound :: int
  rl_Conns :: int
  rl_ConnsInbound :: int
  rl_ConnsOutbound :: int
  rl_FD :: int
  rl_Memory :: int

record PartialLimitConfig =
  lc_System :: ResourceLimits
  lc_Transient :: ResourceLimits
  lc_AllowlistedSystem :: ResourceLimits
  lc_AllowlistedTransient :: ResourceLimits
  lc_ServiceDefault :: ResourceLimits
  lc_ServicePeerDefault :: ResourceLimits
  lc_ProtocolDefault :: ResourceLimits
  lc_ProtocolPeerDefault :: ResourceLimits
  lc_Conn :: ResourceLimits
  lc_Stream :: ResourceLimits
  lc_PeerDefault :: ResourceLimits

text \<open>
  \<open>rc_Memory85\<close> is 85% of the machine's memory; \<open>rc_Scale\<close> the library's default limits, completed by
  \<open>SetDefaultServiceLimits\<close>, scaled to a memory size and a count of descriptors.
\<close>

record 'con rcmgr_lib =
  rc_Memory85 :: "64 word"
  rc_Unlimited :: int
  rc_Unlimited64 :: int
  rc_DefaultLimit :: int
  rc_Infinite :: ResourceLimits
  rc_Scale :: "int \<Rightarrow> int \<Rightarrow> 'con"
  rc_Build :: "PartialLimitConfig \<Rightarrow> 'con \<Rightarrow> 'con"
  rc_ToPartial :: "'con \<Rightarrow> PartialLimitConfig"
  rc_Empty :: 'con

section \<open>File descriptors\<close>

text \<open>The systems with a version of \<open>GetNumFDs\<close>; on Unix the soft limit or the failure to read it.\<close>

datatype fd_system = FdUnix "64 word option" | FdWindows | FdOther

definition GetNumFDs :: "fd_system \<Rightarrow> int" where
  "GetNumFDs sys =
     (case sys of
        FdUnix None \<Rightarrow> 0
      | FdUnix (Some cur) \<Rightarrow> sint cur
      | FdWindows \<Rightarrow> max_int64
      | FdOther \<Rightarrow> 0)"

section \<open>The configuration\<close>

definition default_memory :: "'con rcmgr_lib \<Rightarrow> 64 word \<Rightarrow> 64 word" where
  "default_memory L maxMemory = (if maxMemory = 0 then rc_Memory85 L else maxMemory)"

definition default_fd :: "fd_system \<Rightarrow> int \<Rightarrow> int" where
  "default_fd sys maxFD = (if maxFD = 0 then GetNumFDs sys sdiv 2 else maxFD)"

definition partial_limits :: "'con rcmgr_lib \<Rightarrow> 64 word \<Rightarrow> int \<Rightarrow> PartialLimitConfig" where
  "partial_limits L maxMemory maxFD =
     (let maxMemoryMB = maxMemory div (1024 * 1024);
          systemConnsInbound = sint (1 * maxMemoryMB);
          unlimited = rc_Unlimited L;
          infinite = rc_Infinite L
      in \<lparr>lc_System = \<lparr>rl_Streams = unlimited, rl_StreamsInbound = unlimited, rl_StreamsOutbound = unlimited,
            rl_Conns = unlimited, rl_ConnsInbound = systemConnsInbound, rl_ConnsOutbound = unlimited,
            rl_FD = maxFD, rl_Memory = sint maxMemory\<rparr>,
          lc_Transient = \<lparr>rl_Streams = unlimited, rl_StreamsInbound = unlimited, rl_StreamsOutbound = unlimited,
            rl_Conns = unlimited, rl_ConnsInbound = systemConnsInbound sdiv 4, rl_ConnsOutbound = unlimited,
            rl_FD = maxFD sdiv 4, rl_Memory = sint (maxMemory div 4)\<rparr>,
          lc_AllowlistedSystem = infinite, lc_AllowlistedTransient = infinite, lc_ServiceDefault = infinite,
          lc_ServicePeerDefault = infinite, lc_ProtocolDefault = infinite, lc_ProtocolPeerDefault = infinite,
          lc_Conn = infinite, lc_Stream = infinite,
          lc_PeerDefault = \<lparr>rl_Streams = unlimited, rl_StreamsInbound = rc_DefaultLimit L, rl_StreamsOutbound = unlimited,
            rl_Conns = unlimited, rl_ConnsInbound = rc_DefaultLimit L, rl_ConnsOutbound = unlimited,
            rl_FD = unlimited, rl_Memory = rc_Unlimited64 L\<rparr>\<rparr>)"

text \<open>The checks against the connection manager's high-water mark.\<close>

definition raise_inbound :: "'con rcmgr_lib \<Rightarrow> int \<Rightarrow> PartialLimitConfig \<Rightarrow> PartialLimitConfig" where
  "raise_inbound L connMgrHighWater p =
     (let sys = lc_System p in
      if rl_ConnsInbound sys > rc_DefaultLimit L then
        let m0 = rl_ConnsInbound sys;
            twice = int64 (connMgrHighWater * 2);
            m1 = (if m0 < twice then twice else m0);
            maxInboundConns = (if m1 < 800 then 800 else m1);
            sys1 = (if rl_StreamsInbound sys > rc_DefaultLimit L
                    then sys\<lparr>rl_StreamsInbound :=
                           int64 (int64 (maxInboundConns * rl_StreamsInbound sys) sdiv rl_ConnsInbound sys)\<rparr>
                    else sys)
        in p\<lparr>lc_System := sys1\<lparr>rl_ConnsInbound := maxInboundConns\<rparr>\<rparr>
      else p)"

definition completed_limits :: "'con rcmgr_lib \<Rightarrow> fd_system \<Rightarrow> 64 word \<Rightarrow> int \<Rightarrow> int \<Rightarrow> PartialLimitConfig" where
  "completed_limits L sys maxMemory0 maxFD0 connMgrHighWater =
     (let maxMemory = default_memory L maxMemory0;
          maxFD = default_fd sys maxFD0;
          p = rc_ToPartial L (rc_Build L (partial_limits L maxMemory maxFD) (rc_Scale L (sint maxMemory) maxFD))
      in raise_inbound L connMgrHighWater p)"

definition makeResourceManagerConfig :: "'con rcmgr_lib \<Rightarrow> fd_system \<Rightarrow> 64 word \<Rightarrow> int \<Rightarrow> int \<Rightarrow> 'con" where
  "makeResourceManagerConfig L sys maxMemory maxFD connMgrHighWater =
     rc_Build L (completed_limits L sys maxMemory maxFD connMgrHighWater) (rc_Empty L)"

text \<open>\<open>new\<close> is \<open>NewResourceManager\<close> over a fixed limiter.\<close>

definition makeResourceMgrs ::
  "'con rcmgr_lib \<Rightarrow> fd_system \<Rightarrow> ('con \<Rightarrow> go_err + 'rm) \<Rightarrow> 64 word \<Rightarrow> int \<Rightarrow> int \<Rightarrow> go_err + 'rm" where
  "makeResourceMgrs L sys new maxMemory maxFD connMgrHighWater =
     new (makeResourceManagerConfig L sys (default_memory L maxMemory) (default_fd sys maxFD) connMgrHighWater)"

section \<open>Its effect\<close>

text \<open>
  A limit that is set survives completion: one that is unlimited stays so, one that is a proper number
  (positive, and not the largest \<open>int\<close>) stays that number.
\<close>

definition set_limit :: "'con rcmgr_lib \<Rightarrow> int \<Rightarrow> bool" where
  "set_limit L v \<longleftrightarrow> v = rc_Unlimited L \<or> 0 < v \<and> v < max_int64"

definition rcmgr_lawful :: "'con rcmgr_lib \<Rightarrow> bool" where
  "rcmgr_lawful L \<longleftrightarrow> rc_DefaultLimit L = 0 \<and> rc_Unlimited L < 0 \<and>
     (\<forall>p c scope f. scope \<in> {lc_System, lc_Transient} \<longrightarrow>
        f \<in> {rl_Streams, rl_StreamsInbound, rl_StreamsOutbound, rl_Conns, rl_ConnsInbound, rl_ConnsOutbound, rl_FD, rl_Memory} \<longrightarrow>
        set_limit L (f (scope p)) \<longrightarrow> f (scope (rc_ToPartial L (rc_Build L p c))) = f (scope p))"

lemma rcmgr_lawfulD:
  assumes "rcmgr_lawful L"
  shows "rc_DefaultLimit L = 0" "rc_Unlimited L < 0"
    and "set_limit L (rl_ConnsInbound (lc_System p)) \<Longrightarrow>
      rl_ConnsInbound (lc_System (rc_ToPartial L (rc_Build L p c))) = rl_ConnsInbound (lc_System p)"
    and "set_limit L (rl_StreamsInbound (lc_System p)) \<Longrightarrow>
      rl_StreamsInbound (lc_System (rc_ToPartial L (rc_Build L p c))) = rl_StreamsInbound (lc_System p)"
    and "set_limit L (rl_Memory (lc_System p)) \<Longrightarrow>
      rl_Memory (lc_System (rc_ToPartial L (rc_Build L p c))) = rl_Memory (lc_System p)"
    and "set_limit L (rl_ConnsInbound (lc_Transient p)) \<Longrightarrow>
      rl_ConnsInbound (lc_Transient (rc_ToPartial L (rc_Build L p c))) = rl_ConnsInbound (lc_Transient p)"
    and "set_limit L (rl_Memory (lc_Transient p)) \<Longrightarrow>
      rl_Memory (lc_Transient (rc_ToPartial L (rc_Build L p c))) = rl_Memory (lc_Transient p)"
  using assms unfolding rcmgr_lawful_def by blast+

lemma sint_small:
  assumes "uint (w :: 64 word) < 2 ^ 63"
  shows "sint w = uint w"
proof -
  have "- (2 ^ 63) \<le> uint w" by (rule order_trans[OF _ uint_ge_0]) simp
  then have "signed_take_bit 63 (uint w) = uint w" using assms by (intro signed_take_bit_int_eq_self)
  then show ?thesis by (simp add: sint_uint)
qed

lemma mb_bounds: "sint ((m :: 64 word) div (1024 * 1024)) = uint m div 1048576" "uint m div 1048576 < 2 ^ 44"
proof -
  have "uint m < 2 ^ 64" using uint_lt2p[of m] by simp
  then show b: "uint m div 1048576 < 2 ^ 44" by simp
  have "uint (m div (1024 * 1024)) = uint m div 1048576" by (simp add: uint_div)
  with b show "sint (m div (1024 * 1024)) = uint m div 1048576" by (simp add: sint_small)
qed

lemma raise_inbound_unlimited:
  assumes "rc_DefaultLimit L = 0" "rl_StreamsInbound (lc_System p) < 0" "rl_ConnsInbound (lc_System p) = n" "0 < n"
    and "0 \<le> high" "high < 2 ^ 62"
  shows "raise_inbound L high p = p\<lparr>lc_System := (lc_System p)\<lparr>rl_ConnsInbound := max 800 (max (2 * high) n)\<rparr>\<rparr>"
proof -
  have "int64 (high * 2) = 2 * high" using assms(5,6) by (simp add: int64_def signed_take_bit_int_eq_self)
  with assms(1-4) show ?thesis by (simp add: raise_inbound_def Let_def max_def)
qed

text \<open>
  No limit on descriptors is reported as \<open>2^64 - 1\<close>, which the conversion to \<open>int\<close> makes \<open>-1\<close> and the
  halving 0: the configuration is then scaled to no descriptors at all.
\<close>

lemma unlimited_descriptors_count_as_none: "default_fd (FdUnix (Some (- 1))) 0 = 0"
  by (simp add: default_fd_def GetNumFDs_def signed_divide_int_def)

section \<open>Properties\<close>

text \<open>
  C32. The inbound limits that survive the library's completion. With at least a megabyte of memory the
  host accepts one inbound connection per megabyte, but never fewer than twice the high-water mark of
  the connection manager nor fewer than 800; inbound streams stay unlimited; connections still being
  set up may use a quarter of the memory and, in number, a quarter of the count per megabyte, which the
  high-water mark and the floor of 800 do not raise.
\<close>

theorem inbound_limits:
  assumes "rcmgr_lawful L" and "2 ^ 20 \<le> uint (default_memory L maxMemory)" and "0 \<le> high" "high < 2 ^ 62"
  shows "let p = completed_limits L sys maxMemory maxFD high;
             m = uint (default_memory L maxMemory);
             mb = m div 2 ^ 20
    in rl_ConnsInbound (lc_System p) = max 800 (max (2 * high) mb) \<and>
       rl_StreamsInbound (lc_System p) = rc_Unlimited L \<and>
       (4 \<le> mb \<longrightarrow> rl_ConnsInbound (lc_Transient p) = mb div 4) \<and>
       rl_Memory (lc_Transient p) = m div 4"
proof -
  let ?m = "default_memory L maxMemory"
  let ?fd = "default_fd sys maxFD"
  let ?q = "partial_limits L ?m ?fd"
  let ?c = "rc_Scale L (sint ?m) ?fd"
  let ?p = "rc_ToPartial L (rc_Build L ?q ?c)"
  note law = rcmgr_lawfulD[OF assms(1)]
  have mb: "1 \<le> uint ?m div 1048576" using assms(2) by simp
  have q: "rl_ConnsInbound (lc_System ?q) = uint ?m div 1048576" "rl_StreamsInbound (lc_System ?q) = rc_Unlimited L"
    "rl_ConnsInbound (lc_Transient ?q) = (uint ?m div 1048576) div 4" "rl_Memory (lc_Transient ?q) = sint (?m div 4)"
    using mb by (simp_all add: partial_limits_def Let_def mb_bounds(1)[simplified] signed_divide_int_def)
  have b: "uint ?m div 1048576 < 2 ^ 44" by (rule mb_bounds(2))
  have m4: "sint (?m div 4) = uint ?m div 4"
  proof -
    have "uint (?m div 4) = uint ?m div 4" by (simp add: uint_div)
    moreover have "uint ?m < 2 ^ 64" using uint_lt2p[of ?m] by simp
    ultimately show ?thesis by (simp add: sint_small)
  qed
  have p: "rl_ConnsInbound (lc_System ?p) = uint ?m div 1048576" "rl_StreamsInbound (lc_System ?p) = rc_Unlimited L"
    using law(3)[of ?q ?c] law(4)[of ?q ?c] q mb b by (simp_all add: set_limit_def max_int64_def)
  have "rl_Memory (lc_Transient ?p) = uint ?m div 4"
  proof -
    have "uint ?m < 2 ^ 64" using uint_lt2p[of ?m] by simp
    with assms(2) have "0 < uint ?m div 4" "uint ?m div 4 < max_int64" by (simp_all add: max_int64_def)
    with law(7)[of ?q ?c] q(4) m4 show ?thesis by (simp add: set_limit_def)
  qed
  moreover have "rl_ConnsInbound (lc_Transient ?p) = uint ?m div 1048576 div 4" if "4 \<le> uint ?m div 1048576"
  proof -
    from that b have "0 < uint ?m div 1048576 div 4" "uint ?m div 1048576 div 4 < max_int64" by (simp_all add: max_int64_def)
    with law(6)[of ?q ?c] q(3) show ?thesis by (simp add: set_limit_def)
  qed
  moreover have "completed_limits L sys maxMemory maxFD high =
      ?p\<lparr>lc_System := (lc_System ?p)\<lparr>rl_ConnsInbound := max 800 (max (2 * high) (uint ?m div 1048576))\<rparr>\<rparr>"
    unfolding completed_limits_def Let_def using law(1,2) mb p assms(3,4) by (intro raise_inbound_unlimited) simp_all
  ultimately show ?thesis by (simp add: p(2) Let_def)
qed

text \<open>The simplest completion: defaults are left as they are.\<close>

definition sample_infinite :: ResourceLimits where
  "sample_infinite = \<lparr>rl_Streams = -1, rl_StreamsInbound = -1, rl_StreamsOutbound = -1, rl_Conns = -1, rl_ConnsInbound = -1,
     rl_ConnsOutbound = -1, rl_FD = -1, rl_Memory = -1\<rparr>"

definition sample_partial :: PartialLimitConfig where
  "sample_partial = (let l = sample_infinite in \<lparr>lc_System = l, lc_Transient = l, lc_AllowlistedSystem = l,
     lc_AllowlistedTransient = l, lc_ServiceDefault = l, lc_ServicePeerDefault = l, lc_ProtocolDefault = l,
     lc_ProtocolPeerDefault = l, lc_Conn = l, lc_Stream = l, lc_PeerDefault = l\<rparr>)"

definition sample_rcmgr :: "PartialLimitConfig rcmgr_lib" where
  "sample_rcmgr = \<lparr>rc_Memory85 = 2 ^ 33, rc_Unlimited = -1, rc_Unlimited64 = -1, rc_DefaultLimit = 0,
     rc_Infinite = sample_infinite,
     rc_Scale = (\<lambda>mem fds. sample_partial), rc_Build = (\<lambda>p c. p), rc_ToPartial = (\<lambda>c. c), rc_Empty = sample_partial\<rparr>"

lemma inbound_limits_witness:
  "rl_ConnsInbound (lc_System (completed_limits sample_rcmgr FdOther 0 0 3000)) = 8192"
proof -
  have "rcmgr_lawful sample_rcmgr" by (simp add: rcmgr_lawful_def sample_rcmgr_def)
  moreover have "uint (default_memory sample_rcmgr 0) = 2 ^ 33" by (simp add: default_memory_def sample_rcmgr_def)
  ultimately show ?thesis
    using inbound_limits[where L = sample_rcmgr and maxMemory = 0 and high = 3000 and sys = FdOther and maxFD = 0]
    by (simp add: Let_def)
qed

end
