(* ===== verification/Flags.thy ===== *)
theory Flags
  imports AddrBook Server
begin

text \<open>
  The flags of the commands (main.go) and the configuration the \<open>start\<close> command builds from them. The
  command line library is a parameter: what its accessors return. \<open>holds_flag\<close> states its documentation
  for a flag that neither the command line nor the environment sets.
\<close>

section \<open>Flags\<close>

text \<open>A flag's type with its default; \<open>'f\<close> is the type of floating point numbers.\<close>

datatype 'f flag_value =
    StringFlag string
  | BoolFlag bool
  | DurationFlag int
  | IntFlag int
  | Uint64Flag "64 word"
  | Float64Flag 'f
  | StringSliceFlag "string list"

record 'f cli_flag =
  fl_Name :: string
  fl_Value :: "'f flag_value"
  fl_EnvVars :: "string list"

definition new_flag :: "string \<Rightarrow> 'f flag_value \<Rightarrow> string list \<Rightarrow> 'f cli_flag" where
  "new_flag n v es = \<lparr>fl_Name = n, fl_Value = v, fl_EnvVars = es\<rparr>"

definition DefaultRecordsLimit :: int where "DefaultRecordsLimit = 100"
definition DefaultStreamingRecordsLimit :: int where "DefaultStreamingRecordsLimit = 1000"

definition autoconf_flags :: "'f cli_flag list" where
  "autoconf_flags =
     [new_flag ''datadir'' (StringFlag []) [''SOMEGUY_DATADIR''],
      new_flag ''autoconf'' (BoolFlag True) [''SOMEGUY_AUTOCONF''],
      new_flag ''autoconf-url'' (StringFlag ''https://conf.ipfs-mainnet.org/autoconf.json'') [''SOMEGUY_AUTOCONF_URL''],
      new_flag ''autoconf-refresh'' (DurationFlag (24 * time_Hour)) [''SOMEGUY_AUTOCONF_REFRESH'']]"

definition start_flags :: "lib_consts \<Rightarrow> autoconf_lib \<Rightarrow> 'f \<Rightarrow> 'f cli_flag list" where
  "start_flags K A zero =
     [new_flag ''listen-address'' (StringFlag ''127.0.0.1:8190'') [''SOMEGUY_LISTEN_ADDRESS''],
      new_flag ''dht'' (StringFlag ''accelerated'') [''SOMEGUY_DHT''],
      new_flag ''cached-addr-book'' (BoolFlag True) [''SOMEGUY_CACHED_ADDR_BOOK''],
      new_flag ''cached-addr-book-active-probing'' (BoolFlag True) [''SOMEGUY_CACHED_ADDR_BOOK_ACTIVE_PROBING''],
      new_flag ''cached-addr-book-recent-ttl'' (DurationFlag (DefaultRecentlyConnectedAddrTTL K))
        [''SOMEGUY_CACHED_ADDR_BOOK_RECENT_TTL''],
      new_flag ''cached-addr-book-max-concurrent-find-peers'' (IntFlag (int DefaultMaxConcurrentFindPeers))
        [''SOMEGUY_CACHED_ADDR_BOOK_MAX_CONCURRENT_FIND_PEERS''],
      new_flag ''dnsaddr-resolution'' (StringFlag DNSAddrResolutionAppend) [''SOMEGUY_DNSADDR_RESOLUTION''],
      new_flag ''routing-timeout'' (DurationFlag DefaultRoutingTimeout) [''SOMEGUY_ROUTING_TIMEOUT''],
      new_flag ''records-limit'' (IntFlag DefaultRecordsLimit) [''SOMEGUY_RECORDS_LIMIT''],
      new_flag ''streaming-records-limit'' (IntFlag DefaultStreamingRecordsLimit) [''SOMEGUY_STREAMING_RECORDS_LIMIT''],
      new_flag ''provider-endpoints'' (StringSliceFlag [ac_AutoPlaceholder A]) [''SOMEGUY_PROVIDER_ENDPOINTS''],
      new_flag ''http-block-provider-endpoints'' (StringSliceFlag []) [''SOMEGUY_HTTP_BLOCK_PROVIDER_ENDPOINTS''],
      new_flag ''http-block-provider-peerids'' (StringSliceFlag []) [''SOMEGUY_HTTP_BLOCK_PROVIDER_PEERIDS''],
      new_flag ''peer-endpoints'' (StringSliceFlag [ac_AutoPlaceholder A]) [''SOMEGUY_PEER_ENDPOINTS''],
      new_flag ''ipns-endpoints'' (StringSliceFlag [ac_AutoPlaceholder A]) [''SOMEGUY_IPNS_ENDPOINTS''],
      new_flag ''libp2p-listen-addrs''
        (StringSliceFlag
          [''/ip4/0.0.0.0/tcp/4004'', ''/ip4/0.0.0.0/udp/4004/quic-v1'', ''/ip4/0.0.0.0/udp/4004/webrtc-direct'',
           ''/ip4/0.0.0.0/udp/4004/quic-v1/webtransport'', ''/ip6/::/tcp/4004'', ''/ip6/::/udp/4004/quic-v1'',
           ''/ip6/::/udp/4004/webrtc-direct'', ''/ip6/::/udp/4004/quic-v1/webtransport''])
        [''SOMEGUY_LIBP2P_LISTEN_ADDRS''],
      new_flag ''libp2p-connmgr-low'' (IntFlag 100) [''SOMEGUY_LIBP2P_CONNMGR_LOW''],
      new_flag ''libp2p-connmgr-high'' (IntFlag 3000) [''SOMEGUY_LIBP2P_CONNMGR_HIGH''],
      new_flag ''libp2p-connmgr-grace'' (DurationFlag (60 * 10 ^ 9)) [''SOMEGUY_LIBP2P_CONNMGR_GRACE_PERIOD''],
      new_flag ''libp2p-max-memory'' (Uint64Flag 0) [''SOMEGUY_LIBP2P_MAX_MEMORY''],
      new_flag ''libp2p-max-fd'' (Uint64Flag 0) [''SOMEGUY_LIBP2P_MAX_FD''],
      new_flag ''tracing-auth'' (StringFlag []) [''SOMEGUY_TRACING_AUTH''],
      new_flag ''sampling-fraction'' (Float64Flag zero) [''SOMEGUY_SAMPLING_FRACTION'']] @ autoconf_flags"

definition ask_flags :: "autoconf_lib \<Rightarrow> 'f cli_flag list" where
  "ask_flags A =
     [new_flag ''endpoint'' (StringFlag (ac_AutoPlaceholder A)) [], new_flag ''pretty'' (BoolFlag False) []] @ autoconf_flags"

section \<open>The configuration\<close>

record 'f cli_context =
  cx_String :: "string \<Rightarrow> string"
  cx_Bool :: "string \<Rightarrow> bool"
  cx_Duration :: "string \<Rightarrow> int"
  cx_Int :: "string \<Rightarrow> int"
  cx_Uint64 :: "string \<Rightarrow> 64 word"
  cx_Float64 :: "string \<Rightarrow> 'f"
  cx_StringSlice :: "string \<Rightarrow> string list"

definition holds_flag :: "'f cli_context \<Rightarrow> 'f cli_flag \<Rightarrow> bool" where
  "holds_flag C fl \<longleftrightarrow> (case fl_Value fl of
     StringFlag v \<Rightarrow> cx_String C (fl_Name fl) = v
   | BoolFlag v \<Rightarrow> cx_Bool C (fl_Name fl) = v
   | DurationFlag v \<Rightarrow> cx_Duration C (fl_Name fl) = v
   | IntFlag v \<Rightarrow> cx_Int C (fl_Name fl) = v
   | Uint64Flag v \<Rightarrow> cx_Uint64 C (fl_Name fl) = v
   | Float64Flag v \<Rightarrow> cx_Float64 C (fl_Name fl) = v
   | StringSliceFlag v \<Rightarrow> cx_StringSlice C (fl_Name fl) = v)"

record 'f full_config = server_config +
  listenAddress :: string
  libp2pListenAddress :: "string list"
  connMgrLow :: int
  connMgrHi :: int
  connMgrGrace :: int
  cfg_maxMemory :: "64 word"
  cfg_maxFD :: int
  tracingAuth :: string
  samplingFraction :: 'f
  autoConf_url :: string
  autoConf_refresh :: int
  autoConf_cacheDir :: string

text \<open>\<open>join\<close> is \<open>filepath.Join\<close> of the data directory and the name of the cache.\<close>

definition flags_config :: "(string \<Rightarrow> string \<Rightarrow> string) \<Rightarrow> 'f cli_context \<Rightarrow> 'f full_config" where
  "flags_config join C = \<lparr>
     dhtType = cx_String C ''dht'',
     contentEndpoints = cx_StringSlice C ''provider-endpoints'',
     peerEndpoints = cx_StringSlice C ''peer-endpoints'',
     ipnsEndpoints = cx_StringSlice C ''ipns-endpoints'',
     autoConf_enabled = cx_Bool C ''autoconf'',
     cachedAddrBookOn = cx_Bool C ''cached-addr-book'',
     cachedAddrBookActiveProbing = cx_Bool C ''cached-addr-book-active-probing'',
     cachedAddrBookRecentTTL = cx_Duration C ''cached-addr-book-recent-ttl'',
     cachedAddrBookMaxFindPeers = cx_Int C ''cached-addr-book-max-concurrent-find-peers'',
     routingTimeout = cx_Duration C ''routing-timeout'',
     dnsAddrResolution = cx_String C ''dnsaddr-resolution'',
     recordsLimit = cx_Int C ''records-limit'',
     streamingRecordsLimit = cx_Int C ''streaming-records-limit'',
     blockProviderEndpoints = cx_StringSlice C ''http-block-provider-endpoints'',
     blockProviderPeerIDs = cx_StringSlice C ''http-block-provider-peerids'',
     listenAddress = cx_String C ''listen-address'',
     libp2pListenAddress = cx_StringSlice C ''libp2p-listen-addrs'',
     connMgrLow = cx_Int C ''libp2p-connmgr-low'',
     connMgrHi = cx_Int C ''libp2p-connmgr-high'',
     connMgrGrace = cx_Duration C ''libp2p-connmgr-grace'',
     cfg_maxMemory = cx_Uint64 C ''libp2p-max-memory'',
     cfg_maxFD = cx_Int C ''libp2p-max-fd'',
     tracingAuth = cx_String C ''tracing-auth'',
     samplingFraction = cx_Float64 C ''sampling-fraction'',
     autoConf_url = cx_String C ''autoconf-url'',
     autoConf_refresh = cx_Duration C ''autoconf-refresh'',
     autoConf_cacheDir = join (cx_String C ''datadir'') ''.autoconf-cache''\<rparr>"

text \<open>The whole action up to the call of \<open>start\<close>.\<close>

definition start_command ::
  "(string \<Rightarrow> string \<Rightarrow> string) \<Rightarrow> (string \<Rightarrow> go_err + string) \<Rightarrow> 'f cli_context \<Rightarrow> go_err + 'f full_config" where
  "start_command join synthetic C =
     (let cfg = flags_config join C
      in case start_action synthetic (server_config.truncate cfg) of
           Inl err \<Rightarrow> Inl err
         | Inr checked \<Rightarrow> Inr (server_config.extend checked (server_config.more cfg)))"

section \<open>Defaults\<close>

text \<open>
  The configuration of a server for which nothing is set, as docs/environment-variables.md lists it. The
  count of descriptors is declared as unsigned and read as signed, so its default is whatever the library
  gives for that reading.
\<close>

lemma default_flags:
  assumes "list_all (holds_flag C) (start_flags K A zero)"
  shows "flags_config join C = \<lparr>
     dhtType = ''accelerated'', contentEndpoints = [ac_AutoPlaceholder A], peerEndpoints = [ac_AutoPlaceholder A],
     ipnsEndpoints = [ac_AutoPlaceholder A], autoConf_enabled = True,
     cachedAddrBookOn = True, cachedAddrBookActiveProbing = True,
     cachedAddrBookRecentTTL = DefaultRecentlyConnectedAddrTTL K, cachedAddrBookMaxFindPeers = 512,
     routingTimeout = 25 * 10 ^ 9, dnsAddrResolution = ''append'', recordsLimit = 100, streamingRecordsLimit = 1000,
     blockProviderEndpoints = [], blockProviderPeerIDs = [],
     listenAddress = ''127.0.0.1:8190'', libp2pListenAddress = cx_StringSlice C ''libp2p-listen-addrs'',
     connMgrLow = 100, connMgrHi = 3000, connMgrGrace = 60 * 10 ^ 9, cfg_maxMemory = 0,
     cfg_maxFD = cx_Int C ''libp2p-max-fd'', tracingAuth = [], samplingFraction = zero,
     autoConf_url = ''https://conf.ipfs-mainnet.org/autoconf.json'', autoConf_refresh = 24 * time_Hour,
     autoConf_cacheDir = join [] ''.autoconf-cache''\<rparr>"
  using assms
  by (simp only: start_flags_def autoconf_flags_def new_flag_def holds_flag_def list.pred_inject append.simps
      cli_flag.simps flag_value.case flags_config_def DefaultRoutingTimeout_def DefaultRecordsLimit_def
      DefaultStreamingRecordsLimit_def DNSAddrResolutionAppend_def DefaultMaxConcurrentFindPeers_def of_nat_numeral)

text \<open>The action accepts it as it stands: no flag need be set to start a server.\<close>

lemma default_start:
  assumes "list_all (holds_flag C) (start_flags K A zero)"
  shows "start_command join synthetic C = Inr (flags_config join C)"
  unfolding start_command_def default_flags[OF assms]
  by (simp add: start_action_def ParseDNSAddrResolution_def mode_defs Let_def server_config.defs)

text \<open>No two flags of a command share a name, no two flags an environment variable.\<close>

lemma flags_are_distinct:
  "distinct (map fl_Name (start_flags K A zero))" "distinct (concat (map fl_EnvVars (start_flags K A zero)))"
  "distinct (map fl_Name (ask_flags A))" "distinct (concat (map fl_EnvVars (ask_flags A)))"
  by (simp_all add: start_flags_def ask_flags_def autoconf_flags_def new_flag_def)

lemma createDelegatedHTTPRouters_total:
  assumes "\<forall>u. \<not> isl (new_client u)" "register = None"
  shows "\<exists>ps qs is. createDelegatedHTTPRouters new_client register map_order cfg = Inr (ps, qs, is)"
proof (cases "create_routers new_client (map_order (collectEndpoints cfg))")
  case (Inl e)
  from create_routers_error[OF this] obtain u where "new_client u = Inl e" by blast
  with assms(1) show ?thesis by (metis sum.disc(1))
next
  case (Inr r)
  with assms(2) show ?thesis by (cases r) (simp add: createDelegatedHTTPRouters_def)
qed

section \<open>Properties\<close>

text \<open>
  A server needs no configuration. With no flag and no variable set, and constructors of other
  packages that succeed, \<open>start\<close> gets as far as the handler: with the address book, its capacity 512 and
  the default TTL, probing on, a routing timeout of 25 seconds, 100 records for JSON and 1000 for
  streams, and closest peers answered by the DHT through cache, sanitiser and resolver in that order.
\<close>

theorem default_server_starts:
  assumes "list_all (holds_flag C) (start_flags (be_K (se_book S)) (se_autoconf S) zero)"
    and "se_newHost S = None" "se_bundledDHT S = None" "\<not> isl (se_newLRU S)" "\<forall>u. \<not> isl (se_newClient S u)"
    and "se_register S = None" "se_newDNSAddrResolver S = None" "se_SplitHostPort S = None" "se_setupTracing S = None"
  shows "\<exists>sv cab. start S (server_config.truncate (flags_config join C)) = Inr sv \<and> sv_book sv = Some cab \<and>
    findPeerCap cab = 512 \<and> probingEnabled cab \<and>
    recentlyConnectedTTL cab = DefaultRecentlyConnectedAddrTTL (be_K (se_book S)) \<and>
    sv_timeout sv = 25 * 10 ^ 9 \<and> sv_recordsLimit sv = 100 \<and> sv_streamingRecordsLimit sv = 1000 \<and>
    (\<exists>p q i. sv_router sv = ComposableRouter (Some p) (Some q) (Some i)
       (Some (DnsAddrRouter ''append'' (SanitizeRouter (CachedRouter Libp2pRouter)))))"
proof -
  let ?A = "se_autoconf S"
  define cfg where "cfg = server_config.truncate (flags_config join C)"
  have cfg: "dhtType cfg = ''accelerated''" "contentEndpoints cfg = [ac_AutoPlaceholder ?A]"
    "peerEndpoints cfg = [ac_AutoPlaceholder ?A]" "ipnsEndpoints cfg = [ac_AutoPlaceholder ?A]" "autoConf_enabled cfg"
    "cachedAddrBookOn cfg" "cachedAddrBookActiveProbing cfg"
    "cachedAddrBookRecentTTL cfg = DefaultRecentlyConnectedAddrTTL (be_K (se_book S))" "cachedAddrBookMaxFindPeers cfg = 512"
    "routingTimeout cfg = 25 * 10 ^ 9" "dnsAddrResolution cfg = ''append''" "recordsLimit cfg = 100"
    "streamingRecordsLimit cfg = 1000" "blockProviderEndpoints cfg = []"
    unfolding cfg_def default_flags[OF assms(1)] server_config.defs by simp_all
  obtain cfg1 where ex: "expandDelegatedRoutingEndpoints ?A cfg = Inr cfg1"
    by (simp add: expandDelegatedRoutingEndpoints_def normalizeEndpointURL_def cfg Let_def)
  from expand_keeps[OF this] obtain a b c where cfg1: "cfg1 = cfg\<lparr>contentEndpoints := a, peerEndpoints := b, ipnsEndpoints := c\<rparr>"
    by blast
  obtain ps qs vs where cl: "createDelegatedHTTPRouters (se_newClient S) (se_register S) (se_map_order S) cfg1 = Inr (ps, qs, vs)"
    using createDelegatedHTTPRouters_total[where map_order = "se_map_order S" and cfg = cfg1, OF assms(5,6)] by blast
  have dht: "start_dht S (dhtType cfg1) = Inr True" using assms(3) by (simp add: start_dht_def cfg1 cfg)
  have blocks: "start_blocks S cfg1 = Inr []" by (simp add: start_blocks_def cfg1 cfg)
  obtain cab where book: "start_book S cfg1 True = Inr (Some cab)" and
    cab: "findPeerCap cab = 512" "probingEnabled cab" "recentlyConnectedTTL cab = DefaultRecentlyConnectedAddrTTL (be_K (se_book S))"
    using assms(4) by (cases "se_newLRU S")
      (auto simp: start_book_def start_opts_def cfg1 cfg newCachedAddrBook_def Let_def WithRecentlyConnectedTTL_def
        WithMaxConcurrentFindPeers_def WithActiveProbing_def WithHostPeerstore_def)
  have start: "start S cfg = Inr \<lparr>sv_book = Some cab,
      sv_router = ComposableRouter (Some (combineRouters True True (map ClientRouter ps) [] True ''append''))
        (Some (combineRouters True True (map ClientRouter qs) [] True ''append''))
        (Some (combineRouters True True (map ClientRouter vs) [] True ''append'')) (closest_router True True True ''append''),
      sv_timeout = 25 * 10 ^ 9, sv_recordsLimit = 100, sv_streamingRecordsLimit = 1000\<rparr>"
    using assms(2,7-9) unfolding start_def
    by (simp add: ex dht book blocks cl) (simp add: cfg1 cfg Let_def mode_defs)
  have closest: "closest_router True True True ''append'' =
      Some (DnsAddrRouter ''append'' (SanitizeRouter (CachedRouter Libp2pRouter)))"
    by (simp add: closest_router_def withDNSAddrResolution_def DNSAddrResolutionNever_def)
  show ?thesis unfolding cfg_def[symmetric] start closest
    by (intro exI[of _ "_ :: (_, _, _, _) server"] exI[of _ cab] conjI refl) (auto simp: cab)
qed

text \<open>A context in which every flag has its default.\<close>

definition default_context :: "'f \<Rightarrow> 'f cli_flag list \<Rightarrow> 'f cli_context" where
  "default_context zero flags =
     (let val = map_of (map (\<lambda>fl. (fl_Name fl, fl_Value fl)) flags) in
      \<lparr>cx_String = (\<lambda>n. case val n of Some (StringFlag v) \<Rightarrow> v | _ \<Rightarrow> []),
       cx_Bool = (\<lambda>n. case val n of Some (BoolFlag v) \<Rightarrow> v | _ \<Rightarrow> False),
       cx_Duration = (\<lambda>n. case val n of Some (DurationFlag v) \<Rightarrow> v | _ \<Rightarrow> 0),
       cx_Int = (\<lambda>n. case val n of Some (IntFlag v) \<Rightarrow> v | Some (Uint64Flag w) \<Rightarrow> sint w | _ \<Rightarrow> 0),
       cx_Uint64 = (\<lambda>n. case val n of Some (Uint64Flag v) \<Rightarrow> v | _ \<Rightarrow> 0),
       cx_Float64 = (\<lambda>n. case val n of Some (Float64Flag v) \<Rightarrow> v | _ \<Rightarrow> zero),
       cx_StringSlice = (\<lambda>n. case val n of Some (StringSliceFlag v) \<Rightarrow> v | _ \<Rightarrow> [])\<rparr>)"

lemma default_context_holds:
  assumes "distinct (map fl_Name flags)"
  shows "list_all (holds_flag (default_context zero flags)) flags"
  unfolding list_all_iff
proof
  fix fl assume "fl \<in> set flags"
  with assms have "map_of (map (\<lambda>fl. (fl_Name fl, fl_Value fl)) flags) (fl_Name fl) = Some (fl_Value fl)"
    by (intro map_of_is_SomeI) (auto simp: comp_def)
  then show "holds_flag (default_context zero flags) fl"
    by (simp add: holds_flag_def default_context_def Let_def split: flag_value.split)
qed

lemma default_server_starts_witness:
  "\<exists>sv. start sample_start_env (server_config.truncate (flags_config (\<lambda>dir f. f)
     (default_context (0 :: nat) (start_flags sample_consts sample_autoconf 0)))) = Inr sv \<and> sv_timeout sv = 25 * 10 ^ 9"
proof -
  let ?S = sample_start_env and ?flags = "start_flags sample_consts sample_autoconf (0 :: nat)"
  have env: "se_newHost ?S = None" "se_bundledDHT ?S = None" "\<not> isl (se_newLRU ?S)" "\<forall>u. \<not> isl (se_newClient ?S u)"
    "se_register ?S = None" "se_newDNSAddrResolver ?S = None" "se_SplitHostPort ?S = None" "se_setupTracing ?S = None"
    "se_autoconf ?S = sample_autoconf" "be_K (se_book ?S) = sample_consts"
    by (simp_all add: sample_start_env_def sample_book_env_def)
  have "list_all (holds_flag (default_context 0 ?flags)) (start_flags (be_K (se_book ?S)) (se_autoconf ?S) 0)"
    unfolding env by (rule default_context_holds[OF flags_are_distinct(1)])
  from default_server_starts[OF this env(1-8)] show ?thesis by blast
qed

end
