(* ===== verification/Host.thy ===== *)
theory Host
  imports Limits Flags
begin

text \<open>
  The libp2p host (\<open>newHost\<close> in server.go): its connection manager, its resource manager (\<open>Limits\<close>) and
  its options, from the configuration of \<open>Flags\<close>. The constructors of go-libp2p are parameters.
\<close>

datatype ('cm, 'rm) host_option =
    UserAgent string
  | ConnectionManager 'cm
  | ResourceManager 'rm
  | NATPortMap
  | DefaultTransports
  | DefaultMuxers
  | EnableHolePunching
  | DefaultListenAddrs
  | ListenAddrStrings "string list"

record ('con, 'cm, 'rm, 'h) host_lib =
  ho_rcmgr :: "'con rcmgr_lib"
  ho_fds :: fd_system
  ho_NewConnManager :: "int \<Rightarrow> int \<Rightarrow> int \<Rightarrow> go_err + 'cm"
  ho_NewResourceManager :: "'con \<Rightarrow> go_err + 'rm"
  ho_New :: "('cm, 'rm) host_option list \<Rightarrow> go_err + 'h"

definition newHost :: "('con, 'cm, 'rm, 'h) host_lib \<Rightarrow> string \<Rightarrow> 'f full_config \<Rightarrow> go_err + 'h" where
  "newHost H version cfg =
     (case ho_NewConnManager H (connMgrLow cfg) (connMgrHi cfg) (connMgrGrace cfg) of
        Inl err \<Rightarrow> Inl err
      | Inr cmgr \<Rightarrow>
          (case makeResourceMgrs (ho_rcmgr H) (ho_fds H) (ho_NewResourceManager H) (cfg_maxMemory cfg) (cfg_maxFD cfg) (connMgrHi cfg) of
             Inl err \<Rightarrow> Inl err
           | Inr rcmgr \<Rightarrow>
               let opts = [UserAgent (''someguy/'' @ version), ConnectionManager cmgr, ResourceManager rcmgr, NATPortMap,
                           DefaultTransports, DefaultMuxers, EnableHolePunching];
                   opts1 = (if length (libp2pListenAddress cfg) = 0 then opts @ [DefaultListenAddrs]
                            else opts @ [ListenAddrStrings (libp2pListenAddress cfg)])
               in ho_New H opts1))"

text \<open>
  A host listens on the configured addresses, or the library's where none is configured, never both, and
  runs under the limits made for the configured memory, descriptors and high-water mark.
\<close>

lemma newHost_options:
  assumes "newHost H version cfg = Inr h"
  shows "\<exists>opts cm rm. ho_New H opts = Inr h \<and> ConnectionManager cm \<in> set opts \<and> ResourceManager rm \<in> set opts \<and>
    ho_NewConnManager H (connMgrLow cfg) (connMgrHi cfg) (connMgrGrace cfg) = Inr cm \<and>
    makeResourceMgrs (ho_rcmgr H) (ho_fds H) (ho_NewResourceManager H) (cfg_maxMemory cfg) (cfg_maxFD cfg) (connMgrHi cfg) = Inr rm \<and>
    (DefaultListenAddrs \<in> set opts \<longleftrightarrow> libp2pListenAddress cfg = []) \<and>
    (\<forall>as. ListenAddrStrings as \<in> set opts \<longleftrightarrow> as = libp2pListenAddress cfg \<and> as \<noteq> [])"
proof -
  from assms obtain cm rm where
    "ho_NewConnManager H (connMgrLow cfg) (connMgrHi cfg) (connMgrGrace cfg) = Inr cm"
    "makeResourceMgrs (ho_rcmgr H) (ho_fds H) (ho_NewResourceManager H) (cfg_maxMemory cfg) (cfg_maxFD cfg) (connMgrHi cfg) = Inr rm"
    by (auto simp: newHost_def split: sum.splits)
  with assms show ?thesis
    by (auto simp: newHost_def Let_def split: if_splits intro!: exI)
qed

end
