(* ===== verification/Lifecycle.thy ===== *)
theory Lifecycle
  imports DnsMode Server
begin

text \<open>
  From the assembled routers to the end of the process (server.go): the chain of HTTP handlers a request
  passes before it reaches the routers, and the second half of \<open>start\<close>: tracing set-up, serving and the
  orderly shutdown as a step function over the goroutine of \<open>start\<close> and the one that listens, and the
  deferred calls, which Go runs last in, first out, when \<open>start\<close> returns.
\<close>

section \<open>The chain of handlers\<close>

record traced_request = http_request +
  req_Header :: header

definition truncated :: "traced_request \<Rightarrow> http_request" where
  "truncated r = \<lparr>req_Path = req_Path r, req_FilterAddrs = req_FilterAddrs r, req_Filter = req_Filter r\<rparr>"

text \<open>
  The handlers of other packages: \<open>otelhttp\<close>, CORS, compression, the metrics captured for the log, and
  the routing API itself.
\<close>

type_synonym 'w handler = "traced_request \<Rightarrow> 'w"

record 'w handler_lib =
  hn_otelhttp :: "'w handler \<Rightarrow> 'w handler"
  hn_cors :: "'w handler \<Rightarrow> 'w handler"
  hn_DefaultAdapter :: "int \<Rightarrow> go_err + ('w handler \<Rightarrow> 'w handler)"   \<comment> \<open>by the option \<open>MinSize\<close>\<close>
  hn_CaptureMetrics :: "'w handler \<Rightarrow> 'w handler"
  hn_ToLower :: "string \<Rightarrow> string"

definition newCompressionAdapter :: "'w handler_lib \<Rightarrow> go_err + ('w handler \<Rightarrow> 'w handler)" where
  "newCompressionAdapter L = hn_DefaultAdapter L 0"

definition withRequestLogger :: "'w handler_lib \<Rightarrow> 'w handler \<Rightarrow> 'w handler" where
  "withRequestLogger L next r = hn_CaptureMetrics L next r"

text \<open>The two middlewares of this repository, each on its part of the request.\<close>

definition filter_handler :: "'w handler_lib \<Rightarrow> 'w handler \<Rightarrow> 'w handler" where
  "filter_handler L next r =
     withAddrFilter (hn_ToLower L) (\<lambda>q. next (r\<lparr>req_Filter := req_Filter q\<rparr>)) (truncated r)"

definition tracing_handler :: "'w handler_lib \<Rightarrow> string \<Rightarrow> 'w handler \<Rightarrow> 'w handler" where
  "tracing_handler L authToken next r =
     withTracingAndDebug authToken (\<lambda>h. hn_otelhttp L next (r\<lparr>req_Header := h\<rparr>)) (req_Header r)"

definition start_handler :: "'w handler_lib \<Rightarrow> string \<Rightarrow> 'w handler \<Rightarrow> go_err + 'w handler" where
  "start_handler L tracingAuth api =
     (let handler = filter_handler L api;
          handler1 = hn_cors L handler
      in case newCompressionAdapter L of
           Inl err \<Rightarrow> Inl err
         | Inr compress \<Rightarrow>
             let handler2 = compress handler1;
                 handler3 = withRequestLogger L handler2
             in Inr (tracing_handler L tracingAuth handler3))"

text \<open>The options the routing API's handler is made with.\<close>

datatype handler_option =
    WithPrometheusRegistry
  | WithRecordsLimit int
  | WithStreamingRecordsLimit int
  | WithRoutingTimeout int

definition handlerOpts :: "server_config \<Rightarrow> handler_option list" where
  "handlerOpts cfg =
     [WithPrometheusRegistry, WithRecordsLimit (recordsLimit cfg), WithStreamingRecordsLimit (streamingRecordsLimit cfg)] @
     (if routingTimeout cfg > 0 then [WithRoutingTimeout (routingTimeout cfg)] else [WithRoutingTimeout DefaultRoutingTimeout])"

text \<open>
  The routes registered with the default \<open>ServeMux\<close>. A pattern that ends in a slash matches every path
  below it, any other only itself, and the longer of two that match wins; but for \<open>CONNECT\<close> requests a
  path that is not clean is first redirected to its clean form, \<open>path.Clean\<close> with the trailing slash kept.
\<close>

datatype 'w route = RouteTo "'w handler" | RouteRedirect string | RouteNotFound

definition mux_matches :: "string \<Rightarrow> string \<Rightarrow> bool" where
  "mux_matches pattern path = (if hasSuffix pattern ''/'' then hasPrefix path pattern else path = pattern)"

definition mux_handler :: "(string \<Rightarrow> string) \<Rightarrow> (string \<times> 'w handler) list \<Rightarrow> bool \<Rightarrow> string \<Rightarrow> 'w route" where
  "mux_handler cleanPath routes connect path =
     (if \<not> connect \<and> cleanPath path \<noteq> path then RouteRedirect (cleanPath path)
      else (case fold (\<lambda>(p, h) best. if mux_matches p path \<and> (case best of None \<Rightarrow> True | Some (q, _) \<Rightarrow> length q < length p)
                                     then Some (p, h) else best) routes None of
              None \<Rightarrow> RouteNotFound
            | Some (p, h) \<Rightarrow> RouteTo h))"

definition version_page :: "string \<Rightarrow> string \<Rightarrow> string" where
  "version_page name version = ''Client: '' @ name @ [CHR 10] @ ''Version: '' @ version @ [CHR 10]"

definition start_routes :: "'w handler \<Rightarrow> 'w handler \<Rightarrow> (string \<Rightarrow> 'w) \<Rightarrow> string \<Rightarrow> string \<Rightarrow> (string \<times> 'w handler) list" where
  "start_routes handler promhttp emit name version =
     [(''/'', handler),
      (''/debug/metrics/prometheus'', promhttp),
      (''/version'', \<lambda>r. emit (version_page name version))]"

section \<open>Before main\<close>

text \<open>
  \<open>init\<close> of server.go: the log handlers, then the forwarding of the delegated routing metrics, which is
  given up, with an error in the log, where the default registerer is not a registry or no exporter can
  be made.
\<close>

datatype init_event = SlogSetDefault | GologshimSetDefault | LogError string | RegisterExporter string | SetReportingPeriod int

definition server_init :: "bool \<Rightarrow> (string \<Rightarrow> go_err option) \<Rightarrow> init_event list" where
  "server_init isRegistry newExporter =
     [SlogSetDefault, GologshimSetDefault] @
     (if \<not> isRegistry then [LogError ''delegated routing metrics: error casting DefaultRegisterer'']
      else (case newExporter ''someguy'' of
              Some err \<Rightarrow> [LogError ''delegated routing metrics: error creating exporter'']
            | None \<Rightarrow> [RegisterExporter ''someguy'', SetReportingPeriod (2 * 10 ^ 9)]))"

section \<open>What a handler chain does to a request\<close>

text \<open>
  What the documentation of the other middlewares promises: for a given request they answer on their own
  (a constant \<open>post\<close>), or hand the request on as it is and work on the response only.
\<close>

definition hands_on :: "('w handler \<Rightarrow> 'w handler) \<Rightarrow> bool" where
  "hands_on m \<longleftrightarrow> (\<forall>r. \<exists>post. \<forall>next. m next r = post (next r))"

text \<open>
  The headers and the request as the routing API is to see them, said without the handlers: of the headers
  only the two that carry a trace, where their first value is not empty, go from a request that does not
  carry the configured token.
\<close>

definition authorized :: "string \<Rightarrow> header \<Rightarrow> bool" where
  "authorized token h \<longleftrightarrow> token \<noteq> [] \<and> header_Get h ''Authorization'' = token"

definition seen_headers :: "string \<Rightarrow> header \<Rightarrow> header" where
  "seen_headers token h k =
     (if \<not> authorized token h \<and> k \<in> {''Traceparent'', ''Tracestate''} \<and> header_Get h k \<noteq> [] then [] else h k)"

definition seen_by_api :: "'w handler_lib \<Rightarrow> string \<Rightarrow> traced_request \<Rightarrow> traced_request" where
  "seen_by_api L token r =
     (let f = req_FilterAddrs r;
          filtered = hasPrefix (req_Path r) ''/routing/v1/providers/'' \<or> hasPrefix (req_Path r) ''/routing/v1/peers/'';
          r1 = (if f \<noteq> [] \<and> filtered then r\<lparr>req_Filter := Some (parseAddrFilter (hn_ToLower L) f)\<rparr> else r)
      in r1\<lparr>req_Header := seen_headers token (req_Header r)\<rparr>)"

lemma withTracingAndDebug_headers: "withTracingAndDebug token next h = next (seen_headers token h)"
proof -
  have "withTracingAndDebug token (\<lambda>h. h) h k = seen_headers token h k" for k
    by (auto simp: withTracingAndDebug_def seen_headers_def authorized_def header_Get_def header_Del_def Let_def)
  then have "withTracingAndDebug token (\<lambda>h. h) h = seen_headers token h" by blast
  then show ?thesis by (simp add: withTracingAndDebug_def Let_def)
qed

lemma hands_on_id [simp]: "hands_on (\<lambda>next. next)"
  by (auto simp: hands_on_def intro: exI[of _ "\<lambda>w. w"])

lemma hands_on_comp:
  assumes "hands_on m" "hands_on n"
  shows "hands_on (\<lambda>next. m (n next))"
  unfolding hands_on_def
proof
  fix r
  from assms obtain post post' where "\<And>next. m next r = post (next r)" "\<And>next. n next r = post' (next r)"
    unfolding hands_on_def by metis
  then have "\<forall>next. m (n next) r = (post \<circ> post') (next r)" by simp
  then show "\<exists>post. \<forall>next. m (n next) r = post (next r)" by blast
qed

lemma tracing_handler_eq:
  "tracing_handler L token next r = hn_otelhttp L next (r\<lparr>req_Header := seen_headers token (req_Header r)\<rparr>)"
  by (simp add: tracing_handler_def withTracingAndDebug_headers)

lemma filter_handler_eq:
  "filter_handler L api (r\<lparr>req_Header := h\<rparr>) = api ((seen_by_api L [] r)\<lparr>req_Header := h\<rparr>)"
  by (cases r) (simp add: filter_handler_def withAddrFilter_def truncated_def seen_by_api_def Let_def)

text \<open>The whole chain, and the routes.\<close>

lemma handler_answers:
  assumes "hands_on (hn_otelhttp L)" "hands_on (hn_cors L)" "hands_on (hn_CaptureMetrics L)"
    and "newCompressionAdapter L = Inr compress" "hands_on compress"
  shows "\<exists>post. \<forall>api. \<exists>handler. start_handler L token api = Inr handler \<and> handler r = post (api (seen_by_api L token r))"
proof -
  let ?h = "seen_headers token (req_Header r)"
  define chain where "chain = (\<lambda>next. hn_otelhttp L (hn_CaptureMetrics L (compress (hn_cors L next))))"
  have logger: "withRequestLogger L = hn_CaptureMetrics L" by (simp add: fun_eq_iff withRequestLogger_def)
  have "hands_on chain" unfolding chain_def
    by (rule hands_on_comp[OF assms(1) hands_on_comp[OF assms(3) hands_on_comp[OF assms(5,2)]]])
  then obtain post where post: "\<And>api. chain api (r\<lparr>req_Header := ?h\<rparr>) = post (api (r\<lparr>req_Header := ?h\<rparr>))"
    unfolding hands_on_def by blast
  have "start_handler L token api = Inr (\<lambda>r. chain (filter_handler L api) (r\<lparr>req_Header := seen_headers token (req_Header r)\<rparr>))" for api
    by (simp add: start_handler_def Let_def tracing_handler_eq[abs_def] logger chain_def assms(4))
  moreover have "filter_handler L api (r\<lparr>req_Header := ?h\<rparr>) = api (seen_by_api L token r)" for api
    by (simp add: filter_handler_eq) (simp add: seen_by_api_def Let_def)
  ultimately have "\<exists>handler. start_handler L token api = Inr handler \<and> handler r = post (api (seen_by_api L token r))" for api
    using post by simp
  then show ?thesis by blast
qed

lemma routes_dispatch:
  assumes "hasPrefix path ''/''" "connect \<or> cleanPath path = path"
  shows "mux_handler cleanPath (start_routes handler promhttp emit name version) connect path =
    RouteTo (if path = ''/version'' then (\<lambda>r. emit (version_page name version))
             else if path = ''/debug/metrics/prometheus'' then promhttp else handler)"
  using assms by (auto simp: mux_handler_def start_routes_def mux_matches_def hasSuffix_def)

section \<open>Serving and shutting down\<close>

text \<open>
  A context is the one \<open>start\<close> was called with, or one with a timeout below another; \<open>n\<close> names its
  cancel function. \<open>fr_ctx\<close> is the variable \<open>ctx\<close>, which the deferred closure reads when it runs.
\<close>

datatype go_ctx = CtxRoot | CtxTimeout nat go_ctx

datatype deferred = DeferTracerShutdown | DeferCancel nat

datatype run_event =
    Ready
  | Stopping
  | ServerShutdown bool      \<comment> \<open>whether its context was already done\<close>
  | ServerClose              \<comment> \<open>its goroutine started\<close>
  | CloseDHT
  | CancelCtx nat
  | TracerShutdown bool      \<comment> \<open>whether its context was already done\<close>
  | FatalExit string

record frame =
  fr_ctx :: go_ctx
  fr_cancelled :: "nat list"
  fr_root_done :: bool
  fr_defers :: "deferred list"
  fr_events :: "run_event list"

fun ctx_done :: "frame \<Rightarrow> go_ctx \<Rightarrow> bool" where
  "ctx_done f CtxRoot = fr_root_done f"
| "ctx_done f (CtxTimeout n parent) = (n \<in> set (fr_cancelled f) \<or> ctx_done f parent)"

definition record_event :: "run_event \<Rightarrow> frame \<Rightarrow> frame" where
  "record_event e f = f\<lparr>fr_events := fr_events f @ [e]\<rparr>"

definition defer_call :: "deferred \<Rightarrow> frame \<Rightarrow> frame" where
  "defer_call d f = f\<lparr>fr_defers := d # fr_defers f\<rparr>"

fun run_deferred :: "deferred \<Rightarrow> frame \<Rightarrow> frame" where
  "run_deferred DeferTracerShutdown f = record_event (TracerShutdown (ctx_done f (fr_ctx f))) f"
| "run_deferred (DeferCancel n) f = record_event (CancelCtx n) (f\<lparr>fr_cancelled := n # fr_cancelled f\<rparr>)"

definition run_defers :: "frame \<Rightarrow> frame" where
  "run_defers f = fold run_deferred (fr_defers f) (f\<lparr>fr_defers := []\<rparr>)"

text \<open>
  From the moment the server is made there are two goroutines: \<open>start\<close> itself, and the one that listens.
  \<open>ListenAndServe\<close> first looks whether the server is being shut down, then binds its address, then accepts
  connections until that fails; where the server is being shut down by then its error is \<open>ErrServerClosed\<close>
  and the goroutine is done, and any other error ends the process, at any later moment. \<open>start\<close> tells the
  service manager it is ready, waits for a signal, shuts the server down, waits for the listening goroutine
  and closes the DHT. The context \<open>start\<close> was given may end at any time.
\<close>

datatype main_pc =
    AtNotify        \<comment> \<open>before it is ready\<close>
  | AwaitSignal     \<comment> \<open>receiving from \<open>quit\<close>\<close>
  | AtShutdown      \<comment> \<open>told to stop, the shutdown not begun\<close>
  | InShutdown      \<comment> \<open>in \<open>server.Shutdown\<close>\<close>
  | AtClose         \<comment> \<open>before \<open>go server.Close()\<close>\<close>
  | InWait          \<comment> \<open>in \<open>wg.Wait\<close>\<close>
  | AtReturn        \<comment> \<open>before the DHT is closed and the deferred calls run\<close>

datatype listen_pc = ListenCalled | ListenBinding | ListenAccepting | ListenFailed go_err | ListenDone

datatype run_end = RunReturned "go_err option" | ProcessExit

datatype process = Serving frame main_pc listen_pc | Ended frame run_end

text \<open>\<open>te_dht\<close> is whether there is a DHT that can be closed; an error of closing it is only logged.\<close>

record tail_env =
  te_setupTracing :: "go_err option"
  te_compression :: "go_err option"
  te_dht :: bool

definition start_serve :: "tail_env \<Rightarrow> frame \<Rightarrow> process" where
  "start_serve E f =
     (case te_setupTracing E of
        Some err \<Rightarrow> Ended (run_defers f) (RunReturned (Some err))
      | None \<Rightarrow>
          let f1 = defer_call DeferTracerShutdown f
          in (case te_compression E of
                Some err \<Rightarrow> Ended (run_defers f1) (RunReturned (Some err))
              | None \<Rightarrow> Serving f1 AtNotify ListenCalled))"

datatype serve_action =
    Notifies | Signalled | Shuts | ShutdownReturns "go_err option" | Closes | WaitReturns | Returns
  | Listens | Binds "go_err option" | AcceptFails go_err | ListenExits
  | ContextEnds

definition shutting_down :: "main_pc \<Rightarrow> bool" where
  "shutting_down m \<longleftrightarrow> m \<in> {InShutdown, AtClose, InWait, AtReturn}"

text \<open>The steps of \<open>start\<close>.\<close>

definition main_step :: "tail_env \<Rightarrow> frame \<Rightarrow> main_pc \<Rightarrow> listen_pc \<Rightarrow> serve_action \<Rightarrow> process option" where
  "main_step E f m l a =
     (case (a, m) of
        (Notifies, AtNotify) \<Rightarrow> Some (Serving (record_event Ready f) AwaitSignal l)
      | (Signalled, AwaitSignal) \<Rightarrow> Some (Serving (record_event Stopping f) AtShutdown l)
      | (Shuts, AtShutdown) \<Rightarrow>
          let f1 = defer_call (DeferCancel 0) (f\<lparr>fr_ctx := CtxTimeout 0 (fr_ctx f)\<rparr>)
          in Some (Serving (record_event (ServerShutdown (ctx_done f1 (fr_ctx f1))) f1) InShutdown l)
      | (ShutdownReturns None, InShutdown) \<Rightarrow> Some (Serving f AtClose l)
      | (ShutdownReturns (Some err), InShutdown) \<Rightarrow> Some (Ended (record_event (FatalExit ''Graceful shutdown failed'') f) ProcessExit)
      | (Closes, AtClose) \<Rightarrow> Some (Serving (record_event ServerClose f) InWait l)
      | (WaitReturns, InWait) \<Rightarrow> if l = ListenDone then Some (Serving f AtReturn l) else None
      | (Returns, AtReturn) \<Rightarrow>
          let f1 = (if te_dht E then record_event CloseDHT f else f)
          in Some (Ended (run_defers f1) (RunReturned None))
      | _ \<Rightarrow> None)"

text \<open>The steps of the goroutine that listens.\<close>

definition listen_step :: "frame \<Rightarrow> main_pc \<Rightarrow> listen_pc \<Rightarrow> serve_action \<Rightarrow> process option" where
  "listen_step f m l a =
     (case (a, l) of
        (Listens, ListenCalled) \<Rightarrow> Some (Serving f m (if shutting_down m then ListenDone else ListenBinding))
      | (Binds None, ListenBinding) \<Rightarrow> Some (Serving f m ListenAccepting)
      | (Binds (Some err), ListenBinding) \<Rightarrow> Some (Serving f m (ListenFailed err))
      | (AcceptFails err, ListenAccepting) \<Rightarrow> Some (Serving f m (if shutting_down m then ListenDone else ListenFailed err))
      | (ListenExits, ListenFailed err) \<Rightarrow> Some (Ended (record_event (FatalExit ''Failed to start /routing/v1 server'') f) ProcessExit)
      | _ \<Rightarrow> None)"

fun serve_step :: "tail_env \<Rightarrow> process \<Rightarrow> serve_action \<Rightarrow> process option" where
  "serve_step E (Serving f m l) a =
     (if a = ContextEnds then (if fr_root_done f then None else Some (Serving (f\<lparr>fr_root_done := True\<rparr>) m l))
      else (case main_step E f m l a of Some p \<Rightarrow> Some p | None \<Rightarrow> listen_step f m l a))"
| "serve_step E (Ended f res) a = None"

definition start_frame :: "bool \<Rightarrow> frame" where
  "start_frame root_done = \<lparr>fr_ctx = CtxRoot, fr_cancelled = [], fr_root_done = root_done, fr_defers = [], fr_events = []\<rparr>"

lemma frame_fields [state_simps]:
  "fr_events (record_event e f) = fr_events f @ [e]" "fr_ctx (record_event e f) = fr_ctx f"
  "fr_cancelled (record_event e f) = fr_cancelled f" "fr_defers (record_event e f) = fr_defers f"
  "fr_root_done (record_event e f) = fr_root_done f"
  "fr_events (defer_call d f) = fr_events f" "fr_ctx (defer_call d f) = fr_ctx f"
  "fr_cancelled (defer_call d f) = fr_cancelled f" "fr_defers (defer_call d f) = d # fr_defers f"
  "fr_root_done (defer_call d f) = fr_root_done f"
  by (simp_all add: record_event_def defer_call_def)

lemma ctx_done_fields [state_simps]:
  "ctx_done (record_event e f) c = ctx_done f c" "ctx_done (defer_call d f) c = ctx_done f c"
  "ctx_done (f\<lparr>fr_defers := ds\<rparr>) c = ctx_done f c" "ctx_done (f\<lparr>fr_ctx := x\<rparr>) c = ctx_done f c"
  by (induction c) (simp_all add: frame_fields)

text \<open>The deferred calls at the end of an orderly shutdown, and where only the tracer is pending.\<close>

lemma run_defers_orderly [state_simps]:
  "fr_defers f = [DeferCancel n, DeferTracerShutdown] \<Longrightarrow> fr_ctx f = CtxTimeout n c \<Longrightarrow>
     fr_events (run_defers f) = fr_events f @ [CancelCtx n, TracerShutdown True]"
  by (simp add: run_defers_def state_simps)

lemma run_defers_tracer [state_simps]:
  "fr_defers f = [] \<Longrightarrow> fr_events (run_defers f) = fr_events f"
  "fr_defers f = [DeferTracerShutdown] \<Longrightarrow> fr_events (run_defers f) = fr_events f @ [TracerShutdown (ctx_done f (fr_ctx f))]"
  by (simp_all add: run_defers_def state_simps)

lemma start_frame_fields [state_simps]:
  "fr_events (start_frame r) = []" "fr_ctx (start_frame r) = CtxRoot" "fr_cancelled (start_frame r) = []"
  "fr_defers (start_frame r) = []" "fr_root_done (start_frame r) = r"
  by (simp_all add: start_frame_def)

section \<open>Properties\<close>

text \<open>
  C28. What becomes of a request to a running server, whose path begins with a slash. A path that is not
  clean is redirected to its clean form, but for \<open>CONNECT\<close>. Of the others the version page and the metrics
  are answered on their own, and any other request gets its answer, with middlewares of other packages
  that keep to their documentation, from what the routing API says to it, with only two changes: the
  address filter put into its context, on the two paths that filter, and the tracing headers, dropped
  unless the request carries the configured token. No request is left without a handler.
\<close>

theorem requests_are_dispatched:
  assumes "hands_on (hn_otelhttp L)" "hands_on (hn_cors L)" "hands_on (hn_CaptureMetrics L)"
    and "newCompressionAdapter L = Inr compress" "hands_on compress"
    and "hasPrefix (req_Path r) ''/''"
  shows "\<exists>post. \<forall>api. \<exists>handler. start_handler L token api = Inr handler \<and>
    (case mux_handler cleanPath (start_routes handler promhttp emit name version) connect (req_Path r) of
       RouteTo h \<Rightarrow> (connect \<or> cleanPath (req_Path r) = req_Path r) \<and> h r =
         (if req_Path r = ''/version'' then emit (version_page name version)
          else if req_Path r = ''/debug/metrics/prometheus'' then promhttp r
          else post (api (seen_by_api L token r)))
     | RouteRedirect p \<Rightarrow> \<not> connect \<and> cleanPath (req_Path r) \<noteq> req_Path r \<and> p = cleanPath (req_Path r)
     | RouteNotFound \<Rightarrow> False)"
proof -
  from handler_answers[OF assms(1-5), of token r] obtain post where
    post: "\<And>api. \<exists>handler. start_handler L token api = Inr handler \<and> handler r = post (api (seen_by_api L token r))" by blast
  have "\<exists>handler. start_handler L token api = Inr handler \<and>
    (case mux_handler cleanPath (start_routes handler promhttp emit name version) connect (req_Path r) of
       RouteTo h \<Rightarrow> (connect \<or> cleanPath (req_Path r) = req_Path r) \<and> h r =
         (if req_Path r = ''/version'' then emit (version_page name version)
          else if req_Path r = ''/debug/metrics/prometheus'' then promhttp r
          else post (api (seen_by_api L token r)))
     | RouteRedirect p \<Rightarrow> \<not> connect \<and> cleanPath (req_Path r) \<noteq> req_Path r \<and> p = cleanPath (req_Path r)
     | RouteNotFound \<Rightarrow> False)" for api
  proof (cases "connect \<or> cleanPath (req_Path r) = req_Path r")
    case True
    then show ?thesis using post[of api]
      by (auto simp: routes_dispatch[where cleanPath = cleanPath and connect = connect, OF assms(6) True])
  next
    case False
    then show ?thesis using post[of api] by (auto simp: mux_handler_def)
  qed
  then show ?thesis by blast
qed

definition sample_handlers :: "'w handler_lib" where
  "sample_handlers = \<lparr>hn_otelhttp = (\<lambda>next. next), hn_cors = (\<lambda>next. next), hn_DefaultAdapter = (\<lambda>n. Inr (\<lambda>next. next)),
     hn_CaptureMetrics = (\<lambda>next. next), hn_ToLower = (\<lambda>s. s)\<rparr>"

definition sample_request :: traced_request where
  "sample_request = \<lparr>req_Path = ''/routing/v1/peers/Q'', req_FilterAddrs = ''dnsaddr'', req_Filter = None,
     req_Header = (\<lambda>k. if k = ''Traceparent'' then [''00-1''] else [])\<rparr>"

lemma requests_are_dispatched_witness:
  "projr (start_handler sample_handlers [] (\<lambda>r. req_Header r ''Traceparent'')) sample_request =
     projr (start_handler (sample_handlers :: string list handler_lib) [] (\<lambda>r. [])) sample_request"
proof -
  let ?L = "sample_handlers :: string list handler_lib"
  have h: "hands_on (hn_otelhttp ?L)" "hands_on (hn_cors ?L)" "hands_on (hn_CaptureMetrics ?L)"
    "newCompressionAdapter ?L = Inr (\<lambda>next. next)"
    by (simp_all add: sample_handlers_def newCompressionAdapter_def)
  have p: "hasPrefix (req_Path sample_request) ''/''" by (simp add: sample_request_def hasPrefix_def)
  have q: "req_Path sample_request \<noteq> ''/version''" "req_Path sample_request \<noteq> ''/debug/metrics/prometheus''"
    by (simp_all add: sample_request_def)
  from requests_are_dispatched[where L = ?L and r = sample_request and cleanPath = "\<lambda>p. p" and token = "[]" and connect = False
      and promhttp = "\<lambda>r. []" and emit = "\<lambda>s. [s]" and name = "[]" and version = "[]", OF h hands_on_id p]
  obtain post where post: "\<And>api. \<exists>handler. start_handler ?L [] api = Inr handler \<and>
      (case mux_handler (\<lambda>p. p) (start_routes handler (\<lambda>r. []) (\<lambda>s. [s]) [] []) False (req_Path sample_request) of
         RouteTo h \<Rightarrow> (False \<or> req_Path sample_request = req_Path sample_request) \<and> h sample_request =
           (if req_Path sample_request = ''/version'' then [version_page [] []]
            else if req_Path sample_request = ''/debug/metrics/prometheus'' then []
            else post (api (seen_by_api ?L [] sample_request)))
       | RouteRedirect p \<Rightarrow> \<not> False \<and> req_Path sample_request \<noteq> req_Path sample_request \<and> p = req_Path sample_request
       | RouteNotFound \<Rightarrow> False)" by blast
  have eq: "projr (start_handler ?L [] api) sample_request = post (api (seen_by_api ?L [] sample_request))" for api
  proof -
    from post[of api] obtain handler where handler: "start_handler ?L [] api = Inr handler"
      and ans: "case mux_handler (\<lambda>p. p) (start_routes handler (\<lambda>r. []) (\<lambda>s. [s]) [] []) False (req_Path sample_request) of
         RouteTo h \<Rightarrow> (False \<or> req_Path sample_request = req_Path sample_request) \<and> h sample_request =
           (if req_Path sample_request = ''/version'' then [version_page [] []]
            else if req_Path sample_request = ''/debug/metrics/prometheus'' then []
            else post (api (seen_by_api ?L [] sample_request)))
       | RouteRedirect p \<Rightarrow> \<not> False \<and> req_Path sample_request \<noteq> req_Path sample_request \<and> p = req_Path sample_request
       | RouteNotFound \<Rightarrow> False" by blast
    from ans have "handler sample_request = post (api (seen_by_api ?L [] sample_request))"
      unfolding routes_dispatch[OF p, where cleanPath = "\<lambda>p. p", OF disjI2[OF refl]] route.case if_not_P[OF q(1)] if_not_P[OF q(2)]
      by (rule conjunct2)
    then show ?thesis by (simp only: handler sum.sel)
  qed
  have seen: "req_Header (seen_by_api ?L [] sample_request) ''Traceparent'' = []"
    by (simp add: seen_by_api_def sample_request_def seen_headers_def authorized_def header_Get_def Let_def)
  show ?thesis by (simp only: eq seen)
qed

text \<open>
  Where the two goroutines are bounds what is left to do, and what \<open>start\<close> has done so far is known from
  where it is.
\<close>

fun events_so_far :: "main_pc \<Rightarrow> bool \<Rightarrow> run_event list" where
  "events_so_far AtNotify d = []"
| "events_so_far AwaitSignal d = [Ready]"
| "events_so_far AtShutdown d = [Ready, Stopping]"
| "events_so_far InShutdown d = [Ready, Stopping, ServerShutdown d]"
| "events_so_far AtClose d = [Ready, Stopping, ServerShutdown d]"
| "events_so_far InWait d = [Ready, Stopping, ServerShutdown d, ServerClose]"
| "events_so_far AtReturn d = [Ready, Stopping, ServerShutdown d, ServerClose]"

lemma events_so_far_prefix: "\<exists>k. events_so_far m d = take k [Ready, Stopping, ServerShutdown d, ServerClose]"
  by (cases m; simp) (auto intro: exI[of _ 0] exI[of _ 1] exI[of _ 2] exI[of _ 3] exI[of _ 4])

definition serving_inv :: "frame \<Rightarrow> main_pc \<Rightarrow> bool \<Rightarrow> bool" where
  "serving_inv f m d \<longleftrightarrow> fr_events f = events_so_far m d \<and>
     (if shutting_down m then fr_ctx f = CtxTimeout 0 CtxRoot \<and> fr_defers f = [DeferCancel 0, DeferTracerShutdown]
      else fr_ctx f = CtxRoot \<and> fr_defers f = [DeferTracerShutdown] \<and> fr_cancelled f = [])"

fun main_left :: "main_pc \<Rightarrow> nat" where
  "main_left AtNotify = 7" | "main_left AwaitSignal = 6" | "main_left AtShutdown = 5" | "main_left InShutdown = 4"
| "main_left AtClose = 3" | "main_left InWait = 2" | "main_left AtReturn = 1"

fun listen_left :: "listen_pc \<Rightarrow> nat" where
  "listen_left ListenCalled = 3" | "listen_left ListenBinding = 2" | "listen_left ListenAccepting = 1"
| "listen_left (ListenFailed e) = 0" | "listen_left ListenDone = 0"

fun steps_left :: "process \<Rightarrow> nat" where
  "steps_left (Serving f m l) = main_left m + listen_left l + (if fr_root_done f then 0 else 1)"
| "steps_left (Ended f res) = 0"

definition serve_inv :: "tail_env \<Rightarrow> bool \<Rightarrow> bool \<Rightarrow> process \<Rightarrow> bool" where
  "serve_inv E r q p =
     (case p of
        Serving f m l \<Rightarrow>
          te_setupTracing E = None \<and> te_compression E = None \<and>
          (\<exists>d. serving_inv f m d \<and> (r \<longrightarrow> d) \<and> (d \<longrightarrow> r \<or> q)) \<and>
          (r \<longrightarrow> fr_root_done f) \<and> (fr_root_done f \<longrightarrow> r \<or> q) \<and>
          (l = ListenDone \<longrightarrow> shutting_down m) \<and> (m = AtReturn \<longrightarrow> l = ListenDone)
      | Ended f ProcessExit \<Rightarrow>
          (\<exists>d. (r \<longrightarrow> d) \<and> (d \<longrightarrow> r \<or> q) \<and>
             (fr_events f = [Ready, Stopping, ServerShutdown d, FatalExit ''Graceful shutdown failed''] \<or>
              (\<exists>k. fr_events f = take k [Ready, Stopping, ServerShutdown d, ServerClose] @ [FatalExit ''Failed to start /routing/v1 server''])))
      | Ended f (RunReturned None) \<Rightarrow>
          (\<exists>d. (r \<longrightarrow> d) \<and> (d \<longrightarrow> r \<or> q) \<and>
             fr_events f = [Ready, Stopping, ServerShutdown d, ServerClose] @ (if te_dht E then [CloseDHT] else []) @
               [CancelCtx 0, TracerShutdown True])
      | Ended f (RunReturned (Some err)) \<Rightarrow>
          te_setupTracing E = Some err \<and> fr_events f = [] \<or>
          te_setupTracing E = None \<and> te_compression E = Some err \<and> fr_events f = [TracerShutdown r])"

lemma serve_inv_start: "serve_inv E r q (start_serve E (start_frame r))"
  by (cases "te_setupTracing E"; cases "te_compression E")
     (auto simp: start_serve_def serve_inv_def serving_inv_def shutting_down_def Let_def state_simps)

lemma frame_updates [state_simps]:
  "fr_events (f\<lparr>fr_ctx := c\<rparr>) = fr_events f" "fr_events (f\<lparr>fr_root_done := d\<rparr>) = fr_events f"
  "fr_defers (f\<lparr>fr_ctx := c\<rparr>) = fr_defers f" "fr_defers (f\<lparr>fr_root_done := d\<rparr>) = fr_defers f"
  by simp_all

lemma serve_inv_main:
  assumes "serve_inv E r q (Serving f m l)" "main_step E f m l a = Some p"
  shows "serve_inv E r q p"
proof (cases a)
  case (ShutdownReturns res)
  then show ?thesis using assms
    by (cases res; cases m) (auto simp: main_step_def serve_inv_def serving_inv_def shutting_down_def state_simps)
next
  case Shuts
  then show ?thesis using assms
    by (cases m) (auto simp: main_step_def serve_inv_def serving_inv_def shutting_down_def Let_def state_simps)
next
  case WaitReturns
  then show ?thesis using assms
    by (cases m) (auto simp: main_step_def serve_inv_def serving_inv_def shutting_down_def state_simps split: if_splits)
next
  case Returns
  then show ?thesis using assms
    by (cases m) (auto simp: main_step_def serve_inv_def serving_inv_def shutting_down_def Let_def state_simps split: if_splits)
qed (use assms in \<open>cases m; auto simp: main_step_def serve_inv_def serving_inv_def shutting_down_def state_simps\<close>)+

lemma serve_inv_listen:
  assumes "serve_inv E r q (Serving f m l)" "listen_step f m l a = Some p"
  shows "serve_inv E r q p"
proof (cases l)
  case (ListenFailed err)
  with assms have p: "a = ListenExits" "p = Ended (record_event (FatalExit ''Failed to start /routing/v1 server'') f) ProcessExit"
    by (auto simp: listen_step_def split: serve_action.splits option.splits)
  from assms(1) obtain d where d: "fr_events f = events_so_far m d" "r \<longrightarrow> d" "d \<longrightarrow> r \<or> q"
    by (auto simp: serve_inv_def serving_inv_def)
  from events_so_far_prefix[of m d] d(1) obtain k where "fr_events f = take k [Ready, Stopping, ServerShutdown d, ServerClose]" by metis
  then have "fr_events (record_event (FatalExit ''Failed to start /routing/v1 server'') f) =
      take k [Ready, Stopping, ServerShutdown d, ServerClose] @ [FatalExit ''Failed to start /routing/v1 server'']"
    by (simp only: frame_fields)
  with d(2,3) show ?thesis unfolding p serve_inv_def process.case run_end.case by blast
qed (use assms in \<open>auto simp: listen_step_def serve_inv_def split: serve_action.splits option.splits if_splits\<close>)

lemma serve_inv_step:
  assumes "serve_inv E r q p" "a = ContextEnds \<longrightarrow> q" "serve_step E p a = Some p'"
  shows "serve_inv E r q p'"
proof (cases p)
  case (Serving f m l)
  show ?thesis
  proof (cases "a = ContextEnds")
    case True
    then show ?thesis using assms Serving
      by (auto simp: serve_inv_def serving_inv_def split: if_splits)
  next
    case False
    then have "main_step E f m l a = Some p' \<or> listen_step f m l a = Some p'"
      using assms(3) Serving by (simp split: option.splits)
    then show ?thesis using assms(1) Serving serve_inv_main serve_inv_listen by metis
  qed
qed (use assms in simp)

lemma serve_step_less: "serve_step E p a = Some p' \<Longrightarrow> steps_left p' < steps_left p"
proof (cases p)
  case (Serving f m l)
  then show "serve_step E p a = Some p' \<Longrightarrow> steps_left p' < steps_left p"
    by (cases a; cases m; cases l)
       (auto simp: main_step_def listen_step_def Let_def state_simps split: if_splits option.splits)
qed simp

lemma serve_run_bound: "run_steps (serve_step E) p as = Some p' \<Longrightarrow> length as + steps_left p' \<le> steps_left p"
proof (induction as arbitrary: p)
  case (Cons a as)
  then obtain p1 where "serve_step E p a = Some p1" "run_steps (serve_step E) p1 as = Some p'" by (auto split: option.splits)
  with Cons.IH[of p1] serve_step_less[of E p a p1] show ?case by simp
qed simp

lemma serve_not_stuck:
  assumes "serve_inv E r q (Serving f m l)"
  shows "\<exists>a p. a \<noteq> ContextEnds \<and> serve_step E (Serving f m l) a = Some p"
proof (cases m)
  case AtNotify then show ?thesis by (intro exI[of _ Notifies]) (simp add: main_step_def)
next
  case AwaitSignal then show ?thesis by (intro exI[of _ Signalled]) (simp add: main_step_def)
next
  case AtShutdown then show ?thesis by (intro exI[of _ Shuts]) (simp add: main_step_def Let_def)
next
  case InShutdown then show ?thesis by (intro exI[of _ "ShutdownReturns None"]) (simp add: main_step_def)
next
  case AtClose then show ?thesis by (intro exI[of _ Closes]) (simp add: main_step_def)
next
  case AtReturn then show ?thesis by (intro exI[of _ Returns]) (simp add: main_step_def Let_def)
next
  case InWait
  show ?thesis
  proof (cases l)
    case ListenCalled then show ?thesis by (intro exI[of _ Listens]) (auto simp: main_step_def listen_step_def)
  next
    case ListenBinding then show ?thesis by (intro exI[of _ "Binds None"]) (auto simp: main_step_def listen_step_def)
  next
    case ListenAccepting then show ?thesis by (intro exI[of _ "AcceptFails (ErrText [])"]) (auto simp: main_step_def listen_step_def)
  next
    case ListenFailed then show ?thesis by (intro exI[of _ ListenExits]) (auto simp: main_step_def listen_step_def)
  next
    case ListenDone then show ?thesis using InWait by (intro exI[of _ WaitReturns]) (simp add: main_step_def)
  qed
qed

section \<open>The end of start\<close>

text \<open>
  C27. How \<open>start\<close> ends, in every interleaving of its own goroutine with the one that listens. Set-up errors
  return before anything is served. A listener that fails ends the process on the spot, at any moment up
  to the wait for it: before or after the service manager was told, during the shutdown or after it; and so
  does a graceful shutdown that fails. Either way neither the DHT is closed nor the tracer provider shut
  down. An orderly shutdown stops the HTTP server, then closes the DHT where it is a closer, and runs the
  deferred calls last; these cancel the five-second context first, and as the variable \<open>ctx\<close> names that
  context by then, the tracer provider is always shut down with a context that is already done. \<open>r\<close> is
  whether the context given to \<open>start\<close> had ended before, \<open>d\<close> whether it had when the shutdown began. A
  process that has not ended can always make a step of its own, and it makes at most eleven.
\<close>

theorem start_end:
  assumes run: "run_steps (serve_step E) (start_serve E (start_frame r)) as = Some p"
  shows "length as \<le> 11 \<and>
    (case p of
       Serving f m l \<Rightarrow> (\<exists>a p'. a \<noteq> ContextEnds \<and> serve_step E p a = Some p')
     | Ended f res \<Rightarrow>
         (\<exists>d. (r \<longrightarrow> d) \<and> (d \<longrightarrow> r \<or> ContextEnds \<in> set as) \<and>
            (case res of
               RunReturned None \<Rightarrow>
                 fr_events f = [Ready, Stopping, ServerShutdown d, ServerClose] @ (if te_dht E then [CloseDHT] else []) @
                   [CancelCtx 0, TracerShutdown True]
             | RunReturned (Some err) \<Rightarrow>
                 te_setupTracing E = Some err \<and> fr_events f = [] \<or>
                 te_setupTracing E = None \<and> te_compression E = Some err \<and> fr_events f = [TracerShutdown r]
             | ProcessExit \<Rightarrow>
                 fr_events f = [Ready, Stopping, ServerShutdown d, FatalExit ''Graceful shutdown failed''] \<or>
                 (\<exists>k. fr_events f = take k [Ready, Stopping, ServerShutdown d, ServerClose] @ [FatalExit ''Failed to start /routing/v1 server'']))))"
proof -
  let ?q = "ContextEnds \<in> set as"
  have "list_all (\<lambda>a. a = ContextEnds \<longrightarrow> ?q) as" by (auto simp: list_all_iff)
  moreover have "serve_inv E r ?q s'" if "serve_inv E r ?q s" "a = ContextEnds \<longrightarrow> ?q" "serve_step E s a = Some s'" for s a s'
    using that by (rule serve_inv_step)
  ultimately have inv: "serve_inv E r ?q p"
    using run_steps_guarded[where I = "serve_inv E r ?q" and ok = "\<lambda>a. a = ContextEnds \<longrightarrow> ?q" and step = "serve_step E",
        OF _ serve_inv_start _ run] by blast
  have "steps_left (start_serve E (start_frame r)) \<le> 11"
    by (auto simp: start_serve_def Let_def split: option.splits)
  with serve_run_bound[OF run] have "length as \<le> 11" by simp
  moreover have "\<exists>a p'. a \<noteq> ContextEnds \<and> serve_step E p a = Some p'" if "p = Serving f m l" for f m l
    using serve_not_stuck[of E r ?q f m l] inv that by simp
  ultimately show ?thesis using inv
  proof (cases p)
    case (Ended f res)
    have d: "\<exists>d. (r \<longrightarrow> d) \<and> (d \<longrightarrow> r \<or> ?q)" by (intro exI[of _ r]) simp
    show ?thesis
    proof (cases res)
      case (RunReturned e)
      with Ended inv d \<open>length as \<le> 11\<close> show ?thesis by (cases e; cases "te_dht E") (simp_all add: serve_inv_def)
    qed (use Ended inv \<open>length as \<le> 11\<close> in \<open>simp add: serve_inv_def\<close>)
  qed simp
qed

lemma start_end_witness:
  "\<exists>f. run_steps (serve_step \<lparr>te_setupTracing = None, te_compression = None, te_dht = True\<rparr>)
       (start_serve \<lparr>te_setupTracing = None, te_compression = None, te_dht = True\<rparr> (start_frame False))
       [Notifies, Listens, Binds None, Signalled, Shuts, AcceptFails (ErrText []), ShutdownReturns None, Closes, WaitReturns, Returns] =
       Some (Ended f (RunReturned None)) \<and>
     fr_events f = [Ready, Stopping, ServerShutdown False, ServerClose, CloseDHT, CancelCtx 0, TracerShutdown True]"
proof -
  let ?E = "\<lparr>te_setupTracing = None, te_compression = None, te_dht = True\<rparr>"
  let ?as = "[Notifies, Listens, Binds None, Signalled, Shuts, AcceptFails (ErrText []), ShutdownReturns None, Closes, WaitReturns, Returns]"
  obtain f where f: "run_steps (serve_step ?E) (start_serve ?E (start_frame False)) ?as = Some (Ended f (RunReturned None))"
    by (simp add: start_serve_def main_step_def listen_step_def shutting_down_def Let_def)
  from start_end[OF f] have "fr_events f = [Ready, Stopping, ServerShutdown False, ServerClose, CloseDHT, CancelCtx 0, TracerShutdown True]"
    by auto
  with f show ?thesis by blast
qed

end
