(* ===== verification/Diagnostics.thy ===== *)
theory Diagnostics
  imports Prelude
begin

text \<open>
  Which requests are traced (tracing.go) and what version the program reports (version.go). The samplers
  of OpenTelemetry are parameters; what a span's parent says and the outcome of its trace ID are fields of
  the sampling parameters. The build information is what \<open>debug.ReadBuildInfo\<close> gives.
\<close>

section \<open>Samplers\<close>

text \<open>
  \<open>sp_ParentValid\<close> and \<open>sp_ParentSampled\<close> read the span context of the parent context, \<open>sp_TraceState\<close>
  is its trace state.
\<close>

record sampling_parameters =
  sp_Name :: string
  sp_ParentValid :: bool
  sp_ParentSampled :: bool
  sp_TraceState :: string
  sp_TraceID :: nat

datatype sampling_decision = Drop | RecordOnly | RecordAndSample

record sampling_result =
  sr_Decision :: sampling_decision
  sr_Tracestate :: string

type_synonym sampler = "sampling_parameters \<Rightarrow> sampling_result"

record funcSampler =
  fs_next :: sampler
  fs_fn :: sampler
  fs_description :: string

definition funcSampler_ShouldSample :: "funcSampler \<Rightarrow> sampler" where
  "funcSampler_ShouldSample f parameters = fs_fn f parameters"

definition funcSampler_Description :: "funcSampler \<Rightarrow> string" where
  "funcSampler_Description f = fs_description f"

definition CascadingSamplerFunc :: "(sampling_parameters \<Rightarrow> bool) \<Rightarrow> string \<Rightarrow> sampler \<Rightarrow> funcSampler" where
  "CascadingSamplerFunc shouldSample description nextSampler =
     \<lparr>fs_next = nextSampler,
      fs_fn = (\<lambda>parameters.
        if shouldSample parameters then nextSampler parameters
        else \<lparr>sr_Decision = Drop, sr_Tracestate = sp_TraceState parameters\<rparr>),
      fs_description = description\<rparr>"

text \<open>\<open>'f\<close> is the type of the sampling fraction, \<open>tl_zero\<close> the test whether it is 0.\<close>

record 'f tracing_lib =
  tl_zero :: "'f \<Rightarrow> bool"
  tl_NeverSample :: sampler
  tl_TraceIDRatioBased :: "'f \<Rightarrow> sampler"
  tl_ParentBased :: "sampler \<Rightarrow> sampler"
  tl_NewSpanExporters :: "go_err + nat"
  tl_MergeResources :: "go_err option"

definition someguy_sampler :: "'f tracing_lib \<Rightarrow> 'f \<Rightarrow> sampler" where
  "someguy_sampler L traceFraction =
     (let baseSampler = (if tl_zero L traceFraction then tl_NeverSample L else tl_TraceIDRatioBased L traceFraction)
      in tl_ParentBased L
           (funcSampler_ShouldSample
             (CascadingSamplerFunc (\<lambda>p. \<not> sp_ParentValid p) ''root sampler''
               (funcSampler_ShouldSample
                 (CascadingSamplerFunc (\<lambda>p. hasPrefix (sp_Name p) ''someguy'') ''someguy request sampler'' baseSampler)))))"

text \<open>The provider: one batcher per exporter, and the sampler.\<close>

record tracer_provider =
  tp_batchers :: nat
  tp_sampler :: sampler

definition NewTracerProvider :: "'f tracing_lib \<Rightarrow> 'f \<Rightarrow> go_err + tracer_provider" where
  "NewTracerProvider L traceFraction =
     (case tl_NewSpanExporters L of
        Inl err \<Rightarrow> Inl err
      | Inr exporters \<Rightarrow>
          (case tl_MergeResources L of
             Some err \<Rightarrow> Inl err
           | None \<Rightarrow> Inr \<lparr>tp_batchers = exporters, tp_sampler = someguy_sampler L traceFraction\<rparr>))"

text \<open>The global provider is the last one set; a failure sets none.\<close>

definition setupTracing ::
  "'f tracing_lib \<Rightarrow> 'f \<Rightarrow> tracer_provider option \<Rightarrow> (go_err + tracer_provider) \<times> tracer_provider option" where
  "setupTracing L traceFraction global =
     (case NewTracerProvider L traceFraction of
        Inl err \<Rightarrow> (Inl err, global)
      | Inr tp \<Rightarrow> (Inr tp, Some tp))"

text \<open>
  The documentation of \<open>ParentBased\<close>: below a valid parent the parent's decision, else the root sampler;
  and of \<open>NeverSample\<close>.
\<close>

definition samplers_documented :: "'f tracing_lib \<Rightarrow> bool" where
  "samplers_documented L \<longleftrightarrow>
     (\<forall>root p. sp_ParentValid p \<longrightarrow> sr_Decision (tl_ParentBased L root p) = (if sp_ParentSampled p then RecordAndSample else Drop)) \<and>
     (\<forall>root p. \<not> sp_ParentValid p \<longrightarrow> tl_ParentBased L root p = root p) \<and>
     (\<forall>p. sr_Decision (tl_NeverSample L p) = Drop)"

section \<open>The version\<close>

datatype build_setting = VcsRevision string | VcsTime string | VcsModified string | OtherSetting string string

record build_acc =
  bv_revision :: string
  bv_day :: string
  bv_dirty :: bool

text \<open>
  \<open>day\<close> formats the date of a timestamp. \<open>kv.Value[:7]\<close> panics on a shorter revision: \<open>None\<close>.
\<close>

fun read_settings :: "(string \<Rightarrow> string) \<Rightarrow> build_setting list \<Rightarrow> build_acc \<Rightarrow> build_acc option" where
  "read_settings day [] acc = Some acc"
| "read_settings day (VcsRevision v # rest) acc =
     (if length v < 7 then None else read_settings day rest (acc\<lparr>bv_revision := take 7 v\<rparr>))"
| "read_settings day (VcsTime v # rest) acc = read_settings day rest (acc\<lparr>bv_day := day v\<rparr>)"
| "read_settings day (VcsModified v # rest) acc = read_settings day rest (acc\<lparr>bv_dirty := (v = ''true'')\<rparr>)"
| "read_settings day (OtherSetting k v # rest) acc = read_settings day rest acc"

definition buildVersion :: "string \<Rightarrow> (string \<Rightarrow> string) \<Rightarrow> build_setting list option \<Rightarrow> string option" where
  "buildVersion release day info =
     (case info of
        None \<Rightarrow> Some (release @ '' dev-build'')
      | Some settings \<Rightarrow>
          (case read_settings day settings \<lparr>bv_revision = [], bv_day = [], bv_dirty = False\<rparr> of
             None \<Rightarrow> None
           | Some acc \<Rightarrow>
               let revision = (if bv_dirty acc then bv_revision acc @ ''-dirty'' else bv_revision acc)
               in Some (if revision \<noteq> [] then release @ '' '' @ bv_day acc @ ''-'' @ revision
                        else release @ '' dev-build'')))"

definition long_enough :: "build_setting \<Rightarrow> bool" where
  "long_enough b = (case b of VcsRevision v \<Rightarrow> 7 \<le> length v | _ \<Rightarrow> True)"

lemma read_settings_panics: "read_settings day bs acc = None \<longleftrightarrow> \<not> list_all long_enough bs"
  by (induction day bs acc rule: read_settings.induct) (auto simp: long_enough_def)

text \<open>The program panics while it starts exactly when the build names a revision of under seven bytes.\<close>

lemma buildVersion_panics:
  "buildVersion release day info = None \<longleftrightarrow> (\<exists>bs. info = Some bs \<and> \<not> list_all long_enough bs)"
  by (cases info)
    (auto simp: buildVersion_def Let_def split: option.split
      simp flip: read_settings_panics[of day _ "\<lparr>bv_revision = [], bv_day = [], bv_dirty = False\<rparr>"])

section \<open>Properties\<close>

text \<open>
  Which spans are recorded. With OpenTelemetry's samplers as documented: a request that continues a
  trace (a valid parent) is sampled exactly when the parent was, so one whose \<open>Traceparent\<close> is not
  flagged as sampled never is, whatever the fraction; a root span is sampled only if its name starts with
  \<open>someguy\<close> and the ratio sampler takes it, and with fraction 0 none is.
\<close>

theorem sampling_decision:
  assumes "samplers_documented L"
  shows "sr_Decision (someguy_sampler L fraction p) =
    (if sp_ParentValid p then (if sp_ParentSampled p then RecordAndSample else Drop)
     else if hasPrefix (sp_Name p) ''someguy'' \<and> \<not> tl_zero L fraction
     then sr_Decision (tl_TraceIDRatioBased L fraction p) else Drop)"
  using assms
  by (auto simp: samplers_documented_def someguy_sampler_def funcSampler_ShouldSample_def CascadingSamplerFunc_def Let_def)

definition sample_tracing :: "nat tracing_lib" where
  "sample_tracing = \<lparr>tl_zero = (\<lambda>n. n = 0), tl_NeverSample = (\<lambda>p. \<lparr>sr_Decision = Drop, sr_Tracestate = sp_TraceState p\<rparr>),
     tl_TraceIDRatioBased = (\<lambda>n p. \<lparr>sr_Decision = (if sp_TraceID p < n then RecordAndSample else Drop), sr_Tracestate = sp_TraceState p\<rparr>),
     tl_ParentBased = (\<lambda>root p. if sp_ParentValid p
       then \<lparr>sr_Decision = (if sp_ParentSampled p then RecordAndSample else Drop), sr_Tracestate = sp_TraceState p\<rparr> else root p),
     tl_NewSpanExporters = Inr 1, tl_MergeResources = None\<rparr>"

lemma sampling_decision_witness:
  "sr_Decision (someguy_sampler sample_tracing 5
     \<lparr>sp_Name = ''someguy.request'', sp_ParentValid = True, sp_ParentSampled = False, sp_TraceState = [], sp_TraceID = 0\<rparr>) = Drop \<and>
   sr_Decision (someguy_sampler sample_tracing 5
     \<lparr>sp_Name = ''someguy.request'', sp_ParentValid = False, sp_ParentSampled = False, sp_TraceState = [], sp_TraceID = 0\<rparr>) = RecordAndSample"
proof -
  have "samplers_documented sample_tracing" by (simp add: samplers_documented_def sample_tracing_def)
  note decision = sampling_decision[OF this, of 5]
  show ?thesis unfolding decision by (simp add: hasPrefix_def sample_tracing_def)
qed

end
