(* ===== verification/DnsFlight.thy ===== *)
theory DnsFlight
  imports DnsAddr
begin

text \<open>
  Requests sharing one \<open>dnsAddrResolver\<close> (dnsaddr.go). \<open>DnsAddr\<close> follows one request and leaves the others
  to its environment; here \<open>lookup\<close> and \<open>resolve\<close> run in any number of requests at once over one cache
  and one \<open>singleflight.Group\<close>, as a step function: what they share, what each may spend, what ends up
  in the cache, and that a query outlives the requests that asked for it. A query carries the context it
  was started with, so that what \<open>context.WithoutCancel\<close> is for can be said.
\<close>

section \<open>The resolver\<close>

definition DNSAddrCacheSize :: nat where "DNSAddrCacheSize = 4096"

record ('r, 'c) dnsAddrResolver =
  dr_resolver :: 'r
  dr_cache :: 'c

text \<open>The parameters are \<open>lru.New\<close> and \<open>madns.DefaultResolver\<close>.\<close>

definition newDNSAddrResolver :: "(nat \<Rightarrow> go_err + 'c) \<Rightarrow> 'r \<Rightarrow> 'r option \<Rightarrow> go_err + ('r, 'c) dnsAddrResolver" where
  "newDNSAddrResolver lru_New DefaultResolver r =
     (case lru_New DNSAddrCacheSize of
        Inl err \<Rightarrow> Inl err
      | Inr c \<Rightarrow> Inr \<lparr>dr_resolver = (case r of None \<Rightarrow> DefaultResolver | Some r \<Rightarrow> r), dr_cache = c\<rparr>)"

section \<open>The singleflight group\<close>

text \<open>
  \<open>golang.org/x/sync/singleflight\<close> is a parameter. \<open>fg_DoChan g key c\<close> is a call \<open>c\<close> of \<open>DoChan\<close> and tells
  whether the function is run for it; \<open>fg_Return g key\<close> is the return of that function, with the calls
  whose channels get the result; \<open>fg_callers\<close> observes a key. The documented behaviour: a function runs
  only once at a time for a key, and calls made meanwhile get the same result.
\<close>

record 'g flight_lib =
  fg_DoChan :: "'g \<Rightarrow> string \<Rightarrow> nat \<Rightarrow> bool \<times> 'g"
  fg_Return :: "'g \<Rightarrow> string \<Rightarrow> nat list \<times> 'g"
  fg_callers :: "'g \<Rightarrow> string \<Rightarrow> nat list option"

definition flight_lawful :: "'g flight_lib \<Rightarrow> bool" where
  "flight_lawful F \<longleftrightarrow>
     (\<forall>g key c. fst (fg_DoChan F g key c) = (fg_callers F g key = None)) \<and>
     (\<forall>g key c. fg_callers F (snd (fg_DoChan F g key c)) =
        (fg_callers F g)(key \<mapsto> (case fg_callers F g key of None \<Rightarrow> [c] | Some cs \<Rightarrow> cs @ [c]))) \<and>
     (\<forall>g key cs. fg_callers F g key = Some cs \<longrightarrow> fst (fg_Return F g key) = cs) \<and>
     (\<forall>g key. fg_callers F (snd (fg_Return F g key)) = (fg_callers F g)(key := None))"

lemma flight_laws:
  assumes "flight_lawful F"
  shows DoChan_runs: "fst (fg_DoChan F g key c) = (fg_callers F g key = None)"
    and DoChan_callers: "fg_callers F (snd (fg_DoChan F g key c)) =
        (fg_callers F g)(key \<mapsto> (case fg_callers F g key of None \<Rightarrow> [c] | Some cs \<Rightarrow> cs @ [c]))"
    and Return_callers: "fg_callers F g key = Some cs \<Longrightarrow> fst (fg_Return F g key) = cs"
    and Return_removes: "fg_callers F (snd (fg_Return F g key)) = (fg_callers F g)(key := None)"
  using assms by (auto simp: flight_lawful_def)

section \<open>One outcome of a query\<close>

text \<open>The entry \<open>resolve\<close> makes of an answer, at the time it is stored.\<close>

definition resolved_entry :: "go_err + 'ma list \<Rightarrow> int \<Rightarrow> 'ma dnsAddrCacheEntry" where
  "resolved_entry answer now =
     (case answer of
        Inl err \<Rightarrow>
          \<lparr>ce_addrs = [], ce_ok = False,
           ce_expires = now + (if \<not> errors_Is err ErrDeadlineExceeded then DNSAddrFailureCacheTTL else DNSAddrCacheTTL)\<rparr>
      | Inr resolved \<Rightarrow>
          \<lparr>ce_addrs = resolved, ce_ok = True,
           ce_expires = now + (if length resolved = 0 then DNSAddrFailureCacheTTL else DNSAddrCacheTTL)\<rparr>)"

lemma resolve_makes_entry:
  "fst (resolve E L addr key st) =
     resolved_entry (env_Resolve E (Suc (ds_tick st)) addr) (env_now E (Suc (Suc (Suc (ds_tick st)))))"
  by (auto simp: resolve_def resolved_entry_def observe_def inc_metric_def Let_def split: sum.split)

text \<open>\<open>spend\<close> on the budget alone.\<close>

definition budget_spend :: "dnsAddrBudget \<Rightarrow> bool \<times> dnsAddrBudget" where
  "budget_spend b = (if lookups b \<le> 0 then (False, b) else (True, b\<lparr>lookups := lookups b - 1\<rparr>))"

lemma spend_budget: "map_prod id ds_budget (spend st) = budget_spend (ds_budget st)"
  by (simp add: spend_def budget_spend_def inc_metric_def)

section \<open>State and steps\<close>

text \<open>
  The contexts a query may run under: that of the request that asked for it, which is done once the
  request is gone, or one that is never done. \<open>context.WithoutCancel\<close> makes the second of any context.
\<close>

datatype go_context = RequestCtx nat | NeverDone

definition context_WithoutCancel :: "go_context \<Rightarrow> go_context" where
  "context_WithoutCancel ctx = NeverDone"

text \<open>
  A request inside \<open>lookup\<close>: before the cache is read, after a miss, after paying, in the \<open>select\<close> with the
  result its channel holds; and a query inside \<open>resolve\<close>, with the context it was given.
\<close>

datatype 'ma looker =
    LkIdle
  | LkBegun 'ma
  | LkMissed 'ma
  | LkPaid 'ma
  | LkWait 'ma "'ma dnsAddrCacheEntry option"

datatype 'ma flight = FlQuerying 'ma go_context | FlAnswered "go_err + 'ma list" | FlStored "'ma dnsAddrCacheEntry"

text \<open>
  \<open>rq_start\<close> is the budget at the start of the call in progress; \<open>rq_returns\<close> has the address, the result and
  the budgets before and after of every call that has returned.
\<close>

record 'ma requester =
  rq_gone :: bool
  rq_budget :: dnsAddrBudget
  rq_start :: dnsAddrBudget
  rq_call :: "'ma looker"
  rq_returns :: "('ma \<times> ('ma list \<times> bool) \<times> dnsAddrBudget \<times> dnsAddrBudget) list"

text \<open>
  Beside the shared state three logs: who started the query for a name, the answers of DNS by name, and
  the names whose function has returned.
\<close>

record ('c, 'g, 'ma) resolver_sys =
  rs_cache :: 'c
  rs_group :: 'g
  rs_flights :: "string \<rightharpoonup> 'ma flight"
  rs_requests :: "'ma requester list"
  rs_led :: "(nat \<times> string) list"
  rs_answers :: "(string \<times> (go_err + 'ma list)) list"
  rs_finished :: "string list"

definition new_request :: "'ma requester" where
  "new_request = \<lparr>rq_gone = False, rq_budget = newDNSAddrBudget, rq_start = newDNSAddrBudget, rq_call = LkIdle, rq_returns = []\<rparr>"

definition shared_resolver :: "'c \<Rightarrow> 'g \<Rightarrow> nat \<Rightarrow> ('c, 'g, 'ma) resolver_sys" where
  "shared_resolver c g n = \<lparr>rs_cache = c, rs_group = g, rs_flights = Map.empty, rs_requests = replicate n new_request,
     rs_led = [], rs_answers = [], rs_finished = []\<rparr>"

datatype 'ma flight_action =
    LookupCall nat 'ma
  | ReadCache nat int                          \<comment> \<open>\<open>cache.Get\<close> and the clock\<close>
  | Spend nat                                  \<comment> \<open>the context check and the budget\<close>
  | Join nat                                   \<comment> \<open>\<open>DoChan\<close>\<close>
  | TakeResult nat                             \<comment> \<open>the arms of the \<open>select\<close>\<close>
  | TakeDone nat
  | RequestGone nat
  | DnsAnswers string "go_err + 'ma list"      \<comment> \<open>DNS answers, or the lookup times out\<close>
  | QueryCanceled string                       \<comment> \<open>the resolver gives up, its context being done\<close>
  | StoreEntry string int                      \<comment> \<open>the clock and \<open>cache.Add\<close>\<close>
  | FlightReturns string

definition with_request :: "nat \<Rightarrow> ('ma requester \<Rightarrow> 'ma requester) \<Rightarrow> ('c, 'g, 'ma) resolver_sys \<Rightarrow> ('c, 'g, 'ma) resolver_sys" where
  "with_request i f s = s\<lparr>rs_requests := (rs_requests s)[i := f (rs_requests s ! i)]\<rparr>"

text \<open>Whether a context is done.\<close>

definition context_done :: "('c, 'g, 'ma) resolver_sys \<Rightarrow> go_context \<Rightarrow> bool" where
  "context_done s ctx = (case ctx of NeverDone \<Rightarrow> False | RequestCtx i \<Rightarrow> rq_gone (rs_requests s ! i))"

definition return_lookup :: "'ma \<Rightarrow> 'ma list \<times> bool \<Rightarrow> 'ma requester \<Rightarrow> 'ma requester" where
  "return_lookup addr res q = q\<lparr>rq_call := LkIdle, rq_returns := rq_returns q @ [(addr, res, rq_start q, rq_budget q)]\<rparr>"

text \<open>The result on the channel of a call that waits for this name.\<close>

definition deliver :: "'ma malib \<Rightarrow> string \<Rightarrow> 'ma dnsAddrCacheEntry \<Rightarrow> 'ma requester \<Rightarrow> 'ma requester" where
  "deliver M key entry q =
     (case rq_call q of
        LkWait addr None \<Rightarrow> if dnsAddrCacheKey M addr = key then q\<lparr>rq_call := LkWait addr (Some entry)\<rparr> else q
      | _ \<Rightarrow> q)"

definition lookup_step ::
  "('c, 'ma) dns_lru \<Rightarrow> 'g flight_lib \<Rightarrow> 'ma malib \<Rightarrow> ('c, 'g, 'ma) resolver_sys \<Rightarrow> nat \<Rightarrow> 'ma requester \<Rightarrow>
     'ma flight_action \<Rightarrow> ('c, 'g, 'ma) resolver_sys option" where
  "lookup_step L F M s i q a =
     (case (rq_call q, a) of
        (LkIdle, LookupCall _ addr) \<Rightarrow> Some (with_request i (\<lambda>q. q\<lparr>rq_start := rq_budget q, rq_call := LkBegun addr\<rparr>) s)
      | (LkBegun addr, ReadCache _ now) \<Rightarrow>
          let (found, c) = lru_Get L (rs_cache s) (dnsAddrCacheKey M addr);
              s1 = s\<lparr>rs_cache := c\<rparr>
          in Some (case found of
               Some entry \<Rightarrow>
                 if now < ce_expires entry then with_request i (return_lookup addr (ce_addrs entry, ce_ok entry)) s1
                 else with_request i (rq_call_update (\<lambda>_. LkMissed addr)) s1
             | None \<Rightarrow> with_request i (rq_call_update (\<lambda>_. LkMissed addr)) s1)
      | (LkMissed addr, Spend _) \<Rightarrow>
          if rq_gone q then Some (with_request i (return_lookup addr ([], False)) s)
          else let (allowed, b) = budget_spend (rq_budget q)
               in Some (if allowed then with_request i (\<lambda>q. q\<lparr>rq_budget := b, rq_call := LkPaid addr\<rparr>) s
                        else with_request i (return_lookup addr ([], False)) s)
      | (LkPaid addr, Join _) \<Rightarrow>
          let key = dnsAddrCacheKey M addr;
              (runs, g) = fg_DoChan F (rs_group s) key i;
              s1 = with_request i (rq_call_update (\<lambda>_. LkWait addr None)) (s\<lparr>rs_group := g\<rparr>)
          in Some (if runs then s1\<lparr>rs_flights := (rs_flights s1)(key \<mapsto> FlQuerying addr (context_WithoutCancel (RequestCtx i))),
                                    rs_led := rs_led s1 @ [(i, key)]\<rparr> else s1)
      | (LkWait addr (Some entry), TakeResult _) \<Rightarrow> Some (with_request i (return_lookup addr (ce_addrs entry, ce_ok entry)) s)
      | (LkWait addr _, TakeDone _) \<Rightarrow> if rq_gone q then Some (with_request i (return_lookup addr ([], False)) s) else None
      | (_, RequestGone _) \<Rightarrow> Some (with_request i (rq_gone_update (\<lambda>_. True)) s)
      | _ \<Rightarrow> None)"

text \<open>
  \<open>Resolver.Resolve\<close> is a parameter: an answer comes from DNS while the context of the query lives; once
  that is done the call returns the error of the context, which no DNS server gave.
\<close>

definition query_step ::
  "('c, 'ma) dns_lru \<Rightarrow> 'g flight_lib \<Rightarrow> 'ma malib \<Rightarrow> ('c, 'g, 'ma) resolver_sys \<Rightarrow> string \<Rightarrow> 'ma flight_action \<Rightarrow>
     ('c, 'g, 'ma) resolver_sys option" where
  "query_step L F M s key a =
     (case (rs_flights s key, a) of
        (Some (FlQuerying addr ctx), DnsAnswers _ answer) \<Rightarrow>
          if context_done s ctx then None
          else Some (s\<lparr>rs_flights := (rs_flights s)(key \<mapsto> FlAnswered answer), rs_answers := rs_answers s @ [(key, answer)]\<rparr>)
      | (Some (FlQuerying addr ctx), QueryCanceled _) \<Rightarrow>
          if context_done s ctx then Some (s\<lparr>rs_flights := (rs_flights s)(key \<mapsto> FlAnswered (Inl ErrCanceled))\<rparr>) else None
      | (Some (FlAnswered answer), StoreEntry _ now) \<Rightarrow>
          let entry = resolved_entry answer now
          in Some (s\<lparr>rs_cache := lru_Add L (rs_cache s) key entry, rs_flights := (rs_flights s)(key \<mapsto> FlStored entry)\<rparr>)
      | (Some (FlStored entry), FlightReturns _) \<Rightarrow>
          let (callers, g) = fg_Return F (rs_group s) key
          in Some (s\<lparr>rs_group := g, rs_flights := (rs_flights s)(key := None), rs_finished := rs_finished s @ [key],
               rs_requests := map (\<lambda>i. if i \<in> set callers then deliver M key entry (rs_requests s ! i) else rs_requests s ! i)
                 [0..<length (rs_requests s)]\<rparr>)
      | _ \<Rightarrow> None)"

fun action_of :: "'ma flight_action \<Rightarrow> nat + string" where
  "action_of (LookupCall i addr) = Inl i"
| "action_of (ReadCache i now) = Inl i"
| "action_of (Spend i) = Inl i"
| "action_of (Join i) = Inl i"
| "action_of (TakeResult i) = Inl i"
| "action_of (TakeDone i) = Inl i"
| "action_of (RequestGone i) = Inl i"
| "action_of (DnsAnswers key answer) = Inr key"
| "action_of (QueryCanceled key) = Inr key"
| "action_of (StoreEntry key now) = Inr key"
| "action_of (FlightReturns key) = Inr key"

definition flight_step ::
  "('c, 'ma) dns_lru \<Rightarrow> 'g flight_lib \<Rightarrow> 'ma malib \<Rightarrow> ('c, 'g, 'ma) resolver_sys \<Rightarrow> 'ma flight_action \<Rightarrow>
     ('c, 'g, 'ma) resolver_sys option" where
  "flight_step L F M s a =
     (case action_of a of
        Inl i \<Rightarrow> if i < length (rs_requests s) then lookup_step L F M s i (rs_requests s ! i) a else None
      | Inr key \<Rightarrow> query_step L F M s key a)"

lemma with_request_fields [simp]:
  "rs_cache (with_request i f s) = rs_cache s" "rs_group (with_request i f s) = rs_group s"
  "rs_flights (with_request i f s) = rs_flights s" "rs_led (with_request i f s) = rs_led s"
  "rs_answers (with_request i f s) = rs_answers s" "rs_finished (with_request i f s) = rs_finished s"
  "rs_requests (with_request i f s) = (rs_requests s)[i := f (rs_requests s ! i)]"
  by (simp_all add: with_request_def)

lemma deliver_fields [simp]:
  "rq_gone (deliver M key e q) = rq_gone q" "rq_budget (deliver M key e q) = rq_budget q" "rq_returns (deliver M key e q) = rq_returns q"
  "rq_start (deliver M key e q) = rq_start q"
  by (simp_all add: deliver_def split: looker.split option.split)

lemma return_lookup_fields [simp]:
  "rq_gone (return_lookup a r q) = rq_gone q" "rq_budget (return_lookup a r q) = rq_budget q"
  "rq_call (return_lookup a r q) = LkIdle" "rq_returns (return_lookup a r q) = rq_returns q @ [(a, r, rq_start q, rq_budget q)]"
  by (simp_all add: return_lookup_def)

text \<open>The steps one by one, for case analysis.\<close>

lemma flight_stepE:
  assumes "flight_step L F M s a = Some s'"
  obtains (request) i q where "i < length (rs_requests s)" "q = rs_requests s ! i" "lookup_step L F M s i q a = Some s'"
  | (query) key where "query_step L F M s key a = Some s'"
  using assms by (auto simp: flight_step_def split: sum.splits if_splits)

section \<open>What holds in every run\<close>

subsection \<open>Flights and budgets\<close>

definition paid :: "'ma looker \<Rightarrow> int" where
  "paid c = (case c of LkPaid addr \<Rightarrow> 1 | _ \<Rightarrow> 0)"

definition request_ok :: "'g flight_lib \<Rightarrow> 'ma malib \<Rightarrow> ('c, 'g, 'ma) resolver_sys \<Rightarrow> nat \<Rightarrow> 'ma requester \<Rightarrow> bool" where
  "request_ok F M s i q \<longleftrightarrow>
     0 \<le> lookups (rq_budget q) \<and>
     int (count_list (map fst (rs_led s)) i) + paid (rq_call q) + lookups (rq_budget q) \<le> MaxDNSAddrLookupsPerRequest \<and>
     (\<forall>addr. rq_call q = LkWait addr None \<longrightarrow>
        (\<exists>cs. fg_callers F (rs_group s) (dnsAddrCacheKey M addr) = Some cs \<and> i \<in> set cs))"

definition flights_inv :: "'g flight_lib \<Rightarrow> 'ma malib \<Rightarrow> nat \<Rightarrow> ('c, 'g, 'ma) resolver_sys \<Rightarrow> bool" where
  "flights_inv F M n s \<longleftrightarrow>
     length (rs_requests s) = n \<and> (\<forall>i < n. request_ok F M s i (rs_requests s ! i)) \<and>
     fst ` set (rs_led s) \<subseteq> {..<n} \<and>
     dom (rs_flights s) = dom (fg_callers F (rs_group s)) \<and>
     (\<forall>key. count_list (map snd (rs_led s)) key =
        count_list (rs_finished s) key + (if key \<in> dom (rs_flights s) then 1 else 0))"

lemma request_ok_frame [simp]:
  "request_ok F M (with_request j f s) i q = request_ok F M s i q" "request_ok F M (s\<lparr>rs_cache := c\<rparr>) i q = request_ok F M s i q"
  by (simp_all add: request_ok_def)

lemma flights_with_request:
  assumes "flights_inv F M n s" "i < n" "request_ok F M s i (f (rs_requests s ! i))"
  shows "flights_inv F M n (with_request i f s)"
  using assms by (auto simp: flights_inv_def nth_list_update)

lemma flights_cache [simp]: "flights_inv F M n (s\<lparr>rs_cache := c\<rparr>) = flights_inv F M n s"
  by (simp add: flights_inv_def)

lemma flights_answers [simp]: "flights_inv F M n (s\<lparr>rs_answers := as\<rparr>) = flights_inv F M n s"
  by (simp add: flights_inv_def request_ok_def)

lemma flights_upd:
  assumes "flights_inv F M n s" "rs_flights s key = Some fl0"
  shows "flights_inv F M n (s\<lparr>rs_flights := (rs_flights s)(key \<mapsto> fl)\<rparr>)"
    and "flights_inv F M n (s\<lparr>rs_flights := (rs_flights s)(key \<mapsto> fl), rs_answers := as\<rparr>)"
    and "flights_inv F M n (s\<lparr>rs_cache := c, rs_flights := (rs_flights s)(key \<mapsto> fl)\<rparr>)"
proof -
  have "insert key (dom (rs_flights s)) = dom (rs_flights s)" using assms(2) by blast
  then show "flights_inv F M n (s\<lparr>rs_flights := (rs_flights s)(key \<mapsto> fl)\<rparr>)"
    "flights_inv F M n (s\<lparr>rs_flights := (rs_flights s)(key \<mapsto> fl), rs_answers := as\<rparr>)"
    "flights_inv F M n (s\<lparr>rs_cache := c, rs_flights := (rs_flights s)(key \<mapsto> fl)\<rparr>)"
    using assms(1) by (simp_all add: flights_inv_def request_ok_def)
qed

lemma flights_requestD:
  "flights_inv F M n s \<Longrightarrow> i < n \<Longrightarrow> request_ok F M s i (rs_requests s ! i)"
  "flights_inv F M n s \<Longrightarrow> length (rs_requests s) = n"
  by (simp_all add: flights_inv_def)

lemma flights_groupD: "flights_inv F M n s \<Longrightarrow> rs_flights s key = None \<longleftrightarrow> fg_callers F (rs_group s) key = None"
  unfolding flights_inv_def by (metis domIff)

text \<open>Joining: the caller is among those the group holds, and leads exactly where there was no flight.\<close>

lemma flights_join:
  assumes F: "flight_lawful F" and inv: "flights_inv F M n s" and i: "i < n" and q: "rq_call (rs_requests s ! i) = LkPaid addr"
    and join: "fg_DoChan F (rs_group s) (dnsAddrCacheKey M addr) i = (runs, g)"
  shows "flights_inv F M n
    (let s1 = with_request i (rq_call_update (\<lambda>_. LkWait addr None)) (s\<lparr>rs_group := g\<rparr>); key = dnsAddrCacheKey M addr
     in if runs then s1\<lparr>rs_flights := (rs_flights s1)(key \<mapsto> FlQuerying addr (context_WithoutCancel (RequestCtx i))),
                         rs_led := rs_led s1 @ [(i, key)]\<rparr> else s1)"
proof -
  let ?k = "dnsAddrCacheKey M addr" and ?cs = "fg_callers F (rs_group s)"
  have runs: "runs \<longleftrightarrow> ?cs ?k = None" and g: "fg_callers F g = ?cs(?k \<mapsto> (case ?cs ?k of None \<Rightarrow> [i] | Some cs \<Rightarrow> cs @ [i]))"
    using DoChan_runs[OF F, of "rs_group s" ?k i] DoChan_callers[OF F, of "rs_group s" ?k i] join by simp_all
  from flights_requestD(1)[OF inv i] have ok: "request_ok F M s i (rs_requests s ! i)" .
  show ?thesis
  proof (cases runs)
    case True
    with inv i ok runs show ?thesis
      by (auto simp: flights_inv_def request_ok_def g q paid_def Let_def nth_list_update split: option.split)
  next
    case False
    with inv i ok runs show ?thesis
      by (fastforce simp: flights_inv_def request_ok_def g q paid_def Let_def nth_list_update split: option.split)
  qed
qed

lemma flights_lookup_step:
  assumes F: "flight_lawful F" and inv: "flights_inv F M n s" and i: "i < n" and step: "lookup_step L F M s i (rs_requests s ! i) a = Some s'"
  shows "flights_inv F M n s'"
proof (cases "rq_call (rs_requests s ! i)")
  case (LkPaid addr)
  from flights_requestD(1)[OF inv i] have ok: "request_ok F M s i (rs_requests s ! i)" .
  show ?thesis
  proof (cases "\<exists>j. a = Join j")
    case True
    with step LkPaid obtain runs g where join: "fg_DoChan F (rs_group s) (dnsAddrCacheKey M addr) i = (runs, g)"
      by (cases "fg_DoChan F (rs_group s) (dnsAddrCacheKey M addr) i")
    with True step LkPaid flights_join[OF F inv i LkPaid join] show ?thesis by (auto simp: lookup_step_def Let_def)
  next
    case False
    with step LkPaid have "s' = with_request i (rq_gone_update (\<lambda>_. True)) s"
      by (auto simp: lookup_step_def split: flight_action.splits)
    with inv i ok show ?thesis by (auto intro!: flights_with_request simp: request_ok_def)
  qed
next
  case (LkBegun addr)
  from flights_requestD(1)[OF inv i] have ok: "request_ok F M s i (rs_requests s ! i)" .
  with step LkBegun inv i show ?thesis
    by (auto simp: lookup_step_def Let_def case_prod_beta request_ok_def paid_def intro!: flights_with_request
        split: flight_action.splits option.splits if_splits)
next
  case (LkMissed addr)
  from flights_requestD(1)[OF inv i] have ok: "request_ok F M s i (rs_requests s ! i)" .
  with step LkMissed inv i show ?thesis
    by (auto simp: lookup_step_def budget_spend_def request_ok_def paid_def intro!: flights_with_request
        split: flight_action.splits if_splits)
next
  case LkIdle
  from flights_requestD(1)[OF inv i] have ok: "request_ok F M s i (rs_requests s ! i)" .
  with step LkIdle inv i show ?thesis
    by (auto simp: lookup_step_def request_ok_def paid_def intro!: flights_with_request split: flight_action.splits)
next
  case (LkWait addr e)
  from flights_requestD(1)[OF inv i] have ok: "request_ok F M s i (rs_requests s ! i)" .
  with step LkWait inv i show ?thesis
    by (auto simp: lookup_step_def request_ok_def paid_def intro!: flights_with_request
        split: flight_action.splits option.splits if_splits)
qed

lemma paid_deliver [simp]: "paid (rq_call (deliver M key e q)) = paid (rq_call q)"
  by (auto simp: deliver_def paid_def split: looker.split option.split)

lemma deliver_waits:
  "rq_call (deliver M key e q) = LkWait addr None \<longleftrightarrow> rq_call q = LkWait addr None \<and> dnsAddrCacheKey M addr \<noteq> key"
  by (auto simp: deliver_def split: looker.split option.split)

lemma flights_query_step:
  assumes F: "flight_lawful F" and inv: "flights_inv F M n s" and step: "query_step L F M s key a = Some s'"
  shows "flights_inv F M n s'"
proof (cases "rs_flights s key")
  case (Some fl)
  show ?thesis
  proof (cases fl)
    case (FlStored entry)
    have "fg_callers F (rs_group s) key \<noteq> None" using flights_groupD[OF inv, of key] Some by simp
    then obtain cs where cs: "fg_callers F (rs_group s) key = Some cs" by blast
    obtain g where g: "fg_Return F (rs_group s) key = (cs, g)"
      using Return_callers[OF F cs] by (cases "fg_Return F (rs_group s) key") simp
    have g': "fg_callers F g = (fg_callers F (rs_group s))(key := None)"
      using Return_removes[OF F, of "rs_group s" key] g by simp
    have s': "s' = s\<lparr>rs_group := g, rs_flights := (rs_flights s)(key := None), rs_finished := rs_finished s @ [key],
         rs_requests := map (\<lambda>i. if i \<in> set cs then deliver M key entry (rs_requests s ! i) else rs_requests s ! i)
           [0..<length (rs_requests s)]\<rparr>"
      using step Some FlStored g by (auto simp: query_step_def split: flight_action.splits)
    have "request_ok F M s' i (rs_requests s' ! i)" if i: "i < n" for i
      using flights_requestD(1)[OF inv i] flights_requestD(2)[OF inv] i cs unfolding s'
      by (auto simp: request_ok_def g' deliver_waits)
    moreover have "length (rs_requests s') = n" using flights_requestD(2)[OF inv] by (simp add: s')
    ultimately show ?thesis using inv Some by (auto simp: flights_inv_def s' g')
  qed (use step inv Some in \<open>auto simp: query_step_def Let_def flights_upd split: flight_action.splits if_splits\<close>)
qed (use step in \<open>simp add: query_step_def\<close>)

lemma flights_step:
  assumes "flight_lawful F" "flights_inv F M n s" "flight_step L F M s a = Some s'"
  shows "flights_inv F M n s'"
  using assms(3)
proof (cases rule: flight_stepE)
  case (request i q)
  with assms(2) have "i < n" by (simp add: flights_inv_def)
  with assms request show ?thesis by (auto intro: flights_lookup_step)
next
  case (query key)
  then show ?thesis by (rule flights_query_step[OF assms(1,2)])
qed

lemma flights_run:
  assumes "flight_lawful F" "fg_callers F g = Map.empty" "run_steps (flight_step L F M) (shared_resolver c g n) as = Some s"
  shows "flights_inv F M n s"
proof -
  have "flights_inv F M n (shared_resolver c g n)"
    using assms(2) by (simp add: flights_inv_def shared_resolver_def request_ok_def new_request_def newDNSAddrBudget_def
        MaxDNSAddrLookupsPerRequest_def paid_def)
  then show ?thesis
    by (rule run_steps_guarded[where ok = "\<lambda>a. True", rotated, OF _ _ assms(3)]) (auto simp: list_all_iff intro: flights_step[OF assms(1)])
qed

subsection \<open>Contexts\<close>

text \<open>Every query runs under a context that is never done.\<close>

definition detached :: "('c, 'g, 'ma) resolver_sys \<Rightarrow> bool" where
  "detached s \<longleftrightarrow> (\<forall>key addr ctx. rs_flights s key = Some (FlQuerying addr ctx) \<longrightarrow> ctx = NeverDone)"

lemma detached_with_request [simp]: "detached (with_request i f s) = detached s"
  by (simp add: detached_def)

lemma detached_step:
  assumes "detached s" and "flight_step L F M s a = Some s'"
  shows "detached s'"
  using assms(2)
proof (cases rule: flight_stepE)
  case (request i q)
  with assms(1) show ?thesis
    by (cases "rq_call q"; cases a)
      (auto simp: lookup_step_def detached_def context_WithoutCancel_def Let_def case_prod_beta
        split: option.splits if_splits)
next
  case (query key)
  with assms(1) show ?thesis
    by (auto simp: query_step_def detached_def Let_def case_prod_beta
        split: option.splits flight.splits flight_action.splits if_splits)
qed

lemma detached_run: "run_steps (flight_step L F M) (shared_resolver c g n) as = Some s \<Longrightarrow> detached s"
proof (rule run_steps_guarded[where ok = "\<lambda>a. True" and I = detached and step = "flight_step L F M", rotated])
  show "detached (shared_resolver c g n)" by (simp add: detached_def shared_resolver_def)
qed (auto simp: list_all_iff intro: detached_step)

end
