(* ===== verification/DnsShared.thy ===== *)
theory DnsShared
  imports DnsFlight
begin

text \<open>
  What requests that share one resolver get, over the steps of \<open>DnsFlight\<close>: where cached entries and
  results come from, that each call of \<open>lookup\<close> is one \<open>DnsAddr\<close> speaks of, how a query ends, and the
  properties of the whole.
\<close>

section \<open>Where results come from\<close>

text \<open>
  \<open>from_dns L c0 s key e\<close>: the entry was in the cache at first, or it is what \<open>resolve\<close> makes of an
  answer DNS gave for this name. A lookup that returns anything else is one of a request that is gone or
  has no budget left.
\<close>

definition from_dns :: "('c, 'ma) dns_lru \<Rightarrow> 'c \<Rightarrow> ('c, 'g, 'ma) resolver_sys \<Rightarrow> string \<Rightarrow> 'ma dnsAddrCacheEntry \<Rightarrow> bool" where
  "from_dns L c0 s key e \<longleftrightarrow>
     lru_Peek L c0 key = Some e \<or> (\<exists>answer now. (key, answer) \<in> set (rs_answers s) \<and> e = resolved_entry answer now)"

definition honest_request :: "('c, 'ma) dns_lru \<Rightarrow> 'ma malib \<Rightarrow> 'c \<Rightarrow> ('c, 'g, 'ma) resolver_sys \<Rightarrow> 'ma requester \<Rightarrow> bool" where
  "honest_request L M c0 s q \<longleftrightarrow>
     (\<forall>addr e. rq_call q = LkWait addr (Some e) \<longrightarrow> from_dns L c0 s (dnsAddrCacheKey M addr) e) \<and>
     (\<forall>(addr, res, before, after) \<in> set (rq_returns q).
        res = ([], False) \<and> (rq_gone q \<or> lookups after \<le> 0) \<or> (\<exists>e. from_dns L c0 s (dnsAddrCacheKey M addr) e \<and> res = (ce_addrs e, ce_ok e)))"

definition honest_flight :: "('c, 'ma) dns_lru \<Rightarrow> 'c \<Rightarrow> ('c, 'g, 'ma) resolver_sys \<Rightarrow> string \<Rightarrow> 'ma flight \<Rightarrow> bool" where
  "honest_flight L c0 s key fl =
     (case fl of
        FlQuerying addr ctx \<Rightarrow> True
      | FlAnswered answer \<Rightarrow> (key, answer) \<in> set (rs_answers s)
      | FlStored e \<Rightarrow> from_dns L c0 s key e)"

definition honest_inv :: "('c, 'ma) dns_lru \<Rightarrow> 'ma malib \<Rightarrow> 'c \<Rightarrow> ('c, 'g, 'ma) resolver_sys \<Rightarrow> bool" where
  "honest_inv L M c0 s \<longleftrightarrow>
     (\<forall>key e. lru_Peek L (rs_cache s) key = Some e \<longrightarrow> from_dns L c0 s key e) \<and>
     (\<forall>key fl. rs_flights s key = Some fl \<longrightarrow> honest_flight L c0 s key fl) \<and>
     (\<forall>q \<in> set (rs_requests s). honest_request L M c0 s q)"

lemma from_dns_frame [simp]:
  "from_dns L c0 (with_request i f s) = from_dns L c0 s" "from_dns L c0 (s\<lparr>rs_cache := c\<rparr>) = from_dns L c0 s"
  "from_dns L c0 (s\<lparr>rs_group := g\<rparr>) = from_dns L c0 s" "from_dns L c0 (s\<lparr>rs_flights := fls\<rparr>) = from_dns L c0 s"
  "from_dns L c0 (s\<lparr>rs_led := led\<rparr>) = from_dns L c0 s" "from_dns L c0 (s\<lparr>rs_requests := qs\<rparr>) = from_dns L c0 s"
  "from_dns L c0 (s\<lparr>rs_finished := ks\<rparr>) = from_dns L c0 s"
  by (simp_all add: from_dns_def fun_eq_iff)

lemma honest_frame [simp]:
  "honest_request L M c0 (with_request i f s) q = honest_request L M c0 s q" "honest_request L M c0 (s\<lparr>rs_cache := c\<rparr>) q = honest_request L M c0 s q"
  "honest_request L M c0 (s\<lparr>rs_group := g\<rparr>) q = honest_request L M c0 s q" "honest_request L M c0 (s\<lparr>rs_flights := fls\<rparr>) q = honest_request L M c0 s q"
  "honest_request L M c0 (s\<lparr>rs_led := led\<rparr>) q = honest_request L M c0 s q" "honest_request L M c0 (s\<lparr>rs_requests := qs\<rparr>) q = honest_request L M c0 s q"
  "honest_request L M c0 (s\<lparr>rs_finished := ks\<rparr>) q = honest_request L M c0 s q"
  "honest_flight L c0 (with_request i f s) key fl = honest_flight L c0 s key fl" "honest_flight L c0 (s\<lparr>rs_cache := c\<rparr>) key fl = honest_flight L c0 s key fl"
  "honest_flight L c0 (s\<lparr>rs_group := g\<rparr>) key fl = honest_flight L c0 s key fl" "honest_flight L c0 (s\<lparr>rs_flights := fls\<rparr>) key fl = honest_flight L c0 s key fl"
  "honest_flight L c0 (s\<lparr>rs_led := led\<rparr>) key fl = honest_flight L c0 s key fl" "honest_flight L c0 (s\<lparr>rs_requests := qs\<rparr>) key fl = honest_flight L c0 s key fl"
  "honest_flight L c0 (s\<lparr>rs_finished := ks\<rparr>) key fl = honest_flight L c0 s key fl"
  by (simp_all add: honest_request_def honest_flight_def cong: flight.case_cong)

lemma honest_with_request:
  assumes "honest_inv L M c0 s" "honest_request L M c0 s (f (rs_requests s ! i))"
  shows "honest_inv L M c0 (with_request i f s)"
  using assms by (auto simp: honest_inv_def dest!: set_update_subset_insert[THEN subsetD])

lemma honest_flights:
  "honest_inv L M c0 s \<Longrightarrow> honest_flight L c0 s key fl \<Longrightarrow> honest_inv L M c0 (s\<lparr>rs_flights := (rs_flights s)(key \<mapsto> fl)\<rparr>)"
  "honest_inv L M c0 s \<Longrightarrow> honest_inv L M c0 (s\<lparr>rs_led := led\<rparr>)"
  by (simp_all add: honest_inv_def)

lemma honest_updates:
  assumes "honest_request L M c0 s q"
  shows "from_dns L c0 s (dnsAddrCacheKey M addr) e \<Longrightarrow> honest_request L M c0 s (return_lookup addr (ce_addrs e, ce_ok e) q)"
    and "rq_gone q \<or> lookups (rq_budget q) \<le> 0 \<Longrightarrow> honest_request L M c0 s (return_lookup addr ([], False) q)"
    and "\<forall>addr e. call \<noteq> LkWait addr (Some e) \<Longrightarrow> honest_request L M c0 s (q\<lparr>rq_call := call\<rparr>)"
    and "\<forall>addr e. call \<noteq> LkWait addr (Some e) \<Longrightarrow> honest_request L M c0 s (q\<lparr>rq_start := b0, rq_call := call\<rparr>)"
    and "honest_request L M c0 s (q\<lparr>rq_gone := True\<rparr>)" and "honest_request L M c0 s (q\<lparr>rq_budget := bu\<rparr>)"
  using assms unfolding honest_request_def by (auto simp: return_lookup_def)

lemma honest_requestD: "honest_inv L M c0 s \<Longrightarrow> i < length (rs_requests s) \<Longrightarrow> honest_request L M c0 s (rs_requests s ! i)"
  by (simp add: honest_inv_def)

lemma honest_lookup_step:
  assumes L: "lru_lawful L" and inv: "honest_inv L M c0 s" and i: "i < length (rs_requests s)"
    and step: "lookup_step L F M s i (rs_requests s ! i) a = Some s'"
  shows "honest_inv L M c0 s'"
proof (cases "rq_call (rs_requests s ! i)")
  case (LkBegun addr)
  let ?k = "dnsAddrCacheKey M addr"
  obtain c where c: "lru_Get L (rs_cache s) ?k = (lru_Peek L (rs_cache s) ?k, c)"
    using lru_Get_fst[OF L, of "rs_cache s" ?k] by (cases "lru_Get L (rs_cache s) ?k") simp
  have Peek: "lru_Peek L c key = lru_Peek L (rs_cache s) key" for key
    using lru_Get_snd[OF L, of "rs_cache s" ?k key] c by simp
  then have inv1: "honest_inv L M c0 (s\<lparr>rs_cache := c\<rparr>)" using inv by (simp add: honest_inv_def)
  have e: "from_dns L c0 s ?k e" if "lru_Peek L (rs_cache s) ?k = Some e" for e
    using inv that by (simp add: honest_inv_def)
  note q = honest_updates[OF honest_requestD[OF inv i]]
  from step LkBegun inv inv1 q e show ?thesis
    by (auto simp: lookup_step_def c Let_def intro!: honest_with_request split: flight_action.splits option.splits if_splits)
next
  case (LkPaid addr)
  note q = honest_updates[OF honest_requestD[OF inv i]]
  have w: "honest_inv L M c0 (with_request i (rq_call_update (\<lambda>_. LkWait addr None)) (s\<lparr>rs_group := g\<rparr>))" for g
    using q(3) inv by (intro honest_with_request) (simp_all add: honest_inv_def)
  show ?thesis
  proof (cases "\<exists>j. a = Join j")
    case True
    obtain runs g where "fg_DoChan F (rs_group s) (dnsAddrCacheKey M addr) i = (runs, g)" by force
    with True step LkPaid have
      s': "s' = (let s1 = with_request i (rq_call_update (\<lambda>_. LkWait addr None)) (s\<lparr>rs_group := g\<rparr>); key = dnsAddrCacheKey M addr
        in if runs then (s1\<lparr>rs_flights := (rs_flights s1)(key \<mapsto> FlQuerying addr (context_WithoutCancel (RequestCtx i)))\<rparr>)\<lparr>rs_led := rs_led s1 @ [(i, key)]\<rparr> else s1)"
      by (auto simp: lookup_step_def Let_def)
    have "honest_flight L c0 s key (FlQuerying addr ctx)" for ctx and s :: "('a, 'c, 'b) resolver_sys" and key by (simp add: honest_flight_def)
    with w[of g] show ?thesis unfolding s' Let_def by (simp only: honest_flights split: if_split) blast
  next
    case False
    with step LkPaid q inv show ?thesis
      by (auto simp: lookup_step_def intro!: honest_with_request split: flight_action.splits)
  qed
next
  case LkIdle
  with step inv honest_updates[OF honest_requestD[OF inv i]] show ?thesis
    by (auto simp: lookup_step_def intro!: honest_with_request split: flight_action.splits)
next
  case (LkMissed addr)
  note q = honest_updates[OF honest_requestD[OF inv i]]
  have "honest_request L M c0 s ((rs_requests s ! i)\<lparr>rq_budget := b, rq_call := LkPaid addr\<rparr>)" for b
    using honest_updates(3)[OF q(6)] by simp
  with step LkMissed inv q show ?thesis
    by (auto simp: lookup_step_def case_prod_beta budget_spend_def intro!: honest_with_request split: flight_action.splits if_splits)
next
  case (LkWait addr r)
  note q = honest_updates[OF honest_requestD[OF inv i]]
  have "from_dns L c0 s (dnsAddrCacheKey M addr) e" if "r = Some e" for e
    using honest_requestD[OF inv i] LkWait that by (simp add: honest_request_def)
  with step LkWait inv q show ?thesis
    by (auto simp: lookup_step_def intro!: honest_with_request split: flight_action.splits option.splits if_splits)
qed

lemma from_dns_more: "from_dns L c0 s key e \<Longrightarrow> from_dns L c0 (s\<lparr>rs_answers := rs_answers s @ as\<rparr>) key e"
  by (auto simp: from_dns_def)

lemma honest_request_more:
  "honest_request L M c0 s q \<Longrightarrow> honest_request L M c0 (s\<lparr>rs_answers := rs_answers s @ as\<rparr>) q"
  unfolding honest_request_def using from_dns_more[of L c0 s] by fast

lemma honest_flight_more: "honest_flight L c0 s key fl \<Longrightarrow> honest_flight L c0 (s\<lparr>rs_answers := rs_answers s @ as\<rparr>) key fl"
  by (auto simp: honest_flight_def from_dns_more split: flight.splits)

lemma honest_deliver:
  assumes "honest_request L M c0 s q" "from_dns L c0 s key e"
  shows "honest_request L M c0 s (deliver M key e q)"
  using assms by (auto simp: honest_request_def deliver_def split: looker.split option.split)

lemma honest_query_step:
  assumes L: "lru_lawful L" and inv: "honest_inv L M c0 s" and det: "detached s" and step: "query_step L F M s key a = Some s'"
  shows "honest_inv L M c0 s'"
proof (cases "rs_flights s key")
  case (Some fl)
  then have fl: "honest_flight L c0 s key fl" using inv by (simp add: honest_inv_def)
  show ?thesis
  proof (cases fl)
    case (FlQuerying addr ctx)
    with det Some have "ctx = NeverDone" by (auto simp: detached_def)
    with FlQuerying step Some obtain answer where
      s': "s' = s\<lparr>rs_flights := (rs_flights s)(key \<mapsto> FlAnswered answer), rs_answers := rs_answers s @ [(key, answer)]\<rparr>"
      by (auto simp: query_step_def context_done_def split: flight_action.splits)
    define s1 where "s1 = s\<lparr>rs_answers := rs_answers s @ [(key, answer)]\<rparr>"
    have "honest_inv L M c0 s1"
      using inv unfolding s1_def honest_inv_def
      by (simp add: from_dns_more honest_flight_more honest_request_more)
    moreover have "s' = s1\<lparr>rs_flights := (rs_flights s1)(key \<mapsto> FlAnswered answer)\<rparr>" by (simp add: s' s1_def)
    moreover have "(key, answer) \<in> set (rs_answers s1)" by (simp add: s1_def)
    ultimately show ?thesis by (simp add: honest_flights honest_flight_def)
  next
    case (FlAnswered answer)
    with fl have ans: "(key, answer) \<in> set (rs_answers s)" by (simp add: honest_flight_def)
    from FlAnswered step Some obtain now where
      s': "s' = s\<lparr>rs_cache := lru_Add L (rs_cache s) key (resolved_entry answer now),
        rs_flights := (rs_flights s)(key \<mapsto> FlStored (resolved_entry answer now))\<rparr>"
      by (auto simp: query_step_def Let_def split: flight_action.splits)
    have e: "from_dns L c0 s key (resolved_entry answer now)" using ans by (auto simp: from_dns_def)
    have "from_dns L c0 s k e'" if "lru_Peek L (lru_Add L (rs_cache s) key (resolved_entry answer now)) k = Some e'" for k e'
    proof (cases "k = key")
      case True
      with that e lru_Peek_Add[OF L, of "rs_cache s" key "resolved_entry answer now"] show ?thesis by simp
    next
      case False
      from lru_Peek_Add_other[OF L this that] inv show ?thesis by (simp add: honest_inv_def)
    qed
    then have "honest_inv L M c0 (s\<lparr>rs_cache := lru_Add L (rs_cache s) key (resolved_entry answer now)\<rparr>)"
      using inv by (simp add: honest_inv_def)
    from honest_flights(1)[OF this, of key "FlStored (resolved_entry answer now)"] e show ?thesis
      by (simp add: s' honest_flight_def)
  next
    case (FlStored e)
    with fl have e: "from_dns L c0 s key e" by (simp add: honest_flight_def)
    from FlStored step Some obtain cs g where
      s': "s' = s\<lparr>rs_group := g, rs_flights := (rs_flights s)(key := None), rs_finished := rs_finished s @ [key],
         rs_requests := map (\<lambda>i. if i \<in> set cs then deliver M key e (rs_requests s ! i) else rs_requests s ! i)
           [0..<length (rs_requests s)]\<rparr>"
      by (cases "fg_Return F (rs_group s) key") (auto simp: query_step_def split: flight_action.splits)
    show ?thesis using inv honest_deliver[OF _ e] by (auto simp: honest_inv_def s' split: if_splits)
  qed
qed (use step in \<open>simp add: query_step_def\<close>)

lemma honest_step:
  assumes "lru_lawful L" "honest_inv L M c0 s \<and> detached s" "flight_step L F M s a = Some s'"
  shows "honest_inv L M c0 s' \<and> detached s'"
proof
  show "detached s'" using assms(2,3) by (blast intro: detached_step)
  from assms(3) show "honest_inv L M c0 s'"
  proof (cases rule: flight_stepE)
    case (request i q)
    with assms(1,2) show ?thesis by (auto intro: honest_lookup_step)
  next
    case (query key)
    with assms(1,2) show ?thesis by (blast intro: honest_query_step)
  qed
qed

lemma honest_run:
  fixes L :: "('c, 'ma) dns_lru" and F :: "'g flight_lib"
  assumes "lru_lawful L" "run_steps (flight_step L F M) (shared_resolver c0 g n) as = Some s"
  shows "honest_inv L M c0 s"
proof -
  have "honest_inv L M c0 (shared_resolver c0 g n) \<and> detached (shared_resolver c0 g n :: ('c, 'g, 'ma) resolver_sys)"
    by (simp add: honest_inv_def detached_def shared_resolver_def from_dns_def honest_request_def new_request_def)
  then have "honest_inv L M c0 s \<and> detached s"
    by (rule run_steps_guarded[where ok = "\<lambda>a. True" and I = "\<lambda>s. honest_inv L M c0 s \<and> detached s", rotated, OF _ _ assms(2)])
      (auto simp: list_all_iff dest: honest_step[OF assms(1) conjI])
  then show ?thesis ..
qed

section \<open>Each lookup is one of \<open>DnsAddr\<close>\<close>

text \<open>
  What a request sees of the others is what the environment of \<open>DnsAddr.lookup\<close> may do: every call that
  returns here is a run of \<open>lookup\<close>, with the same result and the same use of the budget, for some
  environment and state of the cache. So what \<open>DnsAddr\<close> proves of \<open>lookup\<close> for all environments holds here.
\<close>

definition as_lookup :: "('c, 'ma) dns_lru \<Rightarrow> 'ma malib \<Rightarrow> 'ma \<times> ('ma list \<times> bool) \<times> dnsAddrBudget \<times> dnsAddrBudget \<Rightarrow> bool" where
  "as_lookup L M x = (case x of (addr, res, before, after) \<Rightarrow>
     \<exists>E st. ds_budget st = before \<and> fst (lookup E L M addr st) = res \<and> ds_budget (snd (lookup E L M addr st)) = after)"

definition cache_missed :: "('c, 'ma) dns_lru \<Rightarrow> 'ma malib \<Rightarrow> 'ma \<Rightarrow> bool" where
  "cache_missed L M addr \<longleftrightarrow>
     (\<exists>c now. case lru_Peek L c (dnsAddrCacheKey M addr) of None \<Rightarrow> True | Some e \<Rightarrow> \<not> now < ce_expires e)"

text \<open>The environment in which the clock stands still and the cache is left alone.\<close>

definition still_env :: "int \<Rightarrow> bool \<Rightarrow> 'ma dnsAddrCacheEntry \<Rightarrow> bool \<Rightarrow> ('c, 'ma) dns_env" where
  "still_env now ctx_done shared gone = \<lparr>env_now = (\<lambda>_. now), env_ctx_done = (\<lambda>_. ctx_done), env_flight = (\<lambda>_ _. Some shared),
     env_gone = (\<lambda>_. gone), env_Resolve = (\<lambda>_ _. Inr []), env_others = (\<lambda>_ c. c)\<rparr>"

definition still_state :: "'c \<Rightarrow> dnsAddrBudget \<Rightarrow> ('c, 'ma) dns_state" where
  "still_state c b = \<lparr>ds_cache = c, ds_budget = b, ds_room = 0, ds_queries = [], ds_metrics = [], ds_tick = 0\<rparr>"

lemma hit_as_lookup:
  fixes e :: "'ma dnsAddrCacheEntry"
  assumes "lru_lawful L" "lru_Peek L c (dnsAddrCacheKey M addr) = Some e" "now < ce_expires e"
  shows "as_lookup L M (addr, (ce_addrs e, ce_ok e), b, b)"
  using assms lru_Get_fst[OF assms(1), of c "dnsAddrCacheKey M addr"] unfolding as_lookup_def
  by (auto intro!: exI[of _ "still_env now True e True"] exI[of _ "still_state c b"]
      simp: lookup_def still_env_def still_state_def observe_def inc_metric_def Let_def case_prod_beta)

lemma miss_as_lookup:
  fixes e :: "'ma dnsAddrCacheEntry"
  assumes L: "lru_lawful L" and miss: "cache_missed L M addr"
  shows "as_lookup L M (addr, ([], False), b, b)"
    and "budget_spend b = (True, b') \<Longrightarrow> as_lookup L M (addr, ([], False), b, b')"
    and "budget_spend b = (True, b') \<Longrightarrow> as_lookup L M (addr, (ce_addrs e, ce_ok e), b, b')"
proof -
  from miss obtain c now where c: "case lru_Peek L c (dnsAddrCacheKey M addr) of None \<Rightarrow> True | Some e \<Rightarrow> \<not> now < ce_expires e"
    unfolding cache_missed_def by blast
  note run = lookup_def lookup_miss_def still_env_def still_state_def observe_def inc_metric_def Let_def case_prod_beta
    lru_Get_fst[OF L] spend_def budget_spend_def
  show "as_lookup L M (addr, ([], False), b, b)" unfolding as_lookup_def prod.case
    using c by (intro exI[of _ "still_env now True undefined True"] exI[of _ "still_state c b"])
      (simp add: run split: option.splits)
  assume b: "budget_spend b = (True, b')"
  show "as_lookup L M (addr, ([], False), b, b')" unfolding as_lookup_def prod.case
    using b c by (intro exI[of _ "still_env now False undefined True"] exI[of _ "still_state c b"])
      (auto simp: run split: option.splits if_splits)
  show "as_lookup L M (addr, (ce_addrs e, ce_ok e), b, b')" unfolding as_lookup_def prod.case
    using b c by (intro exI[of _ "still_env now False e False"] exI[of _ "still_state c b"])
      (auto simp: run split: option.splits if_splits)
qed

definition sequential :: "('c, 'ma) dns_lru \<Rightarrow> 'ma malib \<Rightarrow> 'ma requester \<Rightarrow> bool" where
  "sequential L M q \<longleftrightarrow> list_all (as_lookup L M) (rq_returns q) \<and>
     (case rq_call q of
        LkIdle \<Rightarrow> True
      | LkBegun addr \<Rightarrow> rq_start q = rq_budget q
      | LkMissed addr \<Rightarrow> rq_start q = rq_budget q \<and> cache_missed L M addr
      | LkPaid addr \<Rightarrow> budget_spend (rq_start q) = (True, rq_budget q) \<and> cache_missed L M addr
      | LkWait addr r \<Rightarrow> budget_spend (rq_start q) = (True, rq_budget q) \<and> cache_missed L M addr)"

lemma sequential_lookup_step:
  assumes L: "lru_lawful L" and q: "sequential L M (rs_requests s ! i)" and i: "i < length (rs_requests s)"
    and step: "lookup_step L F M s i (rs_requests s ! i) a = Some s'"
  shows "\<exists>q'. rs_requests s' = (rs_requests s)[i := q'] \<and> sequential L M q'"
proof (cases "rq_call (rs_requests s ! i)")
  case (LkBegun addr)
  let ?k = "dnsAddrCacheKey M addr"
  obtain c where c: "lru_Get L (rs_cache s) ?k = (lru_Peek L (rs_cache s) ?k, c)"
    using lru_Get_fst[OF L, of "rs_cache s" ?k] by (cases "lru_Get L (rs_cache s) ?k") simp
  have miss: "cache_missed L M addr"
    if "case lru_Peek L (rs_cache s) ?k of None \<Rightarrow> True | Some e \<Rightarrow> \<not> now < ce_expires e" for now
    using that unfolding cache_missed_def by blast
  note hit = hit_as_lookup[OF L, of "rs_cache s" M addr]
  show ?thesis
  proof (cases "lru_Peek L (rs_cache s) ?k")
    case None
    with step LkBegun q miss show ?thesis
      by (auto simp: lookup_step_def c Let_def sequential_def split: flight_action.splits)
  next
    case (Some e)
    with step LkBegun q miss hit show ?thesis
      by (auto simp: lookup_step_def c Let_def sequential_def split: flight_action.splits if_splits)
  qed
next
  case (LkPaid addr)
  with step q show ?thesis
    by (auto simp: lookup_step_def Let_def case_prod_beta sequential_def split: flight_action.splits if_splits)
next
  case LkIdle
  with step q show ?thesis by (auto simp: lookup_step_def sequential_def split: flight_action.splits)
next
  case (LkMissed addr)
  with step q miss_as_lookup(1)[OF L, of M addr] show ?thesis
    by (auto simp: lookup_step_def case_prod_beta budget_spend_def sequential_def split: flight_action.splits if_splits)
next
  case (LkWait addr r)
  with q have w: "budget_spend (rq_start (rs_requests s ! i)) = (True, rq_budget (rs_requests s ! i))" "cache_missed L M addr"
    by (simp_all add: sequential_def)
  show ?thesis
    using step q LkWait miss_as_lookup(2,3)[OF L w(2,1)]
    by (auto simp: lookup_step_def sequential_def split: flight_action.splits option.splits if_splits)
qed

lemma sequential_deliver: "sequential L M q \<Longrightarrow> sequential L M (deliver M key e q)"
  by (auto simp: sequential_def deliver_def split: looker.split option.split)

lemma sequential_step:
  assumes L: "lru_lawful L" and inv: "list_all (sequential L M) (rs_requests s)" and step: "flight_step L F M s a = Some s'"
  shows "list_all (sequential L M) (rs_requests s')"
  using step
proof (cases rule: flight_stepE)
  case (request i q)
  then have "sequential L M (rs_requests s ! i)" using inv by (simp add: list_all_length)
  from sequential_lookup_step[OF L this request(1)] request(2,3) obtain q' where
    q': "rs_requests s' = (rs_requests s)[i := q']" "sequential L M q'" by blast
  have "set ((rs_requests s)[i := q']) \<subseteq> insert q' (set (rs_requests s))" by (rule set_update_subset_insert)
  with q' inv show ?thesis by (auto simp: list_all_iff)
next
  case (query key)
  show ?thesis
  proof (cases "\<exists>e. rs_flights s key = Some (FlStored e)")
    case True
    then obtain e where fl: "rs_flights s key = Some (FlStored e)" by blast
    obtain cs g where ret: "fg_Return F (rs_group s) key = (cs, g)" by force
    from query fl ret have "rs_requests s' =
        map (\<lambda>i. if i \<in> set cs then deliver M key e (rs_requests s ! i) else rs_requests s ! i) [0..<length (rs_requests s)]"
      by (auto simp: query_step_def split: flight_action.splits)
    with inv show ?thesis by (auto simp: list_all_iff sequential_deliver)
  next
    case False
    with query have "rs_requests s' = rs_requests s"
      by (auto simp: query_step_def Let_def split: option.splits flight.splits flight_action.splits if_splits)
    with inv show ?thesis by simp
  qed
qed

lemma lookups_are_sequential:
  assumes "lru_lawful L" "run_steps (flight_step L F M) (shared_resolver c g n) as = Some s" "q \<in> set (rs_requests s)" "x \<in> set (rq_returns q)"
  shows "as_lookup L M x"
proof -
  have "list_all (sequential L M) (rs_requests s)"
  proof (rule run_steps_guarded[where ok = "\<lambda>a. True" and I = "\<lambda>s. list_all (sequential L M) (rs_requests s)", rotated, OF _ _ assms(2)])
    show "list_all (sequential L M) (rs_requests (shared_resolver c g n))"
      by (simp add: shared_resolver_def sequential_def new_request_def list_all_iff)
  qed (auto simp: list_all_iff intro: sequential_step[OF assms(1), unfolded list_all_iff, rule_format])
  with assms(3,4) show ?thesis by (auto simp: list_all_iff sequential_def)
qed

section \<open>Properties\<close>

text \<open>A group that keeps the callers of every key in a map has the documented behaviour.\<close>

definition map_flight :: "(string \<rightharpoonup> nat list) flight_lib" where [env_defs]:
  "map_flight = \<lparr>fg_DoChan = (\<lambda>g key c. (g key = None, g(key \<mapsto> (case g key of None \<Rightarrow> [c] | Some cs \<Rightarrow> cs @ [c])))),
     fg_Return = (\<lambda>g key. (the (g key), g(key := None))), fg_callers = (\<lambda>g. g)\<rparr>"

lemma flight_lawful_map_flight [simp]: "flight_lawful map_flight"
  by (simp add: flight_lawful_def map_flight_def)

text \<open>Two requests for one name; the second reads the cache during the query of the first and pays only after it.\<close>

definition late_miss :: "'ma malib \<Rightarrow> 'ma \<Rightarrow> 'ma \<Rightarrow> int \<Rightarrow> 'ma flight_action list" where
  "late_miss M addr x t = (let key = dnsAddrCacheKey M addr in
     [LookupCall 0 addr, ReadCache 0 t, Spend 0, Join 0, LookupCall 1 addr, ReadCache 1 t,
      DnsAnswers key (Inr [x]), StoreEntry key t, FlightReturns key, Spend 1, Join 1])"

definition after_late_miss :: "'ma malib \<Rightarrow> 'ma \<Rightarrow> 'ma \<Rightarrow> int \<Rightarrow> (string \<rightharpoonup> 'ma dnsAddrCacheEntry, string \<rightharpoonup> nat list, 'ma) resolver_sys" where
  "after_late_miss M addr x t = (let key = dnsAddrCacheKey M addr; e = resolved_entry (Inr [x]) t; q = new_request\<lparr>rq_budget := \<lparr>lookups = 15\<rparr>, rq_start := newDNSAddrBudget\<rparr> in
     \<lparr>rs_cache = [key \<mapsto> e], rs_group = [key \<mapsto> [1]], rs_flights = [key \<mapsto> FlQuerying addr NeverDone],
      rs_requests = [q\<lparr>rq_call := LkWait addr (Some e)\<rparr>, q\<lparr>rq_call := LkWait addr None\<rparr>],
      rs_led = [(0, key), (1, key)], rs_answers = [(key, Inr [x])], rs_finished = [key]\<rparr>)"

lemma late_miss_run:
  "run_steps (flight_step map_lru map_flight M) (shared_resolver Map.empty Map.empty 2) (late_miss M addr x t) = Some (after_late_miss M addr x t)"
  by (simp add: late_miss_def after_late_miss_def flight_step_def lookup_step_def query_step_def shared_resolver_def new_request_def
      newDNSAddrBudget_def MaxDNSAddrLookupsPerRequest_def budget_spend_def with_request_def deliver_def map_lru_def map_flight_def
      context_WithoutCancel_def context_done_def
      Let_def numeral_2_eq_2 upt_rec)

text \<open>
  C12. Shared queries. However the lookups of \<open>n\<close> requests interleave, each name has at most one query
  running: the queries started for it are the ones that have returned, and one more while a query runs.
  No request starts more than 16 queries, so together they start at most \<open>16 n\<close>, and whoever waits for a
  name without a result on its channel has a query for that name running.
\<close>

theorem shared_queries_bounded:
  assumes F: "flight_lawful F" and "fg_callers F g = Map.empty"
    and "run_steps (flight_step L F M) (shared_resolver c g n) as = Some s"
  shows "count_list (map snd (rs_led s)) key = count_list (rs_finished s) key + (if key \<in> dom (rs_flights s) then 1 else 0) \<and>
    count_list (map fst (rs_led s)) i \<le> 16 \<and> length (rs_led s) \<le> 16 * n \<and>
    (i < n \<and> rq_call (rs_requests s ! i) = LkWait addr None \<longrightarrow> dnsAddrCacheKey M addr \<in> dom (rs_flights s))"
proof -
  from flights_run[OF assms] have inv: "flights_inv F M n s" .
  have led: "count_list (map fst (rs_led s)) i \<le> 16" for i
  proof (cases "i < n")
    case True
    from flights_requestD(1)[OF inv this] show ?thesis
      by (auto simp: request_ok_def MaxDNSAddrLookupsPerRequest_def paid_def split: looker.splits)
  next
    case False
    with inv have "i \<notin> set (map fst (rs_led s))" by (auto simp: flights_inv_def)
    then have "count_list (map fst (rs_led s)) i = 0" by (rule count_notin)
    then show ?thesis by simp
  qed
  have "set (map fst (rs_led s)) \<subseteq> {..<n}" using inv by (simp add: flights_inv_def)
  then have "length (rs_led s) = (\<Sum>i<n. count_list (map fst (rs_led s)) i)"
    using sum_count_set[of "map fst (rs_led s)" "{..<n}"] by simp
  also have "\<dots> \<le> (\<Sum>i<n. 16)" by (rule sum_mono) (rule led)
  finally have "length (rs_led s) \<le> 16 * n" by simp
  moreover have "dnsAddrCacheKey M addr \<in> dom (rs_flights s)" if "i < n" "rq_call (rs_requests s ! i) = LkWait addr None"
    using flights_requestD(1)[OF inv that(1)] flights_groupD[OF inv, of "dnsAddrCacheKey M addr"] that(2)
    by (auto simp: request_ok_def)
  moreover have "count_list (map snd (rs_led s)) key = count_list (rs_finished s) key + (if key \<in> dom (rs_flights s) then 1 else 0)"
    using inv unfolding flights_inv_def by blast
  ultimately show ?thesis using led[of i] by blast
qed

lemma shared_queries_bounded_witness:
  "count_list (map snd (rs_led (after_late_miss sample_lib sample_dnsaddr sample_ip 3))) (dnsAddrCacheKey sample_lib sample_dnsaddr) = 2"
  using shared_queries_bounded[OF flight_lawful_map_flight _ late_miss_run, of sample_lib sample_dnsaddr sample_ip 3
      "dnsAddrCacheKey sample_lib sample_dnsaddr" 0 sample_dnsaddr]
  by (simp add: after_late_miss_def Let_def map_flight_def)

text \<open>
  C31. Only DNS fills the cache. In every interleaving, a cached entry was in the cache at first or is made
  of an answer DNS gave for its name, and so is whatever a lookup returns, unless it returns the incomplete
  nothing and its own request is gone or out of budget. In no reachable state can a query be cancelled: a
  request that goes away leaves no cancellation in the cache, and none reaches a request that waits with it.
\<close>

theorem only_dns_fills_cache:
  assumes "lru_lawful L" and "run_steps (flight_step L F M) (shared_resolver c0 g n) as = Some s"
  shows "(lru_Peek L (rs_cache s) key = Some e \<longrightarrow>
       lru_Peek L c0 key = Some e \<or> (\<exists>answer t. (key, answer) \<in> set (rs_answers s) \<and> e = resolved_entry answer t)) \<and>
    (q \<in> set (rs_requests s) \<and> (addr, res, before, after) \<in> set (rq_returns q) \<longrightarrow>
       res = ([], False) \<and> (rq_gone q \<or> lookups after \<le> 0) \<or>
       (\<exists>e. res = (ce_addrs e, ce_ok e) \<and>
          (lru_Peek L c0 (dnsAddrCacheKey M addr) = Some e \<or>
           (\<exists>answer t. (dnsAddrCacheKey M addr, answer) \<in> set (rs_answers s) \<and> e = resolved_entry answer t)))) \<and>
    flight_step L F M s (QueryCanceled key) = None"
proof -
  have h: "honest_inv L M c0 s" by (rule honest_run[OF assms])
  have cached: "lru_Peek L c0 key = Some e \<or> (\<exists>answer t. (key, answer) \<in> set (rs_answers s) \<and> e = resolved_entry answer t)"
    if "lru_Peek L (rs_cache s) key = Some e"
    using h that unfolding honest_inv_def from_dns_def by blast
  have returned: "res = ([], False) \<and> (rq_gone q \<or> lookups after \<le> 0) \<or>
       (\<exists>e. res = (ce_addrs e, ce_ok e) \<and>
          (lru_Peek L c0 (dnsAddrCacheKey M addr) = Some e \<or>
           (\<exists>answer t. (dnsAddrCacheKey M addr, answer) \<in> set (rs_answers s) \<and> e = resolved_entry answer t)))"
    if "q \<in> set (rs_requests s)" and x: "(addr, res, before, after) \<in> set (rq_returns q)"
  proof -
    from h that(1) have "honest_request L M c0 s q" by (simp add: honest_inv_def)
    then have "\<forall>(addr, res, before, after) \<in> set (rq_returns q).
        res = ([], False) \<and> (rq_gone q \<or> lookups after \<le> 0) \<or>
        (\<exists>e. from_dns L c0 s (dnsAddrCacheKey M addr) e \<and> res = (ce_addrs e, ce_ok e))"
      unfolding honest_request_def by (rule conjunct2)
    from bspec[OF this x] show ?thesis unfolding from_dns_def prod.case by blast
  qed
  have "flight_step L F M s (QueryCanceled key) = None"
    using detached_run[OF assms(2)]
    by (auto simp: flight_step_def query_step_def detached_def context_done_def split: option.split flight.split go_context.split)
  with cached returned show ?thesis by (intro conjI impI) simp_all
qed

lemma only_dns_fills_cache_witness:
  "lru_Peek map_lru (rs_cache (after_late_miss sample_lib sample_dnsaddr sample_ip 3)) (dnsAddrCacheKey sample_lib sample_dnsaddr) =
     Some (resolved_entry (Inr [sample_ip]) 3) \<and>
   (\<exists>answer t. (dnsAddrCacheKey sample_lib sample_dnsaddr, answer) \<in> set (rs_answers (after_late_miss sample_lib sample_dnsaddr sample_ip 3)) \<and>
     resolved_entry (Inr [sample_ip]) 3 = resolved_entry answer t)"
  using only_dns_fills_cache[OF lru_lawful_map_lru late_miss_run, of sample_lib sample_dnsaddr sample_ip 3
      "dnsAddrCacheKey sample_lib sample_dnsaddr" "resolved_entry (Inr [sample_ip]) 3"]
  by (simp add: after_late_miss_def map_lru_def Let_def)

text \<open>The steps of one query, from each of its phases. \<open>query_ended\<close>: who waited for the name has its entry.\<close>

definition query_ended ::
  "'ma malib \<Rightarrow> nat \<Rightarrow> string \<Rightarrow> 'ma dnsAddrCacheEntry \<Rightarrow> ('c, 'g, 'ma) resolver_sys \<Rightarrow> ('c, 'g, 'ma) resolver_sys \<Rightarrow> bool" where
  "query_ended M n key e s s' \<longleftrightarrow> rs_flights s' key = None \<and>
     (\<forall>i < n. \<forall>addr. rq_call (rs_requests s ! i) = LkWait addr None \<and> dnsAddrCacheKey M addr = key \<longrightarrow>
        rq_call (rs_requests s' ! i) = LkWait addr (Some e))"

lemma finish_stored:
  assumes F: "flight_lawful F" and inv: "flights_inv F M n s" and fl: "rs_flights s key = Some (FlStored e)"
  obtains s' where "flight_step L F M s (FlightReturns key) = Some s'" "query_ended M n key e s s'"
    "rs_cache s' = rs_cache s" "rs_led s' = rs_led s" "fg_callers F (rs_group s') key = None"
    "\<And>i addr. i < n \<Longrightarrow> rq_call (rs_requests s ! i) = LkMissed addr \<Longrightarrow> rs_requests s' ! i = rs_requests s ! i"
    "length (rs_requests s') = length (rs_requests s)"
proof -
  obtain cs where cs: "fg_callers F (rs_group s) key = Some cs"
    using flights_groupD[OF inv, of key] fl by force
  obtain g where g: "fg_Return F (rs_group s) key = (cs, g)"
    using Return_callers[OF F cs] by (cases "fg_Return F (rs_group s) key") simp
  define s' where "s' = s\<lparr>rs_group := g, rs_flights := (rs_flights s)(key := None), rs_finished := rs_finished s @ [key],
     rs_requests := map (\<lambda>i. if i \<in> set cs then deliver M key e (rs_requests s ! i) else rs_requests s ! i) [0..<length (rs_requests s)]\<rparr>"
  have "rq_call (rs_requests s' ! i) = LkWait addr (Some e)"
    if "i < n" "rq_call (rs_requests s ! i) = LkWait addr None" "dnsAddrCacheKey M addr = key" for i addr
  proof -
    from flights_requestD(1)[OF inv that(1)] that(2,3) cs have "i \<in> set cs" by (simp add: request_ok_def)
    with that flights_requestD(2)[OF inv] show ?thesis by (simp add: s'_def deliver_def)
  qed
  then have "query_ended M n key e s s'" by (simp add: query_ended_def s'_def)
  moreover have "flight_step L F M s (FlightReturns key) = Some s'"
    by (simp add: flight_step_def query_step_def fl g s'_def)
  moreover have "fg_callers F (rs_group s') key = None"
    using Return_removes[OF F, of "rs_group s" key] g by (simp add: s'_def)
  moreover have "rs_requests s' ! i = rs_requests s ! i" if "i < n" "rq_call (rs_requests s ! i) = LkMissed addr" for i addr
    using that flights_requestD(2)[OF inv] by (simp add: s'_def deliver_def)
  ultimately show thesis using that[of s'] by (simp add: s'_def)
qed

lemma finish_answered:
  assumes F: "flight_lawful F" and L: "lru_lawful L" and inv: "flights_inv F M n s" and fl: "rs_flights s key = Some (FlAnswered answer)"
  obtains s' where "run_steps (flight_step L F M) s [StoreEntry key t, FlightReturns key] = Some s'"
    "query_ended M n key (resolved_entry answer t) s s'" "lru_Peek L (rs_cache s') key = Some (resolved_entry answer t)"
    "rs_led s' = rs_led s" "fg_callers F (rs_group s') key = None"
    "\<And>i addr. i < n \<Longrightarrow> rq_call (rs_requests s ! i) = LkMissed addr \<Longrightarrow> rs_requests s' ! i = rs_requests s ! i"
    "length (rs_requests s') = length (rs_requests s)"
proof -
  let ?e = "resolved_entry answer t"
  define s1 where "s1 = s\<lparr>rs_cache := lru_Add L (rs_cache s) key ?e, rs_flights := (rs_flights s)(key \<mapsto> FlStored ?e)\<rparr>"
  have step: "flight_step L F M s (StoreEntry key t) = Some s1"
    using fl by (simp add: flight_step_def query_step_def s1_def Let_def)
  have fl1: "rs_flights s1 key = Some (FlStored ?e)" by (simp add: s1_def)
  from finish_stored[where L = L, OF F flights_step[OF F inv step] fl1] obtain s2 where
    s2: "flight_step L F M s1 (FlightReturns key) = Some s2" "query_ended M n key ?e s1 s2"
      "rs_cache s2 = rs_cache s1" "rs_led s2 = rs_led s1" "fg_callers F (rs_group s2) key = None"
      "\<And>i addr. i < n \<Longrightarrow> rq_call (rs_requests s1 ! i) = LkMissed addr \<Longrightarrow> rs_requests s2 ! i = rs_requests s1 ! i"
      "length (rs_requests s2) = length (rs_requests s1)" by blast
  have "run_steps (flight_step L F M) s [StoreEntry key t, FlightReturns key] = Some s2" using step s2(1) by simp
  moreover have "query_ended M n key ?e s s2" using s2(2) by (simp add: query_ended_def s1_def)
  moreover have "lru_Peek L (rs_cache s2) key = Some ?e" by (simp add: s2(3) s1_def lru_Peek_Add[OF L])
  ultimately show thesis using that[of s2] s2(4-7) by (simp add: s1_def)
qed

lemma finish_querying:
  assumes F: "flight_lawful F" and L: "lru_lawful L" and inv: "flights_inv F M n s" and det: "detached s"
    and fl: "rs_flights s key = Some (FlQuerying addr ctx)"
  obtains s' where "run_steps (flight_step L F M) s [DnsAnswers key answer, StoreEntry key t, FlightReturns key] = Some s'"
    "query_ended M n key (resolved_entry answer t) s s'" "lru_Peek L (rs_cache s') key = Some (resolved_entry answer t)"
    "rs_led s' = rs_led s" "fg_callers F (rs_group s') key = None"
    "\<And>i addr. i < n \<Longrightarrow> rq_call (rs_requests s ! i) = LkMissed addr \<Longrightarrow> rs_requests s' ! i = rs_requests s ! i"
    "length (rs_requests s') = length (rs_requests s)"
proof -
  define s1 where "s1 = s\<lparr>rs_flights := (rs_flights s)(key \<mapsto> FlAnswered answer), rs_answers := rs_answers s @ [(key, answer)]\<rparr>"
  have "ctx = NeverDone" using det fl by (auto simp: detached_def)
  with fl have step: "flight_step L F M s (DnsAnswers key answer) = Some s1"
    by (simp add: flight_step_def query_step_def context_done_def s1_def)
  have fl1: "rs_flights s1 key = Some (FlAnswered answer)" by (simp add: s1_def)
  from finish_answered[where t = t, OF F L flights_step[OF F inv step] fl1] obtain s2 where
    s2: "run_steps (flight_step L F M) s1 [StoreEntry key t, FlightReturns key] = Some s2"
      "query_ended M n key (resolved_entry answer t) s1 s2" "lru_Peek L (rs_cache s2) key = Some (resolved_entry answer t)"
      "rs_led s2 = rs_led s1" "fg_callers F (rs_group s2) key = None"
      "\<And>i addr. i < n \<Longrightarrow> rq_call (rs_requests s1 ! i) = LkMissed addr \<Longrightarrow> rs_requests s2 ! i = rs_requests s1 ! i"
      "length (rs_requests s2) = length (rs_requests s1)" by blast
  have "run_steps (flight_step L F M) s [DnsAnswers key answer, StoreEntry key t, FlightReturns key] = Some s2"
    using step s2(1) by simp
  moreover have "query_ended M n key (resolved_entry answer t) s s2" using s2(2) by (simp add: query_ended_def s1_def)
  ultimately show thesis using that[of s2] s2(3-7) by (simp add: s1_def)
qed

text \<open>
  C40. A late miss queries again. Take any reachable state in which a query for a name runs and a request
  has read the cache for that name and missed, still alive and with budget. When the query answers, is
  stored and returns before the request pays and joins, the request starts a second query for the name,
  although the cache then holds the answer, not expired: \<open>lookup\<close> does not read the cache again before
  \<open>DoChan\<close>. This holds for every answer, every time of storing and every LRU cache and singleflight group
  with the documented behaviour.
\<close>

theorem late_miss_queries_again:
  assumes F: "flight_lawful F" and L: "lru_lawful L" and "fg_callers F g = Map.empty"
    and "run_steps (flight_step L F M) (shared_resolver c g n) as = Some s"
    and "key = dnsAddrCacheKey M addr" and "rs_flights s key = Some (FlQuerying a ctx)"
    and "i < n" and "rq_call (rs_requests s ! i) = LkMissed addr" and "\<not> rq_gone (rs_requests s ! i)"
    and "0 < lookups (rq_budget (rs_requests s ! i))"
  shows "\<exists>s'. run_steps (flight_step L F M) s
      [DnsAnswers key answer, StoreEntry key t, FlightReturns key, Spend i, Join i] = Some s' \<and>
    lru_Peek L (rs_cache s') key = Some (resolved_entry answer t) \<and> t < ce_expires (resolved_entry answer t) \<and>
    rs_led s' = rs_led s @ [(i, key)] \<and> (\<exists>ctx. rs_flights s' key = Some (FlQuerying addr ctx))"
proof -
  from flights_run[OF F assms(3,4)] have inv: "flights_inv F M n s" .
  from finish_querying[where answer = answer and t = t, OF F L inv detached_run[OF assms(4)] assms(6)] obtain s1 where
    s1: "run_steps (flight_step L F M) s [DnsAnswers key answer, StoreEntry key t, FlightReturns key] = Some s1"
      "lru_Peek L (rs_cache s1) key = Some (resolved_entry answer t)" "rs_led s1 = rs_led s"
      "fg_callers F (rs_group s1) key = None" "rs_requests s1 ! i = rs_requests s ! i"
      "length (rs_requests s1) = length (rs_requests s)"
    using assms(7,8) by metis
  have i: "i < length (rs_requests s1)" using s1(6) assms(7) flights_requestD(2)[OF inv] by simp
  obtain g1 where g1: "fg_DoChan F (rs_group s1) key i = (True, g1)"
    using DoChan_runs[OF F, of "rs_group s1" key i] s1(4) by (cases "fg_DoChan F (rs_group s1) key i") simp
  define b where "b = (rq_budget (rs_requests s ! i))\<lparr>lookups := lookups (rq_budget (rs_requests s ! i)) - 1\<rparr>"
  have b: "budget_spend (rq_budget (rs_requests s ! i)) = (True, b)" using assms(10) by (simp add: budget_spend_def b_def)
  have "\<exists>s'. run_steps (flight_step L F M) s1 [Spend i, Join i] = Some s' \<and> rs_cache s' = rs_cache s1 \<and>
      rs_led s' = rs_led s1 @ [(i, key)] \<and> rs_flights s' key = Some (FlQuerying addr (context_WithoutCancel (RequestCtx i)))"
    using i s1(5) assms(5,8,9) b g1 by (simp add: flight_step_def lookup_step_def Let_def with_request_def)
  moreover have "t < ce_expires (resolved_entry answer t)"
    by (auto simp: resolved_entry_def DNSAddrFailureCacheTTL_def DNSAddrCacheTTL_def minute_def second_def split: sum.split)
  moreover have "run_steps (flight_step L F M) s
      [DnsAnswers key answer, StoreEntry key t, FlightReturns key, Spend i, Join i] = run_steps (flight_step L F M) s1 [Spend i, Join i]"
    using s1(1) run_steps_append[of "flight_step L F M" s "[DnsAnswers key answer, StoreEntry key t, FlightReturns key]" "[Spend i, Join i]"]
    by simp
  ultimately show ?thesis using s1(2,3) by auto
qed

lemma late_miss_queries_again_witness:
  "\<exists>s s' e. run_steps (flight_step map_lru map_flight sample_lib) (shared_resolver Map.empty Map.empty 2)
      [LookupCall 0 sample_dnsaddr, ReadCache 0 3, Spend 0, Join 0, LookupCall 1 sample_dnsaddr, ReadCache 1 3] = Some s \<and>
    run_steps (flight_step map_lru map_flight sample_lib) s
      [DnsAnswers (dnsAddrCacheKey sample_lib sample_dnsaddr) (Inr [sample_ip]), StoreEntry (dnsAddrCacheKey sample_lib sample_dnsaddr) 3,
       FlightReturns (dnsAddrCacheKey sample_lib sample_dnsaddr), Spend 1, Join 1] = Some s' \<and>
    rs_led s' = [(0, dnsAddrCacheKey sample_lib sample_dnsaddr), (1, dnsAddrCacheKey sample_lib sample_dnsaddr)] \<and>
    lru_Peek map_lru (rs_cache s') (dnsAddrCacheKey sample_lib sample_dnsaddr) = Some e \<and> ce_addrs e = [sample_ip]"
proof -
  let ?k = "dnsAddrCacheKey sample_lib sample_dnsaddr" and ?as = "[LookupCall 0 sample_dnsaddr, ReadCache 0 3, Spend 0, Join 0, LookupCall 1 sample_dnsaddr, ReadCache 1 3]"
  have "\<exists>s. run_steps (flight_step map_lru map_flight sample_lib) (shared_resolver Map.empty Map.empty 2) ?as = Some s \<and>
      rs_flights s ?k = Some (FlQuerying sample_dnsaddr NeverDone) \<and> rs_requests s ! 1 = new_request\<lparr>rq_call := LkMissed sample_dnsaddr\<rparr> \<and>
      rs_led s = [(0, ?k)]"
    by (simp add: flight_step_def lookup_step_def shared_resolver_def new_request_def newDNSAddrBudget_def
        MaxDNSAddrLookupsPerRequest_def budget_spend_def with_request_def map_lru_def map_flight_def context_WithoutCancel_def
        Let_def numeral_2_eq_2)
  then obtain s where s: "run_steps (flight_step map_lru map_flight sample_lib) (shared_resolver Map.empty Map.empty 2) ?as = Some s"
    "rs_flights s ?k = Some (FlQuerying sample_dnsaddr NeverDone)" "rs_requests s ! 1 = new_request\<lparr>rq_call := LkMissed sample_dnsaddr\<rparr>"
    "rs_led s = [(0, ?k)]" by blast
  have g: "fg_callers map_flight Map.empty = Map.empty" by (simp add: map_flight_def)
  have q: "rq_call (rs_requests s ! 1) = LkMissed sample_dnsaddr" "\<not> rq_gone (rs_requests s ! 1)" "0 < lookups (rq_budget (rs_requests s ! 1))"
    using s(3) by (simp_all add: new_request_def newDNSAddrBudget_def MaxDNSAddrLookupsPerRequest_def)
  from late_miss_queries_again[where answer = "Inr [sample_ip]" and t = 3,
      OF flight_lawful_map_flight lru_lawful_map_lru g s(1) refl s(2) _ q] s(1,4)
  show ?thesis by (auto simp: resolved_entry_def)
qed

text \<open>
  C13. Queries outlive requests. From every reachable state a query that runs can end by its own steps
  alone, whichever requests are gone, the one that started it included: whatever DNS answers and whenever
  it is stored, the answer makes the entry, no query for the name runs any more, and every request still
  waiting for the name has that entry, which the cache holds. A request that is gone need not wait for
  that: it can return at once and leaves the query running.
\<close>

theorem query_outlives_requests:
  assumes F: "flight_lawful F" and L: "lru_lawful L" and "fg_callers F g = Map.empty"
    and "run_steps (flight_step L F M) (shared_resolver c g n) as = Some s"
  shows "(rs_flights s key = Some (FlQuerying addr ctx) \<longrightarrow>
      (\<exists>s'. run_steps (flight_step L F M) s [DnsAnswers key answer, StoreEntry key t, FlightReturns key] = Some s' \<and>
        query_ended M n key (resolved_entry answer t) s s' \<and> lru_Peek L (rs_cache s') key = Some (resolved_entry answer t))) \<and>
    (rs_flights s key = Some (FlAnswered answer) \<longrightarrow>
      (\<exists>s'. run_steps (flight_step L F M) s [StoreEntry key t, FlightReturns key] = Some s' \<and>
        query_ended M n key (resolved_entry answer t) s s' \<and> lru_Peek L (rs_cache s') key = Some (resolved_entry answer t))) \<and>
    (rs_flights s key = Some (FlStored e) \<longrightarrow>
      (\<exists>s'. run_steps (flight_step L F M) s [FlightReturns key] = Some s' \<and> query_ended M n key e s s')) \<and>
    (i < n \<and> rq_call (rs_requests s ! i) = LkWait a r \<and> rq_gone (rs_requests s ! i) \<longrightarrow>
      (\<exists>s'. flight_step L F M s (TakeDone i) = Some s' \<and> rq_call (rs_requests s' ! i) = LkIdle \<and> rs_flights s' = rs_flights s))"
proof (intro conjI impI)
  from flights_run[OF F assms(3,4)] have inv: "flights_inv F M n s" .
  have det: "detached s" by (rule detached_run[OF assms(4)])
  show "\<exists>s'. run_steps (flight_step L F M) s [DnsAnswers key answer, StoreEntry key t, FlightReturns key] = Some s' \<and>
        query_ended M n key (resolved_entry answer t) s s' \<and> lru_Peek L (rs_cache s') key = Some (resolved_entry answer t)"
    if "rs_flights s key = Some (FlQuerying addr ctx)"
    by (rule finish_querying[where answer = answer and t = t, OF F L inv det that]) (intro exI conjI)
  show "\<exists>s'. run_steps (flight_step L F M) s [StoreEntry key t, FlightReturns key] = Some s' \<and>
        query_ended M n key (resolved_entry answer t) s s' \<and> lru_Peek L (rs_cache s') key = Some (resolved_entry answer t)"
    if "rs_flights s key = Some (FlAnswered answer)"
    by (rule finish_answered[where t = t, OF F L inv that]) (intro exI conjI)
  show "\<exists>s'. run_steps (flight_step L F M) s [FlightReturns key] = Some s' \<and> query_ended M n key e s s'"
    if "rs_flights s key = Some (FlStored e)"
    by (rule finish_stored[where L = L, OF F inv that]) (rule exI, simp)
  show "\<exists>s'. flight_step L F M s (TakeDone i) = Some s' \<and> rq_call (rs_requests s' ! i) = LkIdle \<and> rs_flights s' = rs_flights s"
    if "i < n \<and> rq_call (rs_requests s ! i) = LkWait a r \<and> rq_gone (rs_requests s ! i)"
    using that flights_requestD(2)[OF inv] by (cases r) (simp_all add: flight_step_def lookup_step_def)
qed

lemma query_outlives_requests_witness:
  "\<exists>s'. run_steps (flight_step map_lru map_flight sample_lib) (after_late_miss sample_lib sample_dnsaddr sample_ip 3)
      [DnsAnswers (dnsAddrCacheKey sample_lib sample_dnsaddr) (Inr [sample_lan]), StoreEntry (dnsAddrCacheKey sample_lib sample_dnsaddr) 8,
       FlightReturns (dnsAddrCacheKey sample_lib sample_dnsaddr)] = Some s' \<and>
     lru_Peek map_lru (rs_cache s') (dnsAddrCacheKey sample_lib sample_dnsaddr) = Some (resolved_entry (Inr [sample_lan]) 8)"
proof -
  let ?s = "after_late_miss sample_lib sample_dnsaddr sample_ip 3" and ?k = "dnsAddrCacheKey sample_lib sample_dnsaddr"
  have fl: "rs_flights ?s ?k = Some (FlQuerying sample_dnsaddr NeverDone)" by (simp add: after_late_miss_def Let_def)
  have "fg_callers map_flight Map.empty = Map.empty" by (simp add: map_flight_def)
  from query_outlives_requests[where answer = "Inr [sample_lan]" and t = 8,
      OF flight_lawful_map_flight lru_lawful_map_lru this late_miss_run,
      of sample_lib sample_dnsaddr sample_ip 3 ?k sample_dnsaddr NeverDone] fl show ?thesis by blast
qed

end
