(* ===== verification/IpnsRace.thy ===== *)
theory IpnsRace
  imports Routers
begin

text \<open>
  The goroutines of \<open>parallelRouter.GetIPNS\<close> and \<open>PutIPNS\<close> (server_routers.go), for two routers or more:
  one goroutine per router and the caller, as one step function each, so that every order of them is a
  run. \<open>GetIPNS\<close> refines the loop over events of \<open>Routers\<close>, always can return, and leaks no goroutine;
  \<open>PutIPNS\<close> returns the same error in every order.
\<close>

section \<open>GetIPNS\<close>

text \<open>A goroutine in its router's call, in its \<open>select\<close> with the answer to send, or finished.\<close>

datatype 'r getter = GCalling | GSending "go_err + 'r option" | GGone

text \<open>
  \<open>ra_ctx\<close> is the error of the derived context, \<open>ra_left\<close> the passes of the loop still to make,
  \<open>ra_log\<close> what the receives so far have seen, in order.
\<close>

record 'r race =
  ra_getters :: "'r getter list"
  ra_ctx :: "go_err option"
  ra_left :: nat
  ra_errs :: "go_err option"
  ra_ret :: "(go_err + 'r option) option"
  ra_log :: "'r ipns_event list"

definition newRace :: "nat \<Rightarrow> 'r race" where
  "newRace n = \<lparr>ra_getters = replicate n GCalling, ra_ctx = None, ra_left = n, ra_errs = None, ra_ret = None, ra_log = []\<rparr>"

datatype 'r race_action =
    GetterReturns nat "go_err + 'r option"   \<comment> \<open>the call of router \<open>i\<close> returns\<close>
  | GetterDrops nat                          \<comment> \<open>goroutine \<open>i\<close> takes the \<open>ctx.Done()\<close> arm\<close>
  | RequestEnds go_err                       \<comment> \<open>the request's context ends\<close>
  | Receive nat int                          \<comment> \<open>the caller receives from goroutine \<open>i\<close>, at a time\<close>
  | CtxArm                                   \<comment> \<open>the caller takes the \<open>ctx.Done()\<close> arm\<close>
  | LoopEnds                                 \<comment> \<open>the caller has made all its passes\<close>

text \<open>Returning runs the deferred \<open>cancel\<close>.\<close>

definition race_return :: "go_err + 'r option \<Rightarrow> 'r race \<Rightarrow> 'r race" where
  "race_return res s = s\<lparr>ra_ret := Some res, ra_ctx := Some (case ra_ctx s of None \<Rightarrow> ErrCanceled | Some e \<Rightarrow> e)\<rparr>"

definition with_getter :: "nat \<Rightarrow> 'r getter \<Rightarrow> 'r race \<Rightarrow> 'r race" where
  "with_getter i g s = s\<lparr>ra_getters := (ra_getters s)[i := g]\<rparr>"

text \<open>The body of the loop on a received answer.\<close>

definition race_receive :: "'r ipns_lib \<Rightarrow> go_err + 'r option \<Rightarrow> int \<Rightarrow> 'r race \<Rightarrow> 'r race" where
  "race_receive I res now s =
     (let s1 = s\<lparr>ra_left := ra_left s - 1, ra_log := ra_log s @ [Answer res now (ra_ctx s)]\<rparr> in
      case res of
        Inr rec \<Rightarrow> if isExpiredIPNSRecord I now rec then s1 else race_return (Inr rec) s1
      | Inl err \<Rightarrow>
          if err = ErrNotFound \<or> err = ErrNotSupported then s1
          else (case ra_ctx s of
                  Some e \<Rightarrow> race_return (Inl e) s1
                | None \<Rightarrow> s1\<lparr>ra_errs := errors_Join [ra_errs s, Some err]\<rparr>))"

definition race_step :: "'r ipns_lib \<Rightarrow> 'r race \<Rightarrow> 'r race_action \<Rightarrow> 'r race option" where
  "race_step I s a =
     (case a of
        GetterReturns i res \<Rightarrow>
          if i < length (ra_getters s) \<and> ra_getters s ! i = GCalling then Some (with_getter i (GSending res) s) else None
      | GetterDrops i \<Rightarrow>
          if i < length (ra_getters s) \<and> ra_ctx s \<noteq> None then
            (case ra_getters s ! i of GSending res \<Rightarrow> Some (with_getter i GGone s) | _ \<Rightarrow> None)
          else None
      | RequestEnds e \<Rightarrow> Some (if ra_ctx s = None then s\<lparr>ra_ctx := Some e\<rparr> else s)
      | Receive i now \<Rightarrow>
          if ra_ret s = None \<and> ra_left s > 0 \<and> i < length (ra_getters s) then
            (case ra_getters s ! i of
               GSending res \<Rightarrow> Some (race_receive I res now (with_getter i GGone s))
             | _ \<Rightarrow> None)
          else None
      | CtxArm \<Rightarrow>
          (case ra_ctx s of
             Some e \<Rightarrow>
               if ra_ret s = None \<and> ra_left s > 0
               then Some (race_return (Inl e) (s\<lparr>ra_log := ra_log s @ [CtxEnd e]\<rparr>)) else None
           | None \<Rightarrow> None)
      | LoopEnds \<Rightarrow>
          if ra_ret s = None \<and> ra_left s = 0
          then Some (race_return (case ra_errs s of None \<Rightarrow> Inl ErrNotFound | Some e \<Rightarrow> Inl e) s) else None)"

lemma with_getter_fields [simp]:
  "ra_getters (with_getter i g s) = (ra_getters s)[i := g]" "ra_ctx (with_getter i g s) = ra_ctx s"
  "ra_left (with_getter i g s) = ra_left s" "ra_errs (with_getter i g s) = ra_errs s"
  "ra_ret (with_getter i g s) = ra_ret s" "ra_log (with_getter i g s) = ra_log s"
  by (simp_all add: with_getter_def)

lemma race_return_fields [simp]:
  "ra_getters (race_return res s) = ra_getters s" "ra_ctx (race_return res s) = Some (case ra_ctx s of None \<Rightarrow> ErrCanceled | Some e \<Rightarrow> e)"
  "ra_left (race_return res s) = ra_left s" "ra_errs (race_return res s) = ra_errs s"
  "ra_ret (race_return res s) = Some res" "ra_log (race_return res s) = ra_log s"
  by (simp_all add: race_return_def)

lemma race_receive_fields [simp]:
  "ra_getters (race_receive I res now s) = ra_getters s"
  "ra_left (race_receive I res now s) = ra_left s - 1"
  "ra_log (race_receive I res now s) = ra_log s @ [Answer res now (ra_ctx s)]"
  by (auto simp: race_receive_def Let_def split: sum.split option.split)

lemma count_new [simp]: "count_if (\<lambda>g. g \<noteq> GGone) (replicate n GCalling) = n"
  by (induction n) simp_all

lemma race_receive_ctx:
  "ra_ctx s \<noteq> None \<Longrightarrow> ra_ctx (race_receive I res now s) \<noteq> None"
  "ra_ret (race_receive I res now s) = None \<Longrightarrow> ra_ctx (race_receive I res now s) = ra_ctx s"
  "ra_ret s = None \<Longrightarrow> ra_ret (race_receive I res now s) \<noteq> None \<Longrightarrow> ra_ctx (race_receive I res now s) \<noteq> None"
  by (auto simp: race_receive_def Let_def split: sum.splits option.splits if_splits)

subsection \<open>The loop it refines\<close>

text \<open>
  Whatever is received later, the loop run from the start on the events so far and those is the loop
  from here, or has returned what the caller did.
\<close>

definition loop_inv :: "'r ipns_lib \<Rightarrow> nat \<Rightarrow> 'r race \<Rightarrow> bool" where
  "loop_inv I n s \<longleftrightarrow> (\<forall>evs. GetIPNS_loop I n (ra_log s @ evs) None =
     (case ra_ret s of None \<Rightarrow> GetIPNS_loop I (ra_left s) evs (ra_errs s) | Some r \<Rightarrow> Some r))"

lemma loop_receive:
  assumes "loop_inv I n s" "ra_ret s = None" "ra_left s > 0"
  shows "loop_inv I n (race_receive I res now s)"
proof -
  from assms(3) obtain m where m: "ra_left s = Suc m" by (cases "ra_left s") auto
  have "GetIPNS_loop I n ((ra_log s @ [Answer res now (ra_ctx s)]) @ evs) None =
      GetIPNS_loop I (Suc m) (Answer res now (ra_ctx s) # evs) (ra_errs s)" for evs
    using assms(1,2) m by (simp add: loop_inv_def)
  then show ?thesis
    using m assms(2) by (auto simp: loop_inv_def race_receive_def race_return_def Let_def split: sum.split option.split)
qed

lemma loop_inv_frame [simp]: "loop_inv I n (with_getter i g s) = loop_inv I n s" "loop_inv I n (s\<lparr>ra_ctx := c\<rparr>) = loop_inv I n s"
  by (simp_all add: loop_inv_def cong: option.case_cong)

lemma loop_step: "loop_inv I n s \<Longrightarrow> race_step I s a = Some s' \<Longrightarrow> loop_inv I n s'"
proof (cases a)
  case (Receive i now)
  assume inv: "loop_inv I n s" and step: "race_step I s a = Some s'"
  from Receive step obtain res where s': "s' = race_receive I res now (with_getter i GGone s)"
    and *: "ra_ret s = None" "ra_left s > 0"
    by (auto simp: race_step_def split: if_splits getter.splits)
  show ?thesis unfolding s' by (rule loop_receive) (simp_all add: inv *)
next
  case LoopEnds
  assume inv: "loop_inv I n s" and step: "race_step I s a = Some s'"
  then show ?thesis using LoopEnds
    by (auto simp: race_step_def loop_inv_def race_return_def split: if_splits option.splits)
next
  case CtxArm
  assume inv: "loop_inv I n s" and step: "race_step I s a = Some s'"
  from CtxArm step obtain e m where e: "ra_ctx s = Some e" "ra_ret s = None" "ra_left s = Suc m"
    "s' = race_return (Inl e) (s\<lparr>ra_log := ra_log s @ [CtxEnd e]\<rparr>)"
    by (cases "ra_left s") (auto simp: race_step_def split: option.splits if_splits)
  have "GetIPNS_loop I n (ra_log s @ CtxEnd e # evs) None = Some (Inl e)" for evs
    using inv e by (simp add: loop_inv_def)
  then show ?thesis using e(4) by (simp add: loop_inv_def race_return_def)
qed (auto simp: race_step_def split: if_splits getter.splits)

interpretation racing: step_invariant "race_step I" "loop_inv I n" for I :: "'r ipns_lib" and n
  by unfold_locales (rule loop_step)

subsection \<open>Where an answer comes from\<close>

text \<open>
  When a record is past its end of life: it states one, of type EOL, and the clock is beyond it.
\<close>

definition past_eol :: "'r ipns_lib \<Rightarrow> int \<Rightarrow> 'r option \<Rightarrow> bool" where
  "past_eol I t rec \<longleftrightarrow>
     (\<exists>r v. rec = Some r \<and> ip_ValidityType I r = Some (ip_ValidityEOL I) \<and> ip_Validity I r = Some v \<and> v < t)"

lemma isExpired_past_eol: "isExpiredIPNSRecord I t rec = past_eol I t rec"
  by (auto simp: isExpiredIPNSRecord_def past_eol_def split: option.split)

lemma past_eol_later: "past_eol I t rec \<Longrightarrow> t \<le> t' \<Longrightarrow> past_eol I t' rec"
  by (auto simp: past_eol_def)

text \<open>
  \<open>P i res\<close>: router \<open>i\<close> answered \<open>res\<close>. \<open>T i t\<close>: that answer was received at \<open>t\<close>. A record that is
  returned is some router's, and had not expired when it was received from it.
\<close>

definition origin_inv ::
  "(nat \<Rightarrow> go_err + 'r option \<Rightarrow> bool) \<Rightarrow> (nat \<Rightarrow> int \<Rightarrow> bool) \<Rightarrow> 'r ipns_lib \<Rightarrow> nat \<Rightarrow> 'r race \<Rightarrow> bool" where
  "origin_inv P T I n s \<longleftrightarrow> length (ra_getters s) = n \<and>
     (\<forall>i res. i < n \<longrightarrow> ra_getters s ! i = GSending res \<longrightarrow> P i res) \<and>
     (\<forall>rec. ra_ret s = Some (Inr rec) \<longrightarrow> (\<exists>i < n. \<exists>t. P i (Inr rec) \<and> T i t \<and> \<not> past_eol I t rec))"

definition race_ok ::
  "(nat \<Rightarrow> go_err + 'r option \<Rightarrow> bool) \<Rightarrow> (nat \<Rightarrow> int \<Rightarrow> bool) \<Rightarrow> 'r race_action \<Rightarrow> bool" where
  "race_ok P T a = (case a of GetterReturns i res \<Rightarrow> P i res | Receive i t \<Rightarrow> T i t | _ \<Rightarrow> True)"

lemma receive_ret:
  "ra_ret s = None \<Longrightarrow> ra_ret (race_receive I res now s) = Some (Inr rec) \<Longrightarrow> res = Inr rec \<and> \<not> past_eol I now rec"
  by (auto simp: isExpired_past_eol race_receive_def Let_def split: sum.splits option.splits if_splits)

lemma receiveE:
  assumes "race_step I s (Receive i now) = Some s'"
  obtains res where "i < length (ra_getters s)" "ra_getters s ! i = GSending res" "ra_ret s = None" "ra_left s > 0"
    "s' = race_receive I res now (with_getter i GGone s)"
  using assms by (auto simp: race_step_def split: if_splits getter.splits)

lemma origin_step:
  assumes inv: "origin_inv P T I n s" and ok: "race_ok P T a" and step: "race_step I s a = Some s'"
  shows "origin_inv P T I n s'"
proof (cases a)
  case (Receive i now)
  from step[unfolded Receive] obtain res where r: "i < length (ra_getters s)" "ra_getters s ! i = GSending res"
    "ra_ret s = None" and s': "s' = race_receive I res now (with_getter i GGone s)" by (rule receiveE)
  have "P i res" "T i now" "length (ra_getters s) = n" using inv ok Receive r by (auto simp: origin_inv_def race_ok_def)
  moreover have "res = Inr rec \<and> \<not> past_eol I now rec" if "ra_ret s' = Some (Inr rec)" for rec
    using receive_ret[of "with_getter i GGone s" I res now rec] that r(3) s' by simp
  ultimately show ?thesis
    using inv r(1) unfolding origin_inv_def by (auto simp: s' nth_list_update split: if_splits)
next
  case (GetterReturns i res)
  with assms show ?thesis
    by (auto simp: race_step_def origin_inv_def race_ok_def nth_list_update split: if_splits)
next
  case (GetterDrops i)
  with assms show ?thesis
    by (auto simp: race_step_def origin_inv_def nth_list_update split: if_splits getter.splits)
qed (use assms in \<open>auto simp: race_step_def origin_inv_def split: if_splits option.splits\<close>)

lemma origin_run:
  assumes "run_steps (race_step I) (newRace n) as = Some s" "list_all (race_ok P T) as"
  shows "origin_inv P T I n s"
proof (rule run_steps_guarded[where step = "race_step I" and I = "origin_inv P T I n" and ok = "race_ok P T", rotated, OF _ assms(2,1)])
  show "origin_inv P T I n (newRace n)" by (simp add: origin_inv_def newRace_def)
qed (rule origin_step)

subsection \<open>While the request lives\<close>

definition answered :: "(nat \<Rightarrow> go_err + 'r option \<Rightarrow> bool) \<Rightarrow> (nat \<Rightarrow> int \<Rightarrow> bool) \<Rightarrow> 'r race \<Rightarrow> nat \<Rightarrow> bool" where
  "answered P T s i \<longleftrightarrow> (\<exists>res now c. P i res \<and> T i now \<and> Answer res now c \<in> set (ra_log s))"

definition live_inv :: "(nat \<Rightarrow> go_err + 'r option \<Rightarrow> bool) \<Rightarrow> (nat \<Rightarrow> int \<Rightarrow> bool) \<Rightarrow> 'r ipns_lib \<Rightarrow> nat \<Rightarrow> 'r race \<Rightarrow> bool" where
  "live_inv P T I n s \<longleftrightarrow> length (ra_getters s) = n \<and> list_all plain_answer (ra_log s) \<and>
     (\<forall>i res. i < n \<longrightarrow> ra_getters s ! i = GSending res \<longrightarrow> P i res) \<and>
     (ra_ret s = None \<longrightarrow> ra_ctx s = None \<and> ra_left s = count_if (\<lambda>g. g \<noteq> GGone) (ra_getters s) \<and>
        ra_left s + length (ra_log s) = n \<and> (\<forall>i < n. ra_getters s ! i = GGone \<longrightarrow> answered P T s i)) \<and>
     ((\<forall>rec. ra_ret s \<noteq> Some (Inr rec)) \<longrightarrow> \<not> list_ex (usable I) (ra_log s)) \<and>
     (\<forall>e. ra_ret s = Some (Inl e) \<longrightarrow> length (ra_log s) = n \<and> (\<forall>i < n. answered P T s i))"

definition live_ok :: "(nat \<Rightarrow> go_err + 'r option \<Rightarrow> bool) \<Rightarrow> (nat \<Rightarrow> int \<Rightarrow> bool) \<Rightarrow> 'r race_action \<Rightarrow> bool" where
  "live_ok P T a \<longleftrightarrow> race_ok P T a \<and> (\<forall>e. a \<noteq> RequestEnds e)"

lemma answered_frame [simp]:
  "answered P T (with_getter i g s) j = answered P T s j" "answered P T (race_return res s) j = answered P T s j"
  by (simp_all add: answered_def)

lemma answered_receive: "answered P T s j \<or> P j res \<and> T j now \<Longrightarrow> answered P T (race_receive I res now s) j"
  by (auto simp: answered_def)

lemma receive_live:
  assumes "ra_ctx s = None" "ra_ret s = None"
  shows "(\<forall>rec. ra_ret (race_receive I res now s) \<noteq> Some (Inr rec)) \<Longrightarrow>
      ra_ret (race_receive I res now s) = None \<and> \<not> usable I (Answer res now None)"
  using assms by (auto simp: race_receive_def Let_def split: sum.splits if_splits)

lemma live_step:
  assumes inv: "live_inv P T I n s" and ok: "live_ok P T a" and step: "race_step I s a = Some s'"
  shows "live_inv P T I n s'"
proof (cases a)
  case (Receive i now)
  from step[unfolded Receive] obtain res where r: "i < length (ra_getters s)" "ra_getters s ! i = GSending res"
    "ra_ret s = None" "ra_left s > 0" and s': "s' = race_receive I res now (with_getter i GGone s)" by (rule receiveE)
  from inv r have *: "ra_ctx s = None" "P i res" "length (ra_getters s) = n" "\<not> list_ex (usable I) (ra_log s)"
    "ra_left s = count_if (\<lambda>g. g \<noteq> GGone) (ra_getters s)" "ra_left s + length (ra_log s) = n"
    "\<And>j. j < n \<Longrightarrow> ra_getters s ! j = GGone \<Longrightarrow> answered P T s j"
    by (auto simp: live_inv_def)
  have T: "T i now" using ok Receive by (simp add: live_ok_def race_ok_def)
  have count: "count_if (\<lambda>g. g \<noteq> GGone) (ra_getters s') = ra_left s'"
    using count_if_update[OF r(1), of "\<lambda>g. g \<noteq> GGone" GGone] r(2) *(5) by (simp add: s')
  have ans: "answered P T s' j" if "j < n" "ra_getters s' ! j = GGone" for j
    unfolding s' using that r(1) *(2,7) T
    by (intro answered_receive) (cases "j = i", auto simp: s')
  have live: "ra_ret s' = None \<and> \<not> usable I (Answer res now None)" if "\<forall>rec. ra_ret s' \<noteq> Some (Inr rec)"
    using receive_live[of "with_getter i GGone s" I res now] that *(1) r(3) by (simp add: s')
  have "ra_ctx s' = None" if "ra_ret s' = None"
    using race_receive_ctx(2)[of I res now "with_getter i GGone s"] that *(1) by (simp add: s')
  moreover have "ra_left s' + length (ra_log s') = n" using r(4) *(6) by (simp add: s')
  moreover have "P j x" if "j < n" "ra_getters s' ! j = GSending x" for j x
    using inv that r(1) *(3) by (auto simp: live_inv_def s' nth_list_update split: if_splits)
  moreover have "length (ra_getters s') = n" "list_all plain_answer (ra_log s')"
    using inv *(1,3) by (simp_all add: s' live_inv_def plain_answer_def)
  moreover have "\<not> list_ex (usable I) (ra_log s')" if "\<forall>rec. ra_ret s' \<noteq> Some (Inr rec)"
    using live[OF that] *(1,4) by (simp add: s')
  ultimately show ?thesis using count ans live unfolding live_inv_def by auto
next
  case LoopEnds
  with step inv have *: "ra_ret s = None" "ra_left s = 0" "s' = race_return (case ra_errs s of None \<Rightarrow> Inl ErrNotFound | Some e \<Rightarrow> Inl e) s"
    by (auto simp: race_step_def split: if_splits)
  have gone: "ra_getters s ! i = GGone" if "i < n" for i
    using inv * that count_if_pos[of i "ra_getters s" "\<lambda>g. g \<noteq> GGone"] by (auto simp: live_inv_def)
  then show ?thesis using inv * by (auto simp: live_inv_def split: option.splits)
next
  case (GetterReturns i res)
  then have P: "P i res" using ok by (simp add: live_ok_def race_ok_def)
  from GetterReturns step have i: "i < length (ra_getters s)" "ra_getters s ! i = GCalling"
    "s' = with_getter i (GSending res) s" by (auto simp: race_step_def split: if_splits)
  have "count_if (\<lambda>g. g \<noteq> GGone) (ra_getters s') = count_if (\<lambda>g. g \<noteq> GGone) (ra_getters s)"
    using count_if_update[OF i(1), of "\<lambda>g. g \<noteq> GGone" "GSending res"] i by simp
  then show ?thesis using inv P i by (auto simp: live_inv_def nth_list_update split: if_splits)
next
  case (GetterDrops i)
  with step obtain r where d: "i < length (ra_getters s)" "ra_ctx s \<noteq> None" "s' = with_getter i GGone s"
    by (auto simp: race_step_def split: if_splits getter.splits)
  with inv have "ra_ret s \<noteq> None" by (auto simp: live_inv_def)
  with inv d show ?thesis by (auto simp: live_inv_def nth_list_update split: if_splits)
qed (use assms in \<open>auto simp: race_step_def live_ok_def live_inv_def split: if_splits option.splits\<close>)

lemma live_run:
  fixes I :: "'r ipns_lib"
  assumes "run_steps (race_step I) (newRace n) as = Some s" "list_all (live_ok P T) as"
  shows "live_inv P T I n s"
proof (rule run_steps_guarded[where step = "race_step I" and I = "live_inv P T I n" and ok = "live_ok P T", rotated, OF _ assms(2,1)])
  show "live_inv P T I n (newRace n)" by (simp add: live_inv_def newRace_def)
qed (rule live_step)

subsection \<open>Progress\<close>

fun getter_work :: "'r getter \<Rightarrow> nat" where
  "getter_work GCalling = 2" | "getter_work (GSending res) = 1" | "getter_work GGone = 0"

definition race_work :: "'r race \<Rightarrow> nat" where
  "race_work s = sum_list (map getter_work (ra_getters s)) + (if ra_ret s = None then 1 else 0)"

definition own_step :: "'r race_action \<Rightarrow> bool" where
  "own_step a \<longleftrightarrow> (\<forall>e. a \<noteq> RequestEnds e)"

lemma getter_work_set:
  "i < length (ra_getters s) \<Longrightarrow> getter_work g < getter_work (ra_getters s ! i) \<Longrightarrow> race_work (with_getter i g s) < race_work s"
  using sum_list_update_less[of i "ra_getters s" getter_work g] by (simp add: race_work_def)

lemma race_work_receive: "ra_ret s = None \<Longrightarrow> race_work (race_receive I res now s) \<le> race_work s"
  by (simp add: race_work_def)

lemma race_step_work:
  assumes "race_step I s a = Some s'"
  shows "race_work s' + (if own_step a then 1 else 0) \<le> race_work s"
proof (cases a)
  case (Receive i now)
  from assms[unfolded Receive] obtain res where r: "i < length (ra_getters s)" "ra_getters s ! i = GSending res"
    "ra_ret s = None" and s': "s' = race_receive I res now (with_getter i GGone s)" by (rule receiveE)
  have "race_work (with_getter i GGone s) < race_work s" using r by (intro getter_work_set) simp_all
  moreover have "race_work s' \<le> race_work (with_getter i GGone s)" unfolding s' using r(3) by (simp add: race_work_receive)
  ultimately show ?thesis by simp
next
  case (GetterReturns i res)
  with assms show ?thesis
    using getter_work_set[of i s "GSending res"] by (auto simp: race_step_def split: if_splits)
next
  case (GetterDrops i)
  with assms show ?thesis
    using getter_work_set[of i s GGone] by (auto simp: race_step_def split: if_splits getter.splits)
qed (use assms in \<open>auto simp: race_step_def own_step_def race_work_def split: if_splits option.splits\<close>)

lemma race_run_work:
  "run_steps (race_step I) s as = Some s' \<Longrightarrow> race_work s' + length (filter own_step as) \<le> race_work s"
proof (induction as arbitrary: s)
  case (Cons a as)
  then obtain s1 where "race_step I s a = Some s1" "run_steps (race_step I) s1 as = Some s'" by (auto split: option.splits)
  with Cons.IH[of s1] race_step_work[of I s a s1] show ?case by (simp split: if_splits)
qed simp

text \<open>As long as the context lives, every pass left has its goroutine; returning ends the context.\<close>

definition passes_inv :: "'r race \<Rightarrow> bool" where
  "passes_inv s \<longleftrightarrow> (ra_ctx s = None \<longrightarrow> ra_left s = count_if (\<lambda>g. g \<noteq> GGone) (ra_getters s)) \<and>
     (ra_ret s \<noteq> None \<longrightarrow> ra_ctx s \<noteq> None)"

lemma passes_step:
  assumes inv: "passes_inv s" and step: "race_step I s a = Some s'"
  shows "passes_inv s'"
proof (cases a)
  case (Receive i now)
  from step[unfolded Receive] obtain res where r: "i < length (ra_getters s)" "ra_getters s ! i = GSending res"
    "ra_ret s = None" "ra_left s > 0" and s': "s' = race_receive I res now (with_getter i GGone s)" by (rule receiveE)
  have "ra_left s' = count_if (\<lambda>g. g \<noteq> GGone) (ra_getters s')" if "ra_ctx s' = None"
  proof -
    have "ra_ctx s = None"
      using that race_receive_ctx(1)[of "with_getter i GGone s" I res now] s' by (cases "ra_ctx s") simp_all
    then show ?thesis using inv count_if_update[OF r(1), of "\<lambda>g. g \<noteq> GGone" GGone] r(2) by (simp add: s' passes_inv_def)
  qed
  moreover have "ra_ret s' \<noteq> None \<longrightarrow> ra_ctx s' \<noteq> None"
    unfolding s' using race_receive_ctx(3)[of "with_getter i GGone s" I res now] r(3) by (simp only: with_getter_fields) blast
  ultimately show ?thesis by (simp add: passes_inv_def)
next
  case (GetterReturns i res)
  with assms show ?thesis
    using count_if_update[of i "ra_getters s" "\<lambda>g. g \<noteq> GGone" "GSending res"]
    by (auto simp: race_step_def passes_inv_def split: if_splits)
qed (use assms in \<open>auto simp: race_step_def passes_inv_def split: if_splits option.splits getter.splits\<close>)

interpretation passing: step_invariant "race_step I" passes_inv for I :: "'r ipns_lib"
  by unfold_locales (rule passes_step)

lemma passes_run: "run_steps (race_step I) (newRace n) as = Some s \<Longrightarrow> passes_inv s"
  by (erule passing.inv_run[rotated]) (simp add: passes_inv_def newRace_def)

text \<open>Only the answers of the routers, here \<open>f\<close>, and the caller are needed for the call to return.\<close>

definition served_by :: "(nat \<Rightarrow> go_err + 'r option) \<Rightarrow> 'r race_action \<Rightarrow> bool" where
  "served_by f a = (case a of GetterReturns i res \<Rightarrow> res = f i | RequestEnds e \<Rightarrow> False | _ \<Rightarrow> True)"

lemma race_returns:
  assumes "passes_inv s" "ra_ret s = None"
  shows "\<exists>bs s'. list_all (served_by f) bs \<and> run_steps (race_step I) s bs = Some s' \<and> ra_ret s' \<noteq> None"
  using assms
proof (induction "race_work s" arbitrary: s rule: less_induct)
  case less
  have go: ?case if a: "served_by f a" and step: "race_step I s a = Some s1" for a s1
  proof (cases "ra_ret s1 = None")
    case True
    have "own_step a" using a by (auto simp: served_by_def own_step_def)
    then have "race_work s1 < race_work s" using race_step_work[OF step] by simp
    from less.hyps[OF this passes_step[OF less.prems(1) step] True] obtain bs s' where
      "list_all (served_by f) bs" "run_steps (race_step I) s1 bs = Some s'" "ra_ret s' \<noteq> None" by blast
    with a step show ?thesis by (intro exI[of _ "a # bs"]) simp
  next
    case False
    with a step show ?thesis by (intro exI[of _ "[a]"]) simp
  qed
  consider "ra_left s = 0" | e where "ra_left s > 0" "ra_ctx s = Some e" | "ra_left s > 0" "ra_ctx s = None"
    by (cases "ra_ctx s") auto
  then show ?case
  proof cases
    case 1
    then show ?thesis using less.prems(2) by (intro go[of LoopEnds]) (simp_all add: served_by_def race_step_def)
  next
    case 2
    then show ?thesis using less.prems(2) by (intro go[of CtxArm]) (simp_all add: served_by_def race_step_def)
  next
    case 3
    then have "0 < count_if (\<lambda>g. g \<noteq> GGone) (ra_getters s)" using less.prems(1) by (simp add: passes_inv_def)
    then obtain i where i: "i < length (ra_getters s)" "ra_getters s ! i \<noteq> GGone"
      by (auto simp: count_if_def filter_empty_conv in_set_conv_nth)
    show ?thesis
    proof (cases "ra_getters s ! i")
      case GCalling
      with i show ?thesis by (intro go[of "GetterReturns i (f i)"]) (simp_all add: served_by_def race_step_def)
    next
      case (GSending res)
      with i 3 less.prems(2) show ?thesis by (intro go[of "Receive i 0"]) (simp_all add: served_by_def race_step_def)
    qed (use i in simp)
  qed
qed

text \<open>Once the context is done no goroutine needs a receiver.\<close>

definition getter_action :: "(nat \<Rightarrow> go_err + 'r option) \<Rightarrow> 'r race_action \<Rightarrow> bool" where
  "getter_action f a \<longleftrightarrow> (\<exists>i. a = GetterReturns i (f i) \<or> a = GetterDrops i)"

lemma getters_finish:
  assumes "ra_ctx s \<noteq> None"
  shows "\<exists>bs s'. list_all (getter_action f) bs \<and> run_steps (race_step I) s bs = Some s' \<and>
    list_all (\<lambda>g. g = GGone) (ra_getters s')"
  using assms
proof (induction "race_work s" arbitrary: s rule: less_induct)
  case less
  show ?case
  proof (cases "list_all (\<lambda>g. g = GGone) (ra_getters s)")
    case True
    then show ?thesis by (intro exI[of _ "[]"]) simp
  next
    case False
    then obtain i where i: "i < length (ra_getters s)" "ra_getters s ! i \<noteq> GGone" by (auto simp: list_all_length)
    obtain a g where a: "getter_action f a" "race_step I s a = Some (with_getter i g s)"
    proof (cases "ra_getters s ! i")
      case GCalling
      with i that[of "GetterReturns i (f i)" "GSending (f i)"] show ?thesis by (auto simp: getter_action_def race_step_def)
    next
      case (GSending res)
      with i less.prems that[of "GetterDrops i" GGone] show ?thesis by (auto simp: getter_action_def race_step_def)
    qed (use i in simp)
    have "own_step a" using a(1) by (auto simp: getter_action_def own_step_def)
    then have "race_work (with_getter i g s) < race_work s" using race_step_work[OF a(2)] by simp
    moreover have "ra_ctx (with_getter i g s) \<noteq> None" using less.prems by simp
    ultimately obtain bs s' where "list_all (getter_action f) bs" "run_steps (race_step I) (with_getter i g s) bs = Some s'"
      "list_all (\<lambda>g. g = GGone) (ra_getters s')" using less.hyps by blast
    with a show ?thesis by (intro exI[of _ "a # bs"]) simp
  qed
qed

section \<open>PutIPNS\<close>

text \<open>
  A goroutine of \<open>PutIPNS\<close> in its router's call, between storing the result and \<open>wg.Done()\<close>, or finished;
  the results, the counter of the wait group and what the caller returned.
\<close>

datatype putter = PCalling | PStored | PDone

record put_race =
  pu_putters :: "putter list"
  pu_results :: "go_err option list"
  pu_wg :: int
  pu_ret :: "go_err option option"

definition newPuts :: "nat \<Rightarrow> put_race" where
  "newPuts n = \<lparr>pu_putters = replicate n PCalling, pu_results = replicate n None, pu_wg = int n, pu_ret = None\<rparr>"

datatype put_action = PutStores nat "go_err option" | PutDone nat | WaitReturns

definition put_step :: "put_race \<Rightarrow> put_action \<Rightarrow> put_race option" where
  "put_step s a =
     (case a of
        PutStores i err \<Rightarrow>
          if i < length (pu_putters s) \<and> pu_putters s ! i = PCalling
          then Some (s\<lparr>pu_putters := (pu_putters s)[i := PStored], pu_results := (pu_results s)[i := err]\<rparr>) else None
      | PutDone i \<Rightarrow>
          if i < length (pu_putters s) \<and> pu_putters s ! i = PStored
          then Some (s\<lparr>pu_putters := (pu_putters s)[i := PDone], pu_wg := pu_wg s - 1\<rparr>) else None
      | WaitReturns \<Rightarrow>
          if pu_ret s = None \<and> pu_wg s = 0 then Some (s\<lparr>pu_ret := Some (join_all (pu_results s) None)\<rparr>) else None)"

definition puts_inv :: "(nat \<Rightarrow> go_err option) \<Rightarrow> nat \<Rightarrow> put_race \<Rightarrow> bool" where
  "puts_inv f n s \<longleftrightarrow> length (pu_putters s) = n \<and> length (pu_results s) = n \<and>
     pu_wg s = int (count_if (\<lambda>p. p \<noteq> PDone) (pu_putters s)) \<and>
     (\<forall>i < n. pu_putters s ! i \<noteq> PCalling \<longrightarrow> pu_results s ! i = f i) \<and>
     (\<forall>r. pu_ret s = Some r \<longrightarrow> list_all (\<lambda>p. p = PDone) (pu_putters s) \<and> r = join_all (map f [0..<n]) None)"

definition puts_ok :: "(nat \<Rightarrow> go_err option) \<Rightarrow> put_action \<Rightarrow> bool" where
  "puts_ok f a = (case a of PutStores i err \<Rightarrow> err = f i | _ \<Rightarrow> True)"

lemma puts_running:
  assumes "puts_inv f n s" "i < length (pu_putters s)" "pu_putters s ! i \<noteq> PDone"
  shows "pu_ret s = None"
  using assms by (cases "pu_ret s") (auto simp: puts_inv_def list_all_length)

lemma puts_step:
  assumes inv: "puts_inv f n s" and ok: "puts_ok f a" and step: "put_step s a = Some s'"
  shows "puts_inv f n s'"
proof (cases a)
  case (PutStores i err)
  with step have i: "i < length (pu_putters s)" "pu_putters s ! i = PCalling"
    "s' = s\<lparr>pu_putters := (pu_putters s)[i := PStored], pu_results := (pu_results s)[i := err]\<rparr>"
    by (auto simp: put_step_def split: if_splits)
  have "pu_ret s = None" using puts_running[OF inv i(1)] i(2) by simp
  with inv ok PutStores i count_if_update[OF i(1), of "\<lambda>p. p \<noteq> PDone" PStored] show ?thesis
    by (auto simp: puts_inv_def puts_ok_def nth_list_update)
next
  case (PutDone i)
  with step have i: "i < length (pu_putters s)" "pu_putters s ! i = PStored"
    "s' = s\<lparr>pu_putters := (pu_putters s)[i := PDone], pu_wg := pu_wg s - 1\<rparr>"
    by (auto simp: put_step_def split: if_splits)
  have "pu_ret s = None" using puts_running[OF inv i(1)] i(2) by simp
  with inv i count_if_update[OF i(1), of "\<lambda>p. p \<noteq> PDone" PDone] show ?thesis
    by (auto simp: puts_inv_def nth_list_update)
next
  case WaitReturns
  with step have s': "pu_wg s = 0" "s' = s\<lparr>pu_ret := Some (join_all (pu_results s) None)\<rparr>"
    by (auto simp: put_step_def split: if_splits)
  have fin: "pu_putters s ! i = PDone" if "i < n" for i
    using inv s'(1) that count_if_pos[of i "pu_putters s" "\<lambda>p. p \<noteq> PDone"] by (auto simp: puts_inv_def)
  have "pu_results s = map f [0..<n]"
    using inv fin by (intro nth_equalityI) (auto simp: puts_inv_def)
  with inv fin s' show ?thesis by (auto simp: puts_inv_def list_all_length)
qed

lemma puts_run:
  assumes "run_steps put_step (newPuts n) as = Some s" "list_all (puts_ok f) as"
  shows "puts_inv f n s"
proof (rule run_steps_guarded[where step = put_step and I = "puts_inv f n" and ok = "puts_ok f", rotated, OF _ assms(2,1)])
  have "count_if (\<lambda>p. p \<noteq> PDone) (replicate n PCalling) = n" by (induction n) simp_all
  then show "puts_inv f n (newPuts n)" by (simp add: puts_inv_def newPuts_def)
qed (rule puts_step)

section \<open>Properties\<close>

text \<open>
  C11. The goroutines of \<open>GetIPNS\<close>, in every interleaving, do what the loop says of the answers in the order
  they were received. A record it returns is the answer of one of the routers, and at the time it was
  received from that router its end of life had not passed; an error means that the request ended, or that
  every router answered and was heard, none with a record that was then still valid.
\<close>

theorem ipns_goroutines:
  assumes "2 \<le> n" and "run_steps (race_step I) (newRace n) as = Some s" and "ra_ret s = Some res"
  shows "parallel_GetIPNS I n (ra_log s) = Some res \<and>
    (case res of
       Inr rec \<Rightarrow> (\<exists>i < n. \<exists>t. GetterReturns i (Inr rec) \<in> set as \<and> Receive i t \<in> set as \<and> \<not> past_eol I t rec)
     | Inl e \<Rightarrow> (\<exists>e'. RequestEnds e' \<in> set as) \<or>
         (\<forall>i < n. \<exists>r t. GetterReturns i r \<in> set as \<and> Receive i t \<in> set as \<and>
            (\<forall>rec. r = Inr rec \<longrightarrow> past_eol I t rec)))"
proof
  have "loop_inv I n (newRace n)" by (simp add: loop_inv_def newRace_def)
  from racing.inv_run[OF this assms(2)] have "GetIPNS_loop I n (ra_log s @ []) None = Some res"
    using assms(3) unfolding loop_inv_def by (metis option.simps(5))
  then show "parallel_GetIPNS I n (ra_log s) = Some res" using assms(1) by (simp add: parallel_GetIPNS_def)
  define P T where "P = (\<lambda>i r. GetterReturns i r \<in> set as)" and "T = (\<lambda>i t. Receive i t \<in> set as)"
  have ok: "list_all (race_ok P T) as" by (auto simp: list_all_iff race_ok_def P_def T_def split: race_action.split)
  show "case res of
       Inr rec \<Rightarrow> (\<exists>i < n. \<exists>t. GetterReturns i (Inr rec) \<in> set as \<and> Receive i t \<in> set as \<and> \<not> past_eol I t rec)
     | Inl e \<Rightarrow> (\<exists>e'. RequestEnds e' \<in> set as) \<or>
         (\<forall>i < n. \<exists>r t. GetterReturns i r \<in> set as \<and> Receive i t \<in> set as \<and>
            (\<forall>rec. r = Inr rec \<longrightarrow> past_eol I t rec))"
  proof (cases res)
    case (Inr rec)
    with origin_run[OF assms(2) ok] assms(3) show ?thesis by (simp add: origin_inv_def P_def T_def)
  next
    case (Inl e)
    have "\<exists>r t. P i r \<and> T i t \<and> (\<forall>rec. r = Inr rec \<longrightarrow> past_eol I t rec)"
      if "\<nexists>e'. RequestEnds e' \<in> set as" "i < n" for i
    proof -
      have "list_all (live_ok P T) as" using that(1) ok by (auto simp: list_all_iff live_ok_def)
      from live_run[OF assms(2) this] assms(3) Inl that(2)
      have "answered P T s i" "\<not> list_ex (usable I) (ra_log s)" by (auto simp: live_inv_def)
      then show ?thesis by (fastforce simp: answered_def list_ex_iff isExpired_past_eol)
    qed
    then show ?thesis unfolding Inl sum.case P_def T_def by blast
  qed
qed

definition sample_race :: "int race_action list" where
  "sample_race = [GetterReturns 1 (Inr (Some 5)), Receive 1 9, GetterReturns 0 (Inr (Some 20)), Receive 0 10]"

lemma sample_race_run:
  "\<exists>s. run_steps (race_step sample_ipns) (newRace 2) sample_race = Some s \<and> ra_ret s = Some (Inr (Some 20))"
  by (simp add: sample_race_def newRace_def race_step_def race_receive_def race_return_def with_getter_def
      isExpiredIPNSRecord_def sample_ipns_def numeral_2_eq_2)

lemma ipns_goroutines_witness:
  "\<exists>s. run_steps (race_step sample_ipns) (newRace 2) sample_race = Some s \<and>
     parallel_GetIPNS sample_ipns 2 (ra_log s) = Some (Inr (Some 20))"
proof -
  obtain s where s: "run_steps (race_step sample_ipns) (newRace 2) sample_race = Some s" "ra_ret s = Some (Inr (Some 20))"
    using sample_race_run by blast
  from ipns_goroutines[OF order_refl s] s(1) show ?thesis by blast
qed

text \<open>
  C29. \<open>GetIPNS\<close> ends and leaks nothing. In every run over \<open>n\<close> routers the goroutines and the caller make at
  most \<open>2 n + 1\<close> steps. Whatever the routers answer, once their calls return so does \<open>GetIPNS\<close>, even while
  the request lives; and when it has returned, every goroutine ends with nobody receiving.
\<close>

theorem ipns_race_returns:
  fixes I :: "'r ipns_lib"
  assumes "run_steps (race_step I) (newRace n) as = Some s"
  shows "length (filter (\<lambda>a. \<forall>e. a \<noteq> RequestEnds e) as) \<le> 2 * n + 1 \<and>
    (ra_ret s = None \<longrightarrow> (\<exists>bs s'. list_all (served_by f) bs \<and> run_steps (race_step I) s bs = Some s' \<and> ra_ret s' \<noteq> None)) \<and>
    (ra_ret s \<noteq> None \<longrightarrow> (\<exists>bs s'. list_all (getter_action f) bs \<and> run_steps (race_step I) s bs = Some s' \<and>
       list_all (\<lambda>g. g = GGone) (ra_getters s')))"
proof -
  have "race_work (newRace n :: 'r race) = 2 * n + 1" by (simp add: race_work_def newRace_def sum_list_replicate)
  with race_run_work[OF assms] have "length (filter own_step as) \<le> 2 * n + 1" by simp
  then have "length (filter (\<lambda>a. \<forall>e. a \<noteq> RequestEnds e) as) \<le> 2 * n + 1" by (simp add: own_step_def[abs_def])
  moreover have inv: "passes_inv s" by (rule passes_run[OF assms])
  moreover have "ra_ret s \<noteq> None \<Longrightarrow> ra_ctx s \<noteq> None" using inv by (simp add: passes_inv_def)
  ultimately show ?thesis using race_returns[OF inv] getters_finish[of s] by blast
qed

lemma ipns_race_returns_witness: "length (filter (\<lambda>a. \<forall>e. a \<noteq> RequestEnds e) sample_race) \<le> 5"
proof -
  obtain s where "run_steps (race_step sample_ipns) (newRace 2) sample_race = Some s" using sample_race_run by blast
  from ipns_race_returns[OF this] show ?thesis by simp
qed

text \<open>
  \<open>PutIPNS\<close> reaches every router and loses no failure, whatever the order: it returns only when every
  router has, and what it returns is fixed by their outcomes \<open>f\<close> alone, joined in the order of the routers.
\<close>

theorem puts_in_every_order:
  assumes "2 \<le> n" and "run_steps put_step (newPuts n) as = Some s"
    and "list_all (\<lambda>a. case a of PutStores i err \<Rightarrow> err = f i | _ \<Rightarrow> True) as" and "pu_ret s = Some r"
  shows "r = parallel_PutIPNS (map f [0..<n]) \<and> list_all (\<lambda>p. p = PDone) (pu_putters s) \<and> pu_results s = map f [0..<n]"
proof -
  have "list_all (puts_ok f) as" using assms(3) by (simp add: list_all_iff puts_ok_def)
  from puts_run[OF assms(2) this] have inv: "puts_inv f n s" .
  have ret: "list_all (\<lambda>p. p = PDone) (pu_putters s)" "r = join_all (map f [0..<n]) None"
    using inv assms(4) by (auto simp: puts_inv_def)
  moreover have "pu_results s = map f [0..<n]"
    using inv ret(1) by (intro nth_equalityI) (auto simp: puts_inv_def list_all_length)
  moreover from assms(1) obtain x y zs where "map f [0..<n] = x # y # zs"
    by (cases "map f [0..<n]" rule: remdups_adj.cases) (auto dest: arg_cong[where f = length])
  ultimately show ?thesis by (simp add: parallel_PutIPNS_def del: join_all.simps)
qed

definition sample_puts :: "put_action list" where
  "sample_puts = [PutStores 1 (Some ErrCanceled), PutStores 0 None, PutDone 0, PutDone 1, WaitReturns]"

lemma puts_in_every_order_witness:
  "\<exists>s. run_steps put_step (newPuts 2) sample_puts = Some s \<and>
     pu_ret s = Some (parallel_PutIPNS [None, Some ErrCanceled])"
proof -
  let ?f = "\<lambda>i. if i = 0 then None else Some ErrCanceled"
  obtain s r where s: "run_steps put_step (newPuts 2) sample_puts = Some s" "pu_ret s = Some r"
    by (auto simp: sample_puts_def newPuts_def put_step_def numeral_2_eq_2)
  have "list_all (\<lambda>a. case a of PutStores i err \<Rightarrow> err = ?f i | _ \<Rightarrow> True) sample_puts" by (simp add: sample_puts_def)
  from puts_in_every_order[OF order_refl s(1) this s(2)] s show ?thesis by (simp add: upt_rec numeral_2_eq_2)
qed

end
