(* ===== verification/ServeIpns.thy ===== *)
theory ServeIpns
  imports IpnsRace Server
begin

text \<open>
  Composition for IPNS: what a client of the running server can be given for \<open>GetIPNS\<close>, and what becomes
  of a record it publishes. Only \<open>parallelRouter\<close> and \<open>composableRouter\<close> have IPNS methods of their own
  (server_routers.go); the caching, sanitising and resolving routers inherit those of the router they
  embed, and \<open>clientRouter\<close> those of the HTTP client.
\<close>

section \<open>GetIPNS\<close>

text \<open>
  The \<open>ipns\<close> package and what the delegated routers may answer; the DHT may hold any raw.
  \<open>serves_ipns W t0 r res\<close>: a request that arrived at \<open>t0\<close> can be answered with \<open>res\<close>; the answers it
  waits for are received at \<open>t0\<close> or later.
\<close>

record ('r, 'cl) ipns_world =
  iw_lib :: "'r ipns_lib"
  iw_get :: "'cl \<Rightarrow> go_err + 'r option \<Rightarrow> bool"

inductive serves_ipns :: "('r, 'cl) ipns_world \<Rightarrow> int \<Rightarrow> ('cl, 'ma) router \<Rightarrow> go_err + 'r option \<Rightarrow> bool"
  for W :: "('r, 'cl) ipns_world" and t0 :: int where
  libp2p: "serves_ipns W t0 Libp2pRouter (libp2p_GetIPNS (iw_lib W) raw)"
| client: "iw_get W c res \<Longrightarrow> serves_ipns W t0 (ClientRouter c) res"
| cached: "serves_ipns W t0 r res \<Longrightarrow> serves_ipns W t0 (CachedRouter r) res"
| sanitize: "serves_ipns W t0 r res \<Longrightarrow> serves_ipns W t0 (SanitizeRouter r) res"
| dnsaddr: "serves_ipns W t0 r res \<Longrightarrow> serves_ipns W t0 (DnsAddrRouter m r) res"
| parallel_none: "parallel_GetIPNS (iw_lib W) 0 [] = Some res \<Longrightarrow> serves_ipns W t0 (ParallelRouter []) res"
| parallel_one:
    "serves_ipns W t0 r answer \<Longrightarrow> t0 \<le> now \<Longrightarrow> parallel_GetIPNS (iw_lib W) 1 [Answer answer now c] = Some res \<Longrightarrow>
     serves_ipns W t0 (ParallelRouter [r]) res"
| parallel_race:
    "2 \<le> length rs \<Longrightarrow> run_steps (race_step (iw_lib W)) (newRace (length rs)) as = Some s \<Longrightarrow> ra_ret s = Some res \<Longrightarrow>
     (\<And>i t. Receive i t \<in> set as \<Longrightarrow> t0 \<le> t) \<Longrightarrow>
     (\<And>i answer. GetterReturns i answer \<in> set as \<Longrightarrow> i < length rs \<Longrightarrow> serves_ipns W t0 (rs ! i) answer) \<Longrightarrow>
     serves_ipns W t0 (ParallelRouter rs) res"
| composable_none: "serves_ipns W t0 (ComposableRouter p q None d) (composable_GetIPNS None)"
| composable: "serves_ipns W t0 r res \<Longrightarrow> serves_ipns W t0 (ComposableRouter p q (Some r) d) (composable_GetIPNS (Some res))"

inductive_cases serves_ipns_libp2pE: "serves_ipns W t0 Libp2pRouter res"
inductive_cases serves_ipns_clientE: "serves_ipns W t0 (ClientRouter c) res"
inductive_cases serves_ipns_blockE: "serves_ipns W t0 (BlockRouter h) res"
inductive_cases serves_ipns_composableE: "serves_ipns W t0 (ComposableRouter p q i d) res"

text \<open>Whether a request passes a \<open>parallelRouter\<close>, the one router that looks at the validity of a record.\<close>

fun aggregated :: "('cl, 'ma) router \<Rightarrow> bool" where
  "aggregated (CachedRouter r) = aggregated r"
| "aggregated (SanitizeRouter r) = aggregated r"
| "aggregated (DnsAddrRouter m r) = aggregated r"
| "aggregated (ParallelRouter rs) = True"
| "aggregated (ComposableRouter p q i d) = (case i of None \<Rightarrow> False | Some r \<Rightarrow> aggregated r)"
| "aggregated r = False"

lemma snd_under [simp]: "snd ` set (under ws bs) = snd ` set bs"
  by (force simp: under_def)

lemma ipns_record_origin:
  assumes "serves_ipns W t0 r res" "res = Inr rec"
  shows "(\<exists>b \<in> snd ` set (backends IPNS r). serves_ipns W t0 b (Inr rec)) \<and>
    (aggregated r \<longrightarrow> \<not> past_eol (iw_lib W) t0 rec)"
  using assms
proof (induction arbitrary: rec)
  case (libp2p raw)
  then show ?case using serves_ipns.libp2p[of W t0 raw] by auto
next
  case (client c res)
  then show ?case using serves_ipns.client[of W c res t0] by auto
next
  case (parallel_one r answer now c res)
  then have a: "answer = Inr rec" "\<not> past_eol (iw_lib W) now rec"
    by (auto simp: isExpired_past_eol parallel_GetIPNS_def split: sum.splits if_splits)
  with parallel_one.hyps(2) past_eol_later[of "iw_lib W" t0 rec now] parallel_one.IH show ?case by auto
next
  case (parallel_race rs as s res)
  let ?P = "\<lambda>i r. GetterReturns i r \<in> set as" and ?T = "\<lambda>i t. Receive i t \<in> set as"
  have "list_all (race_ok ?P ?T) as" by (auto simp: list_all_iff race_ok_def split: race_action.split)
  from origin_run[OF parallel_race.hyps(2) this] parallel_race.hyps(3) parallel_race.prems obtain i t where
    i: "i < length rs" "GetterReturns i (Inr rec) \<in> set as" "Receive i t \<in> set as" "\<not> past_eol (iw_lib W) t rec"
    by (auto simp: origin_inv_def)
  have fresh: "\<not> past_eol (iw_lib W) t0 rec"
    using past_eol_later[OF _ parallel_race.hyps(4)[OF i(3)]] i(4) by blast
  from parallel_race.IH[OF i(2,1) refl] obtain b where "b \<in> snd ` set (backends IPNS (rs ! i))" "serves_ipns W t0 b (Inr rec)" by blast
  then have "\<exists>b \<in> snd ` set (backends IPNS (ParallelRouter rs)). serves_ipns W t0 b (Inr rec)"
    using nth_mem[OF i(1)] by auto
  with fresh show ?case by blast
next
  case (composable r res p q d)
  then have "res = Inr rec" by (simp add: composable_GetIPNS_def)
  from composable.IH[OF this] show ?case by simp
qed (auto simp: parallel_GetIPNS_def composable_GetIPNS_def)

text \<open>The IPNS endpoint of a started server.\<close>

lemma aggregated_combine:
  assumes "cs \<noteq> []"
  shows "aggregated (combineRouters dht book (map ClientRouter cs) [] d m)"
  using assms by (simp add: combineRouters_def withDNSAddrResolution_def Let_def)

lemma combine_empty: "combineRouters False False [] [] d m = ComposableRouter None None None None"
  by (simp add: combineRouters_def)

section \<open>PutIPNS\<close>

text \<open>
  \<open>put\<close> is the DHT's \<open>PutValue\<close> and \<open>cput\<close> what each delegated router says to the record. Only routers
  with IPNS methods stand on this path; a block router has none.
\<close>

fun publish ::
  "'r ipns_lib \<Rightarrow> (string \<Rightarrow> go_err option) \<Rightarrow> ('cl \<Rightarrow> 'r \<Rightarrow> go_err option) \<Rightarrow> 'r \<Rightarrow> ('cl, 'ma) router \<Rightarrow> go_err option" where
  "publish I put cput rec Libp2pRouter = libp2p_PutIPNS I put rec"
| "publish I put cput rec (ClientRouter c) = cput c rec"
| "publish I put cput rec (CachedRouter r) = publish I put cput rec r"
| "publish I put cput rec (SanitizeRouter r) = publish I put cput rec r"
| "publish I put cput rec (DnsAddrRouter m r) = publish I put cput rec r"
| "publish I put cput rec (ParallelRouter rs) = parallel_PutIPNS (map (publish I put cput rec) rs)"
| "publish I put cput rec (ComposableRouter p q i d) = composable_PutIPNS (map_option (publish I put cput rec) i)"
| "publish I put cput rec (BlockRouter h) = None"

lemma parallel_PutIPNS_leaves:
  "parallel_PutIPNS results = None \<longleftrightarrow> (\<forall>r \<in> set results. r = None)"
  "leaves_opt (parallel_PutIPNS results) = concat (map leaves_opt results)"
proof -
  have j: "join_all results None = None \<longleftrightarrow> (\<forall>r \<in> set results. r = None)"
    "leaves_opt (join_all results None) = concat (map leaves_opt results)"
    using join_all_eq(2)[of results None] join_all_eq(1)[of results None] by simp_all
  consider "parallel_PutIPNS results = join_all results None" | r where "results = [r]" "parallel_PutIPNS results = r"
    by (cases results rule: remdups_adj.cases) (simp_all add: parallel_PutIPNS_def)
  then show "parallel_PutIPNS results = None \<longleftrightarrow> (\<forall>r \<in> set results. r = None)"
    "leaves_opt (parallel_PutIPNS results) = concat (map leaves_opt results)"
    using j by (cases; simp)+
qed

lemma concat_map_concat: "concat (map f (concat xss)) = concat (map (\<lambda>xs. concat (map f xs)) xss)"
  by (induction xss) simp_all

lemma publish_backends:
  "(publish I put cput rec r = None \<longleftrightarrow> (\<forall>b \<in> snd ` set (backends IPNS r). publish I put cput rec b = None)) \<and>
   leaves_opt (publish I put cput rec r) = concat (map (\<lambda>b. leaves_opt (publish I put cput rec (snd b))) (backends IPNS r))"
proof (induction I put cput rec r rule: publish.induct)
  case (6 I put cput rec rs)
  have "map (leaves_opt \<circ> publish I put cput rec) rs =
      map (\<lambda>r. concat (map (\<lambda>b. leaves_opt (publish I put cput rec (snd b))) (backends IPNS r))) rs"
    using 6 by (intro map_cong) simp_all
  then have "leaves_opt (publish I put cput rec (ParallelRouter rs)) =
      concat (map (\<lambda>b. leaves_opt (publish I put cput rec (snd b))) (backends IPNS (ParallelRouter rs)))"
    by (simp add: parallel_PutIPNS_leaves(2) concat_map_concat comp_def cong: map_cong)
  moreover have "publish I put cput rec (ParallelRouter rs) = None \<longleftrightarrow>
      (\<forall>b \<in> snd ` set (backends IPNS (ParallelRouter rs)). publish I put cput rec b = None)"
    using 6 by (auto simp: parallel_PutIPNS_leaves(1))
  ultimately show ?case by blast
next
  case (7 I put cput rec p q i d)
  then show ?case by (cases i) (simp_all add: composable_PutIPNS_def leaves_opt_def)
qed (auto simp: under_def comp_def case_prod_beta)

section \<open>The started server\<close>

lemma served_tree:
  assumes "start S cfg0 = Inr sv"
  obtains cfg ps qs vs p q d book where
    "expandDelegatedRoutingEndpoints (se_autoconf S) cfg0 = Inr cfg"
    "createDelegatedHTTPRouters (se_newClient S) (se_register S) (se_map_order S) cfg = Inr (ps, qs, vs)"
    "sv_router sv = ComposableRouter p q (Some (combineRouters (dhtType cfg \<noteq> ''disabled'') book (map ClientRouter vs) []
       (dnsAddrResolution cfg \<noteq> DNSAddrResolutionNever) (dnsAddrResolution cfg))) d"
    "book \<longrightarrow> dhtType cfg \<noteq> ''disabled''"
proof (rule start_success[OF assms])
  fix cfg dht and book :: "('a, 'b) cachedAddrBook option" and blocks ps qs vs
  assume ex: "expandDelegatedRoutingEndpoints (se_autoconf S) cfg0 = Inr cfg" and dht: "start_dht S (dhtType cfg) = Inr dht"
    and book: "start_book S cfg dht = Inr book"
    and cl: "createDelegatedHTTPRouters (se_newClient S) (se_register S) (se_map_order S) cfg = Inr (ps, qs, vs)"
    and sv: "sv_router sv = (let d = (dnsAddrResolution cfg \<noteq> DNSAddrResolutionNever); m = dnsAddrResolution cfg; b = (book \<noteq> None)
       in ComposableRouter (Some (combineRouters dht b (map ClientRouter ps) blocks d m))
            (Some (combineRouters dht b (map ClientRouter qs) [] d m)) (Some (combineRouters dht b (map ClientRouter vs) [] d m))
            (closest_router dht b d m))"
  have "dht = (dhtType cfg \<noteq> ''disabled'')" "(book \<noteq> None) \<longrightarrow> dht"
    using start_dht_eq[OF dht] start_book_eq[OF book] by auto
  with that[OF ex cl, of _ _ "book \<noteq> None"] sv show thesis by (simp add: Let_def)
qed

lemma ipns_backends:
  "book \<longrightarrow> dht \<Longrightarrow> map snd (backends IPNS (combineRouters dht book (map ClientRouter vs) [] d m)) =
     map ClientRouter vs @ (if dht then [Libp2pRouter] else [])"
  unfolding backends_combine clients_backends
  by (simp add: under_def comp_def case_prod_beta dht_backend_def)

text \<open>
  C14. Where a served IPNS record comes from. What \<open>GetIPNS\<close> of a started server returns is the answer of
  one of the delegated routers configured for IPNS, or the DHT's value where a DHT client runs. As soon
  as one delegated router is configured, a record whose end of life had passed when the request arrived is
  never served; with the DHT alone the validity is not looked at again. With neither the answer is always
  not found.
\<close>

theorem served_ipns_records:
  fixes S :: "('ab, 'c, 'ma, 'env, 'cl) start_env"
  assumes "start S cfg0 = Inr sv" and "serves_ipns W t0 (sv_router sv) res"
  shows "\<exists>cfg ps qs vs.
    expandDelegatedRoutingEndpoints (se_autoconf S) cfg0 = Inr cfg \<and>
    createDelegatedHTTPRouters (se_newClient S) (se_register S) (se_map_order S) cfg = Inr (ps, qs, vs) \<and>
    (case res of
       Inr rec \<Rightarrow>
         ((\<exists>c \<in> set vs. iw_get W c (Inr rec)) \<or> dhtType cfg \<noteq> ''disabled'' \<and> (\<exists>raw. Inr rec = libp2p_GetIPNS (iw_lib W) raw)) \<and>
         (vs \<noteq> [] \<longrightarrow> \<not> past_eol (iw_lib W) t0 rec)
     | Inl e \<Rightarrow> vs = [] \<and> dhtType cfg = ''disabled'' \<longrightarrow> e = ErrNotFound)"
proof -
  obtain cfg ps qs vs p q d book where
    cfg: "expandDelegatedRoutingEndpoints (se_autoconf S) cfg0 = Inr cfg"
      "createDelegatedHTTPRouters (se_newClient S) (se_register S) (se_map_order S) cfg = Inr (ps, qs, vs)" and
    sv: "sv_router sv = ComposableRouter p q (Some (combineRouters (dhtType cfg \<noteq> ''disabled'') book (map ClientRouter vs) []
       (dnsAddrResolution cfg \<noteq> DNSAddrResolutionNever) (dnsAddrResolution cfg))) d" and
    book: "book \<longrightarrow> dhtType cfg \<noteq> ''disabled''" by (rule served_tree[OF assms(1)])
  let ?t = "combineRouters (dhtType cfg \<noteq> ''disabled'') book (map ClientRouter vs) []
    (dnsAddrResolution cfg \<noteq> DNSAddrResolutionNever) (dnsAddrResolution cfg) :: ('cl, 'ma) router"
  have t: "serves_ipns W t0 ?t res"
    using assms(2) unfolding sv by (elim serves_ipns_composableE) (auto simp: composable_GetIPNS_def)
  have "case res of
       Inr rec \<Rightarrow>
         ((\<exists>c \<in> set vs. iw_get W c (Inr rec)) \<or> dhtType cfg \<noteq> ''disabled'' \<and> (\<exists>raw. Inr rec = libp2p_GetIPNS (iw_lib W) raw)) \<and>
         (vs \<noteq> [] \<longrightarrow> \<not> past_eol (iw_lib W) t0 rec)
     | Inl e \<Rightarrow> vs = [] \<and> dhtType cfg = ''disabled'' \<longrightarrow> e = ErrNotFound"
  proof (cases res)
    case (Inr rec)
    from ipns_record_origin[OF t Inr] obtain b where b: "b \<in> set (map snd (backends IPNS ?t))" "serves_ipns W t0 b (Inr rec)"
      and fresh: "aggregated ?t \<longrightarrow> \<not> past_eol (iw_lib W) t0 rec" by auto
    from b(1) have "b \<in> ClientRouter ` set vs \<or> dhtType cfg \<noteq> ''disabled'' \<and> b = Libp2pRouter"
      unfolding ipns_backends[OF book] by (auto split: if_splits)
    with b(2) have "(\<exists>c \<in> set vs. iw_get W c (Inr rec)) \<or>
        dhtType cfg \<noteq> ''disabled'' \<and> (\<exists>raw. Inr rec = libp2p_GetIPNS (iw_lib W) raw)"
      by (auto elim: serves_ipns_clientE serves_ipns_libp2pE)
    moreover have "vs \<noteq> [] \<Longrightarrow> aggregated ?t" by (rule aggregated_combine)
    ultimately show ?thesis using fresh unfolding Inr sum.case by blast
  next
    case (Inl e)
    have "e = ErrNotFound" if "vs = []" "dhtType cfg = ''disabled''"
    proof -
      from that book t have "serves_ipns W t0 (ComposableRouter None None None None :: ('cl, 'ma) router) res"
        by (simp add: combine_empty)
      with Inl show ?thesis by (elim serves_ipns_composableE) (simp_all add: composable_GetIPNS_def)
    qed
    with Inl show ?thesis by simp
  qed
  with cfg show ?thesis by blast
qed

definition sample_ipns_world :: "(int, string) ipns_world" where
  "sample_ipns_world = \<lparr>iw_lib = sample_ipns, iw_get = (\<lambda>c res. res = Inr (Some 7))\<rparr>"

lemma served_ipns_records_witness:
  "\<not> past_eol sample_ipns 2 (Some 7)"
proof -
  obtain cfg ps qs vs p q d book where
    cfg: "expandDelegatedRoutingEndpoints (se_autoconf sample_start_env) sample_server_config = Inr cfg"
      "createDelegatedHTTPRouters (se_newClient sample_start_env) (se_register sample_start_env) (se_map_order sample_start_env) cfg
        = Inr (ps, qs, vs)" and
    sv: "sv_router sample_server = ComposableRouter p q (Some (combineRouters (dhtType cfg \<noteq> ''disabled'') book (map ClientRouter vs) []
       (dnsAddrResolution cfg \<noteq> DNSAddrResolutionNever) (dnsAddrResolution cfg))) d"
    by (rule served_tree[OF sample_server])
  from cfg(1) have c: "cfg = sample_server_config\<lparr>contentEndpoints := [''a'']\<rparr>"
    using sample_expand by (simp add: sample_start_env_def)
  with cfg(2) sample_clients have vs: "vs = [''b'']" by simp
  let ?W = "sample_ipns_world"
  define t where "t = (if book then SanitizeRouter (CachedRouter Libp2pRouter) else SanitizeRouter Libp2pRouter :: (string, comps) router)"
  have tree: "sv_router sample_server = ComposableRouter p q (Some (DnsAddrRouter ''append'' (ParallelRouter [ClientRouter ''b'', t]))) d"
    unfolding sv vs c t_def
    by (simp add: combineRouters_def withDNSAddrResolution_def DNSAddrResolutionNever_def sample_server_config_def Let_def)
  have "run_steps (race_step sample_ipns) (newRace 2) [GetterReturns 0 (Inr (Some 7)), Receive 0 3] =
      Some \<lparr>ra_getters = [GGone, GCalling], ra_ctx = Some ErrCanceled, ra_left = 1, ra_errs = None,
        ra_ret = Some (Inr (Some 7)), ra_log = [Answer (Inr (Some 7)) 3 None]\<rparr>"
    by (simp add: newRace_def race_step_def race_receive_def race_return_def with_getter_def
        isExpiredIPNSRecord_def sample_ipns_def numeral_2_eq_2)
  then have "serves_ipns ?W 2 (ParallelRouter [ClientRouter ''b'', t]) (Inr (Some 7))"
    by (intro serves_ipns.parallel_race[where as = "[GetterReturns 0 (Inr (Some 7)), Receive 0 3]"])
      (auto simp: sample_ipns_world_def numeral_2_eq_2 intro: serves_ipns.client)
  then have "serves_ipns ?W 2 (sv_router sample_server) (composable_GetIPNS (Some (Inr (Some 7))))"
    unfolding tree by (intro serves_ipns.composable serves_ipns.dnsaddr)
  then have "serves_ipns ?W 2 (sv_router sample_server) (Inr (Some 7))" by (simp add: composable_GetIPNS_def)
  from served_ipns_records[OF sample_server this] sample_expand sample_clients show ?thesis
    by (auto simp: sample_start_env_def sample_ipns_world_def)
qed

text \<open>
  C30. Publishing. \<open>PutIPNS\<close> on a started server hands the record to every delegated router configured for
  IPNS and to the DHT where a client runs. It succeeds exactly when all of them do, and otherwise its
  error is made of all their failures, in that order. With none of them it succeeds, and the record is
  stored nowhere.
\<close>

theorem served_PutIPNS:
  fixes S :: "('ab, 'c, 'ma, 'env, 'cl) start_env"
  assumes "start S cfg0 = Inr sv"
  shows "\<exists>cfg ps qs vs.
    expandDelegatedRoutingEndpoints (se_autoconf S) cfg0 = Inr cfg \<and>
    createDelegatedHTTPRouters (se_newClient S) (se_register S) (se_map_order S) cfg = Inr (ps, qs, vs) \<and>
    (let outcomes = map (\<lambda>c. cput c rec) vs @ (if dhtType cfg \<noteq> ''disabled'' then [libp2p_PutIPNS I put rec] else [])
     in (publish I put cput rec (sv_router sv) = None \<longleftrightarrow> list_all (\<lambda>r. r = None) outcomes) \<and>
        leaves_opt (publish I put cput rec (sv_router sv)) = concat (map leaves_opt outcomes))"
proof -
  obtain cfg ps qs vs p q d book where
    cfg: "expandDelegatedRoutingEndpoints (se_autoconf S) cfg0 = Inr cfg"
      "createDelegatedHTTPRouters (se_newClient S) (se_register S) (se_map_order S) cfg = Inr (ps, qs, vs)" and
    sv: "sv_router sv = ComposableRouter p q (Some (combineRouters (dhtType cfg \<noteq> ''disabled'') book (map ClientRouter vs) []
       (dnsAddrResolution cfg \<noteq> DNSAddrResolutionNever) (dnsAddrResolution cfg))) d" and
    book: "book \<longrightarrow> dhtType cfg \<noteq> ''disabled''" by (rule served_tree[OF assms(1)])
  let ?t = "combineRouters (dhtType cfg \<noteq> ''disabled'') book (map ClientRouter vs) []
    (dnsAddrResolution cfg \<noteq> DNSAddrResolutionNever) (dnsAddrResolution cfg) :: ('cl, 'ma) router"
  let ?put = "publish I put cput rec"
  define bs :: "('cl, 'ma) router list" where "bs = map snd (backends IPNS ?t)"
  have bs: "bs = map ClientRouter vs @ (if dhtType cfg \<noteq> ''disabled'' then [Libp2pRouter] else [])"
    unfolding bs_def by (rule ipns_backends[OF book])
  have eqs: "?put (sv_router sv) = ?put ?t" by (simp add: sv composable_PutIPNS_def)
  have "?put ?t = None \<longleftrightarrow> list_all (\<lambda>r. r = None) (map ?put bs)"
    "leaves_opt (?put ?t) = concat (map leaves_opt (map ?put bs))"
    using publish_backends[of I put cput rec ?t] by (auto simp: bs_def list_all_iff comp_def)
  moreover have "map ?put bs = map (\<lambda>c. cput c rec) vs @ (if dhtType cfg \<noteq> ''disabled'' then [libp2p_PutIPNS I put rec] else [])"
    unfolding bs by simp
  ultimately show ?thesis using cfg unfolding eqs Let_def by auto
qed

lemma served_PutIPNS_witness:
  "publish sample_ipns (\<lambda>raw. None) (\<lambda>c r. Some ErrCanceled) 7 (sv_router sample_server) \<noteq> None"
proof -
  from served_PutIPNS[OF sample_server, of "\<lambda>c r. Some ErrCanceled" 7 sample_ipns "\<lambda>raw. None"] sample_clients sample_expand show ?thesis
    by (auto simp: sample_start_env_def Let_def)
qed

end
