(* ===== verification/Carrying.thy ===== *)
theory Carrying
  imports Serve
begin

text \<open>
  What it means that nothing is lost on the way out of a tree of routers, for results of any kind: the
  interface \<open>carrying\<close> of a relation between a result and what the wrappers may make of it, and what
  \<open>find\<close> and its merge keep of the answers of the backends. \<open>Delivery\<close> uses it for provider records,
  \<open>PeerDelivery\<close> for peers.
\<close>

section \<open>Responses read to the end\<close>

inductive drained :: "'a found \<Rightarrow> 'a list \<Rightarrow> bool" where
  direct: "drained (Direct it) it"
| merged: "run_steps many_step mi as = Some s \<Longrightarrow> mi_done s \<Longrightarrow> \<not> mi_ctx s \<Longrightarrow> drained (Merged mi) (map snd (mi_out s))"

lemma drained_subseq:
  assumes "find_routers results = Inr fd" "drained fd out" "Inr it \<in> set results"
  shows "subseq it out"
  using assms(2,1,3)
proof cases
  case (direct)
  with assms(1,3) show ?thesis
    by (cases results rule: remdups_adj.cases)
      (auto simp: find_routers_def Let_def case_prod_beta split: sum.splits if_splits)
next
  case (merged mi as s)
  with assms(1) have mi: "mi = newManyIter (oks results)"
    by (cases results rule: remdups_adj.cases)
      (auto simp: find_routers_def find_loop_eq Let_def case_prod_beta simp del: find_loop.simps split: sum.splits if_splits)
  from assms(3) have "it \<in> set (oks results)" by (force simp: oks_def)
  then obtain i where i: "i < length (oks results)" "oks results ! i = it" by (auto simp: in_set_conv_nth)
  have "received i s = it" using manyIter_received[of "oks results" as s i] merged(2-) i mi by simp
  then show ?thesis unfolding merged(2) received_def by (auto intro: subseq_map)
qed

lemma drained_exists:
  assumes "find_routers results = Inr fd"
  shows "\<exists>out. drained fd out"
proof (cases fd)
  case (Direct it)
  then show ?thesis by (auto intro: drained.direct)
next
  case (Merged mi)
  with assms obtain its where "mi = newManyIter its"
    by (cases results rule: remdups_adj.cases)
      (auto simp: find_routers_def Let_def case_prod_beta simp del: find_loop.simps split: sum.splits if_splits)
  with many_drains[of mi] obtain as s where "run_steps many_step mi as = Some s" "mi_done s" "\<not> mi_ctx s"
    by (auto simp: newManyIter_def)
  then show ?thesis unfolding Merged by (blast intro: drained.merged)
qed

section \<open>Complete responses\<close>

text \<open>
  \<open>same v w\<close>: \<open>w\<close> is the result \<open>v\<close>, rewritten at most as a wrapper may. \<open>owed ws v\<close>: behind the wrappers
  \<open>ws\<close> the result \<open>v\<close> has to arrive.
\<close>

definition carried :: "('v \<Rightarrow> 'v \<Rightarrow> bool) \<Rightarrow> 'v list \<Rightarrow> 'v list \<Rightarrow> bool" where
  "carried same src out \<longleftrightarrow> list_emb same src out"

definition delivered ::
  "('v \<Rightarrow> 'v \<Rightarrow> bool) \<Rightarrow> (wrapper list \<Rightarrow> 'v \<Rightarrow> bool) \<Rightarrow> 'v list \<Rightarrow> wrapper list \<times> ('cl, 'ma) router \<Rightarrow> go_err + 'v list \<Rightarrow> bool" where
  "delivered same owed out b answer \<longleftrightarrow> (\<forall>src. answer = Inr src \<longrightarrow> carried same (filter (owed (fst b)) src) out)"

definition complete ::
  "('v \<Rightarrow> 'v \<Rightarrow> bool) \<Rightarrow> (wrapper list \<Rightarrow> 'v \<Rightarrow> bool) \<Rightarrow> (wrapper list \<times> ('cl, 'ma) router) list \<Rightarrow> (go_err + 'v list) list \<Rightarrow>
     go_err + 'v list \<Rightarrow> bool" where
  "complete same owed bs answers res = (case res of
     Inl e \<Rightarrow> length answers = length bs \<and> bs \<noteq> [] \<and> oks answers = [] \<and> err_leaves e = concat (map err_leaves (errs answers))
   | Inr out \<Rightarrow> (bs = [] \<or> oks answers \<noteq> []) \<and> list_all2 (delivered same owed out) bs answers)"

lemma list_all2_under [simp]: "list_all2 P (under ws bs) xs = list_all2 (\<lambda>(vs, b). P (ws @ vs, b)) bs xs"
  by (simp add: under_def list_all2_map1 case_prod_unfold)

text \<open>A wrapper that only rewrites owes what the wrapped router does.\<close>

lemma complete_under:
  fixes bs :: "(wrapper list \<times> ('cl, 'ma) router) list" and owed :: "wrapper list \<Rightarrow> 'v \<Rightarrow> bool"
  assumes "\<And>vs. owed (ws @ vs) = owed vs"
  shows "complete same owed (under ws bs) answers res = complete same owed bs answers res"
proof -
  have "(\<lambda>(vs, b :: ('cl, 'ma) router). delivered same owed out (ws @ vs, b)) = delivered same owed out" for out
    by (simp add: fun_eq_iff delivered_def assms)
  moreover have "under ws bs = [] \<longleftrightarrow> bs = []" by (simp add: under_def)
  moreover have "length (under ws bs) = length bs" by (simp add: under_def)
  ultimately show ?thesis by (simp add: complete_def cong: sum.case_cong)
qed

text \<open>What \<open>find\<close> makes of its routers' outcomes, and how those gather the answers of the backends.\<close>

lemma find_outcome:
  "case find_routers results of
     Inl e \<Rightarrow> results \<noteq> [] \<and> oks results = [] \<and> err_leaves e = concat (map err_leaves (errs results))
   | Inr fd \<Rightarrow> results = [] \<or> oks results \<noteq> []"
proof (cases results rule: remdups_adj.cases)
  case (3 x y xs)
  define l where "l = find_loop results [] None"
  have l: "fst l = oks results" "leaves_opt (snd l) = concat (map err_leaves (errs results))"
    "snd l = None \<longleftrightarrow> errs results = []"
    by (simp_all add: l_def find_loop_eq)
  have run: "find_routers results = (if length (fst l) = 0 then Inl (the (snd l)) else Inr (Merged (newManyIter (fst l))))"
    using 3 by (simp add: find_routers_def l_def case_prod_beta Let_def del: find_loop.simps)
  have "errs results \<noteq> []" if "oks results = []" using that 3 by (cases x) auto
  with 3 l run show ?thesis by auto
qed (auto simp: find_routers_def split: sum.split)

lemma oks_errs_append [simp]: "oks (xs @ ys) = oks xs @ oks ys" "errs (xs @ ys) = errs xs @ errs ys"
  by (simp_all add: oks_def errs_def)

lemma errors_concat:
  assumes "list_all2 (\<lambda>as r. \<forall>e. r = Inl e \<longrightarrow> oks as = [] \<and> err_leaves e = concat (map err_leaves (errs as))) answers results"
    and "oks results = []"
  shows "oks (concat answers) = [] \<and> concat (map err_leaves (errs results)) = concat (map err_leaves (errs (concat answers)))"
  using assms
proof (induction rule: list_all2_induct)
  case (Cons x xs y ys)
  from Cons(4) obtain e where "y = Inl e" by (cases y) auto
  with Cons show ?case by simp
qed simp

lemma concat_all2: "list_all2 (list_all2 P) xss yss \<Longrightarrow> list_all2 P (concat xss) (concat yss)"
  by (induction rule: list_all2_induct) (auto intro: list_all2_appendI)

lemma oks_Nil_iff: "oks xs = [] \<longleftrightarrow> (\<forall>x \<in> set xs. \<exists>e. x = Inl e)"
  by (induction xs) (auto simp: oks_def split: sum.splits)

lemma some_answer: "oks answers \<noteq> [] \<Longrightarrow> \<exists>its. Inr its \<in> set answers"
  by (auto simp: oks_Nil_iff) (metis sum.exhaust)

lemma delivered_errors: "oks answers = [] \<Longrightarrow> length answers = length bs \<Longrightarrow> list_all2 (delivered same owed out) bs answers"
  unfolding list_all2_conv_all_nth delivered_def oks_Nil_iff by (metis Inl_Inr_False nth_mem)

text \<open>A failing \<open>find\<close>: every backend failed, and no failure is lost.\<close>

lemma complete_find_error:
  fixes bss :: "(wrapper list \<times> ('cl, 'ma) router) list list"
  assumes len: "length results = length bss" "length answers = length bss"
    and each: "\<And>i. i < length bss \<Longrightarrow> complete same owed (bss ! i) (answers ! i) (results ! i)"
    and err: "find_routers results = Inl err"
  shows "complete same owed (concat bss) (concat answers) (Inl err)"
proof -
  have "oks (answers ! i) = [] \<and> err_leaves e = concat (map err_leaves (errs (answers ! i)))"
    if "i < length bss" "results ! i = Inl e" for i e
    using each[OF that(1)] that(2) by (simp add: complete_def)
  then have leaves: "list_all2 (\<lambda>as r. \<forall>e. r = Inl e \<longrightarrow> oks as = [] \<and> err_leaves e = concat (map err_leaves (errs as))) answers results"
    unfolding list_all2_conv_all_nth using len by simp
  from find_outcome[of results] err have none: "oks results = []" "results \<noteq> []"
    "err_leaves err = concat (map err_leaves (errs results))" by simp_all
  have failed: "length (answers ! i) = length (bss ! i) \<and> bss ! i \<noteq> []" if i: "i < length bss" for i
  proof -
    have "results ! i \<in> set results" using i len(1) by simp
    then obtain e where "results ! i = Inl e" using none(1) by (auto simp: oks_Nil_iff)
    with each[OF i] show ?thesis by (simp add: complete_def)
  qed
  then have "map length answers = map length bss" by (intro nth_equalityI) (simp_all add: len(2))
  then have "length (concat answers) = length (concat bss)" by (simp add: length_concat)
  moreover have "concat bss \<noteq> []" using failed[of 0] none(2) len(1) by (cases bss) auto
  ultimately show ?thesis using errors_concat[OF leaves none(1)] none(3) by (simp add: complete_def)
qed

locale carrying =
  fixes same :: "'v \<Rightarrow> 'v \<Rightarrow> bool"
  assumes same_refl: "same v v" and same_trans: "same u v \<Longrightarrow> same v w \<Longrightarrow> same u w"
begin

lemma carried_trans: "carried same xs ys \<Longrightarrow> carried same ys zs \<Longrightarrow> carried same xs zs"
  unfolding carried_def by (rule list_emb_trans) (auto intro: same_trans)

lemma carried_subseq: "subseq xs ys \<Longrightarrow> carried same xs ys"
  unfolding carried_def by (rule list_emb_mono[THEN mp, rotated]) (auto intro: same_refl)

lemma carried_all2: "list_all2 same xs ys \<Longrightarrow> carried same xs ys"
  unfolding carried_def by (induction rule: list_all2_induct) auto

lemma carried_map: "(\<And>v. same v (f v)) \<Longrightarrow> carried same xs (map f xs)"
  by (rule carried_all2) (simp add: list_all2_conv_all_nth)

lemma delivered_trans: "delivered same owed mid b answer \<Longrightarrow> carried same mid out \<Longrightarrow> delivered same owed out b answer"
  by (auto simp: delivered_def intro: carried_trans)

text \<open>A backend's own answer, and one that a wrapper has rewritten.\<close>

lemma complete_leaf: "complete same owed [b] [res] res"
  by (auto simp: complete_def delivered_def intro: carried_subseq split: sum.split)

lemma complete_none: "complete same owed [] [] (Inr [])"
  by (simp add: complete_def)

lemma complete_map:
  assumes "complete same owed bs answers inner" and "\<And>it. carried same it (f it)"
  shows "complete same owed bs answers (case inner of Inl e \<Rightarrow> Inl e | Inr it \<Rightarrow> Inr (f it))"
  using assms by (cases inner) (auto simp: complete_def elim!: list_all2_mono intro: delivered_trans)

text \<open>A \<open>find\<close> that succeeds, read to its end.\<close>

lemma complete_find:
  fixes bss :: "(wrapper list \<times> ('cl, 'ma) router) list list"
  assumes len: "length results = length bss" "length answers = length bss"
    and each: "\<And>i. i < length bss \<Longrightarrow> complete same owed (bss ! i) (answers ! i) (results ! i) \<and> bss ! i \<noteq> []"
    and found: "find_routers results = Inr fd" "drained fd out"
  shows "complete same owed (concat bss) (concat answers) (Inr out)"
proof -
  have part: "list_all2 (delivered same owed out) (bss ! i) (answers ! i)" if i: "i < length bss" for i
  proof (cases "results ! i")
    case (Inl e)
    with each[OF i] show ?thesis by (intro delivered_errors) (auto simp: complete_def)
  next
    case (Inr it)
    then have "Inr it \<in> set results" using i len(1) by (metis nth_mem)
    from carried_subseq[OF drained_subseq[OF found this]] have "carried same it out" .
    with each[OF i] Inr show ?thesis by (auto simp: complete_def elim!: list_all2_mono intro: delivered_trans)
  qed
  then have "list_all2 (list_all2 (delivered same owed out)) bss answers"
    unfolding list_all2_conv_all_nth[of "list_all2 (delivered same owed out)"] using len(2) by simp
  from concat_all2[OF this] have "list_all2 (delivered same owed out) (concat bss) (concat answers)" .
  moreover have "oks (concat answers) \<noteq> []" if "bss \<noteq> []"
  proof -
    from that find_outcome[of results] found len(1) have "oks results \<noteq> []" by auto
    then obtain i it where i: "i < length bss" "results ! i = Inr it"
      using len(1) by (metis in_set_conv_nth oks_Nil_iff sum.exhaust)
    with each[OF i(1)] have "oks (answers ! i) \<noteq> []" by (auto simp: complete_def)
    then show ?thesis using i(1) len(2) by (auto simp: oks_Nil_iff) (metis nth_mem)
  qed
  ultimately show ?thesis by (cases "bss = []") (simp_all add: complete_def)
qed

end

section \<open>The trees that are built\<close>

text \<open>
  Every router merged has a backend for the endpoint, the cache stands over the DHT only, and where
  \<open>GetClosestPeers\<close> is asked of a \<open>composableRouter\<close> it has that part.
\<close>

fun servable :: "api \<Rightarrow> ('cl, 'ma) router \<Rightarrow> bool" where
  "servable a (CachedRouter r) = (r = Libp2pRouter)"
| "servable a (SanitizeRouter r) = servable a r"
| "servable a (DnsAddrRouter m r) = servable a r"
| "servable a (ParallelRouter rs) = list_all (\<lambda>r. servable a r \<and> backends a r \<noteq> []) rs"
| "servable a (ComposableRouter p q i d) =
     (case a of
        Providers \<Rightarrow> (case p of None \<Rightarrow> True | Some r \<Rightarrow> servable a r)
      | Peers \<Rightarrow> (case q of None \<Rightarrow> True | Some r \<Rightarrow> servable a r)
      | IPNS \<Rightarrow> (case i of None \<Rightarrow> True | Some r \<Rightarrow> servable a r)
      | ClosestPeers \<Rightarrow> (case d of None \<Rightarrow> False | Some r \<Rightarrow> servable a r))"
| "servable a (BlockRouter h) = (a = Providers)"
| "servable a r = True"

lemma servable_combine:
  assumes "list_all (\<lambda>r. servable a r \<and> backends a r \<noteq> []) (ds @ as)" "a \<noteq> ClosestPeers"
  shows "servable a (combineRouters dht book ds as d m)"
  using assms by (cases a) (auto simp: combineRouters_def withDNSAddrResolution_def Let_def list_all_iff)

lemma start_servable:
  assumes "start S cfg = Inr sv"
  shows "servable Providers (sv_router sv)" and "servable Peers (sv_router sv)"
    and "servable ClosestPeers (sv_router sv) \<and> backends ClosestPeers (sv_router sv) \<noteq> [] \<or>
      backends ClosestPeers (sv_router sv) = [] \<and> (\<exists>p q i. sv_router sv = ComposableRouter p q i None)"
proof -
  obtain cfg1 dht and book :: "('a, 'b) cachedAddrBook option" and blocks ps qs vs where
    blocks: "start_blocks S cfg1 = Inr blocks" and
    sv: "sv_router sv = (let d = (dnsAddrResolution cfg1 \<noteq> DNSAddrResolutionNever); m = dnsAddrResolution cfg1; b = (book \<noteq> None)
       in ComposableRouter (Some (combineRouters dht b (map ClientRouter ps) blocks d m))
            (Some (combineRouters dht b (map ClientRouter qs) [] d m)) (Some (combineRouters dht b (map ClientRouter vs) [] d m))
            (closest_router dht b d m))"
    by (rule start_success[OF assms])
  from start_blocks_eq[OF blocks] obtain bs where
    "blocks = map (\<lambda>b. ComposableRouter (Some (BlockRouter b)) None None None) bs" by blast
  then have p: "list_all (\<lambda>r. servable Providers r \<and> backends Providers r \<noteq> []) (map ClientRouter ps @ blocks)"
    and q: "list_all (\<lambda>r. servable Peers r \<and> backends Peers r \<noteq> []) (map ClientRouter qs @ [])"
    by (auto simp: list_all_iff)
  show "servable Providers (sv_router sv)" using servable_combine[OF p] by (simp add: sv Let_def)
  show "servable Peers (sv_router sv)" using servable_combine[OF q] by (simp add: sv Let_def)
  show "servable ClosestPeers (sv_router sv) \<and> backends ClosestPeers (sv_router sv) \<noteq> [] \<or>
      backends ClosestPeers (sv_router sv) = [] \<and> (\<exists>p q i. sv_router sv = ComposableRouter p q i None)"
    by (auto simp: sv Let_def closest_router_def withDNSAddrResolution_def)
qed

section \<open>The lookups of an iterator read while its request lives\<close>

lemma lookup_wf: "wf_answer (libp2p_FindPeers found)"
  by (simp add: wf_answer_def wf_result_def libp2p_FindPeers_def split: sum.split)

lemma own_lookup_serves:
  assumes "list_all (own_action (\<lambda>i. libp2p_FindPeers (f i)) t) as" "CallInner i res now \<in> set as"
  shows "serves_peers W Peers Libp2pRouter res"
proof -
  have "own_action (\<lambda>i. libp2p_FindPeers (f i)) t (CallInner i res now)"
    using assms unfolding list_all_iff by (rule bspec)
  then show ?thesis by (simp add: own_action_def serves_peers.libp2p_peers)
qed

end
