(* ===== verification/Delivery.thy ===== *)
theory Delivery
  imports Carrying
begin

text \<open>
  Composition: nothing is lost on the way out. A response to \<open>FindProviders\<close> that is read to its end holds
  what every backend that answered yielded, in that backend's order, with at most its addresses rewritten;
  and whatever the backends answer, the response can be read to its end. The tree of routers is the one
  of \<open>Serve\<close>; here every iterator in it has reported its end.
\<close>

section \<open>Responses read to the end\<close>

text \<open>
  \<open>full_providers W ok others cs flt st r answers res\<close>: with the backends of \<open>r\<close>, in the order of \<open>backends\<close>,
  answering \<open>answers\<close>, the response is \<open>res\<close>. The request starts with the address book and the lookup
  counters \<open>cs\<close>, \<open>others\<close> of whose slots are taken by other requests, the address filter \<open>flt\<close> and the
  resolver's state \<open>st\<close>. The cache stands over the DHT only, as in every server \<open>start\<close> builds; \<open>ok\<close> says
  which steps of its iterator the response is read with (\<open>\<lambda>a. True\<close> allows all of them, those of other
  requests included).
\<close>

inductive full_providers ::
  "('ab, 'c, 'ma, 'env, 'cl, 'd) surroundings \<Rightarrow> ('ma fallback_action \<Rightarrow> bool) \<Rightarrow> nat \<Rightarrow> ('ab, 'c) cr_state \<Rightarrow> addrFilter option \<Rightarrow> ('d, 'ma) dns_state \<Rightarrow>
     ('cl, 'ma) router \<Rightarrow> (go_err + 'ma Record result list) list \<Rightarrow> go_err + 'ma Record result list \<Rightarrow> bool"
  for W :: "('ab, 'c, 'ma, 'env, 'cl, 'd) surroundings" and ok :: "'ma fallback_action \<Rightarrow> bool" and others :: nat and cs :: "('ab, 'c) cr_state"
    and flt :: "addrFilter option" and st :: "('d, 'ma) dns_state" where
  libp2p: "full_providers W ok others cs flt st Libp2pRouter [Inr (libp2p_results ch)] (Inr (libp2p_results ch))"
| client: "su_client_providers W c res \<Longrightarrow> full_providers W ok others cs flt st (ClientRouter c) [res] res"
| block:
    "res = httpBlock_FindProviders h newRequest response \<Longrightarrow> full_providers W ok others cs flt st (BlockRouter h) [res] res"
| cached:
    "full_providers W ok others cs flt st Libp2pRouter answers inner \<Longrightarrow>
     cachedRouter_FindProviders inner others cs = Inr (it, origin) \<Longrightarrow>
     (\<And>i res now. CallInner i res now \<in> set as \<Longrightarrow> serves_peers W Peers Libp2pRouter res) \<Longrightarrow> list_all ok as \<Longrightarrow>
     run_steps (fallback_step (su_book W) origin) it as = Some s \<Longrightarrow> fi_ret s = Some False \<Longrightarrow>
     full_providers W ok others cs flt st (CachedRouter Libp2pRouter) answers (Inr (fi_out s))"
| sanitize:
    "full_providers W ok others cs flt st r answers inner \<Longrightarrow>
     full_providers W ok others cs flt st (SanitizeRouter r) answers (sanitizeRouter_FindProviders (su_ma W) inner)"
| dnsaddr:
    "full_providers W ok others cs flt st r answers inner \<Longrightarrow>
     full_providers W ok others cs flt st (DnsAddrRouter m r) answers (fst (dnsAddrRouter_FindProviders (resolver W m flt) inner st))"
| parallel_error:
    "length results = length rs \<Longrightarrow> length answers = length rs \<Longrightarrow>
     (\<And>i. i < length rs \<Longrightarrow> full_providers W ok others cs flt st (rs ! i) (answers ! i) (results ! i)) \<Longrightarrow>
     find_routers results = Inl err \<Longrightarrow> full_providers W ok others cs flt st (ParallelRouter rs) (concat answers) (Inl err)"
| parallel:
    "length results = length rs \<Longrightarrow> length answers = length rs \<Longrightarrow>
     (\<And>i. i < length rs \<Longrightarrow> full_providers W ok others cs flt st (rs ! i) (answers ! i) (results ! i)) \<Longrightarrow>
     find_routers results = Inr fd \<Longrightarrow> drained fd out \<Longrightarrow>
     full_providers W ok others cs flt st (ParallelRouter rs) (concat answers) (Inr out)"
| no_providers: "full_providers W ok others cs flt st (ComposableRouter None q i d) [] (composable_FindProviders None)"
| providers:
    "full_providers W ok others cs flt st p answers res \<Longrightarrow>
     full_providers W ok others cs flt st (ComposableRouter (Some p) q i d) answers (composable_FindProviders (Some res))"

section \<open>The same result\<close>

text \<open>A result that differs at most in the addresses of its record.\<close>

definition same_result :: "'ma Record result \<Rightarrow> 'ma Record result \<Rightarrow> bool" where
  "same_result v w \<longleftrightarrow> w = v \<or> (\<exists>as. w = with_addrs as v)"

lemma same_refl [simp]: "same_result v v"
  by (simp add: same_result_def)

lemma with_addrs_twice [simp]: "with_addrs as (with_addrs bs v) = with_addrs as v"
  by (cases "Val v"; cases "the (Val v)") (auto simp: with_addrs_def)

lemma same_trans: "same_result u v \<Longrightarrow> same_result v w \<Longrightarrow> same_result u w"
  by (auto simp: same_result_def)

lemma same_record_rel: "record_rel rel v w \<Longrightarrow> same_result v w"
  by (auto simp: record_rel_def same_result_def split: option.splits)

interpretation recs: carrying same_result
  by unfold_locales (simp, rule same_trans)

text \<open>The rewriting routers.\<close>

lemma sanitize_carries:
  "sanitizeRouter_FindProviders M inner = (case inner of Inl e \<Rightarrow> Inl e | Inr it \<Rightarrow> Inr (map (sanitize_record M) it))"
  "carried same_result it (map (sanitize_record M) it)"
proof -
  show "sanitizeRouter_FindProviders M inner = (case inner of Inl e \<Rightarrow> Inl e | Inr it \<Rightarrow> Inr (map (sanitize_record M) it))"
    by (simp add: sanitizeRouter_FindProviders_def)
  have "same_result v (sanitize_record M v)" for v
    unfolding sanitize_record_eq using sanitizer.rewrite_record_step[of M v "()"] by (blast intro: same_record_rel)
  then show "carried same_result it (map (sanitize_record M) it)" by (rule recs.carried_map)
qed

lemma dnsaddr_carries:
  "\<exists>f. fst (dnsAddrRouter_FindProviders R inner st) = (case inner of Inl e \<Rightarrow> Inl e | Inr it \<Rightarrow> Inr (f it)) \<and>
    (\<forall>it. carried same_result it (f it))"
proof -
  define f where "f = (\<lambda>it. fst (map_state (dnsaddr_record R) it (st\<lparr>ds_budget := newDNSAddrBudget\<rparr>)))"
  have "list_all2 (record_rel (rewritten R)) it (f it)" for it
    unfolding f_def dnsaddr_record_eq[abs_def] by (rule dnsaddr.records_rel)
  then have "carried same_result it (f it)" for it
    by (intro recs.carried_all2) (rule list_all2_mono, blast, rule same_record_rel)
  moreover have "fst (dnsAddrRouter_FindProviders R inner st) = (case inner of Inl e \<Rightarrow> Inl e | Inr it \<Rightarrow> Inr (f it))"
    by (simp add: dnsAddrRouter_FindProviders_def f_def case_prod_beta split: sum.split)
  ultimately show ?thesis by blast
qed

section \<open>Completeness\<close>

text \<open>
  Under the cache a peer record without addresses may be dropped, where no lookup finds any; everything
  else has to arrive.
\<close>

definition owed :: "wrapper list \<Rightarrow> 'ma Record result \<Rightarrow> bool" where
  "owed ws v \<longleftrightarrow> WCached \<notin> set ws \<or> given v"

lemma owed_under [simp]: "owed (WSanitize # vs) = owed vs" "owed (WDns m # vs) = owed vs"
  by (simp_all add: fun_eq_iff owed_def)

lemma full_complete:
  assumes "full_providers W ok others cs flt st r answers res" "slots_ok 0 others (cr_cab cs)" "servable Providers r"
  shows "complete same_result owed (backends Providers r) answers res"
  using assms(1,3)
proof induction
  case (sanitize r answers inner)
  then have "complete same_result owed (under [WSanitize] (backends Providers r)) answers inner" by (simp add: complete_under)
  from recs.complete_map[OF this sanitize_carries(2)] show ?case unfolding sanitize_carries(1) by simp
next
  case (dnsaddr r answers inner m)
  then have c: "complete same_result owed (under [WDns m] (backends Providers r)) answers inner" by (simp add: complete_under)
  from dnsaddr_carries[of "resolver W m flt" inner st] obtain f where
    "fst (dnsAddrRouter_FindProviders (resolver W m flt) inner st) = (case inner of Inl e \<Rightarrow> Inl e | Inr it \<Rightarrow> Inr (f it))"
    "\<And>it. carried same_result it (f it)" by blast
  with recs.complete_map[OF c, of f] show ?case by simp
next
  case (parallel_error results rs answers err)
  then show ?case
    using complete_find_error[of results "map (backends Providers) rs" answers same_result owed err] by (simp add: list_all_length)
next
  case (parallel results rs answers fd out)
  then show ?case
    using recs.complete_find[of results "map (backends Providers) rs" answers owed fd out] by (simp add: list_all_length)
next
  case (cached answers inner it origin as s)
  from cached.hyps(1) obtain ch where a: "answers = [Inr (libp2p_results ch)]" "inner = Inr (libp2p_results ch)"
    by (auto elim: full_providers.cases)
  with cached.hyps(2) have it: "it = NewCacheFallbackIter (libp2p_results ch) others cs"
    by (simp add: cachedRouter_FindProviders_def)
  have "list_all wf_source (libp2p_results ch)" using libp2p_typed(1)[of ch] by (auto simp: list_all_iff typed_wf)
  moreover have "list_all wf_action as"
  proof -
    have "typed_action a" if "a \<in> set as" for a
      using cached.hyps(3) that by (cases a) (auto intro: libp2p_serves_typed)
    then show ?thesis by (intro typed_action_wf) (simp add: list_all_iff)
  qed
  ultimately have "delivery_inv (libp2p_results ch) s"
    using fallback_reachable(2)[OF assms(2)] cached.hyps(5) it by blast
  then have "subseq (filter given (libp2p_results ch)) (fi_out s)"
    using cached.hyps(6) by (auto simp: delivery_inv_def)
  moreover have "owed [WCached] = (given :: 'c Record result \<Rightarrow> bool)" by (simp add: fun_eq_iff owed_def)
  ultimately show ?case by (simp add: complete_def a(1) delivered_def recs.carried_subseq)
qed (simp_all add: composable_FindProviders_def recs.complete_leaf recs.complete_none)

section \<open>Every response can be read to its end\<close>

text \<open>
  A choice of what each backend answers: the DHT's channel, the delegated routers, what each block
  provider's server responds, and what the DHT finds in each background lookup. \<open>reading C t\<close> are the
  steps of the fallback iterator while its request lives, with these answers and the clock at \<open>t\<close>.
\<close>

record ('ma, 'cl) choice =
  ch_dht :: "'ma AddrInfo list"
  ch_client :: "'cl \<Rightarrow> go_err + 'ma Record result list"
  ch_request :: "go_err option"
  ch_block :: "'ma httpBlockRouter \<Rightarrow> go_err + nat"
  ch_lookup :: "nat \<Rightarrow> go_err + 'ma AddrInfo"

definition reading :: "('ma, 'cl) choice \<Rightarrow> int \<Rightarrow> 'ma fallback_action \<Rightarrow> bool" where
  "reading C t = own_action (\<lambda>i. libp2p_FindPeers (ch_lookup C i)) t"

fun answer_of :: "('ma, 'cl) choice \<Rightarrow> ('cl, 'ma) router \<Rightarrow> go_err + 'ma Record result list" where
  "answer_of C Libp2pRouter = Inr (libp2p_results (ch_dht C))"
| "answer_of C (ClientRouter c) = ch_client C c"
| "answer_of C (BlockRouter h) = httpBlock_FindProviders h (ch_request C) (ch_block C h)"
| "answer_of C r = Inr []"

definition answers_of :: "('ma, 'cl) choice \<Rightarrow> ('cl, 'ma) router \<Rightarrow> (go_err + 'ma Record result list) list" where
  "answers_of C r = map (answer_of C \<circ> snd) (backends Providers r)"

lemma answers_of_simps [simp]:
  "answers_of C Libp2pRouter = [Inr (libp2p_results (ch_dht C))]"
  "answers_of C (ClientRouter c) = [ch_client C c]"
  "answers_of C (BlockRouter h) = [httpBlock_FindProviders h (ch_request C) (ch_block C h)]"
  "answers_of C (CachedRouter r) = answers_of C r" "answers_of C (SanitizeRouter r) = answers_of C r"
  "answers_of C (DnsAddrRouter m r) = answers_of C r"
  "answers_of C (ParallelRouter rs) = concat (map (answers_of C) rs)"
  "answers_of C (ComposableRouter None q i d) = []" "answers_of C (ComposableRouter (Some p) q i d) = answers_of C p"
  by (simp_all add: answers_of_def[abs_def] under_def map_concat comp_def case_prod_beta)

lemma cached_readable:
  assumes "slots_ok 0 others (cr_cab cs)"
  shows "\<exists>res. full_providers W (reading C t) others cs flt st (CachedRouter Libp2pRouter) [Inr (libp2p_results ch)] res"
proof -
  let ?src = "libp2p_results ch"
  define it where "it = NewCacheFallbackIter ?src others cs"
  have wf: "list_all wf_source ?src" using libp2p_typed(1)[of ch] by (auto simp: list_all_iff typed_wf)
  have "delivery_inv ?src it" using wf by (auto simp: it_def delivery_inv_def NewCacheFallbackIter_def intro: exI[of _ "[]"])
  moreover have "fi_ret it \<noteq> Some False" by (simp add: it_def NewCacheFallbackIter_def)
  ultimately obtain as s where as: "list_all (reading C t) as"
    and run: "run_steps (fallback_step (su_book W) addrQueryOriginProviders) it as = Some s" "fi_ret s = Some False"
    unfolding reading_def
    using fallback_drains[OF fallback_inv_init[OF assms wf, folded it_def] _ _ lookup_wf] by blast
  have "serves_peers W Peers Libp2pRouter res" if "CallInner i res now \<in> set as" for i res now
    by (rule own_lookup_serves[OF as[unfolded reading_def] that])
  moreover have "cachedRouter_FindProviders (Inr ?src) others cs = Inr (it, addrQueryOriginProviders)"
    by (simp add: cachedRouter_FindProviders_def it_def)
  ultimately show ?thesis
    using full_providers.cached[where ok = "reading C t", OF full_providers.libp2p _ _ as run] by blast
qed

lemma readable:
  assumes "slots_ok 0 others (cr_cab cs)" "\<And>c. su_client_providers W c (ch_client C c)" "servable Providers r"
  shows "\<exists>res. full_providers W (reading C t) others cs flt st r (answers_of C r) res"
  using assms(3)
proof (induction Providers r rule: servable.induct)
  case (1 r)
  then show ?case using cached_readable[OF assms(1)] by simp
next
  case (2 r)
  then show ?case by (auto intro: full_providers.sanitize)
next
  case (3 m r)
  then show ?case by (auto intro: full_providers.dnsaddr)
next
  case (4 rs)
  then have "\<forall>i. \<exists>res. i < length rs \<longrightarrow> full_providers W (reading C t) others cs flt st (rs ! i) (answers_of C (rs ! i)) res"
    by (auto simp: list_all_iff)
  then obtain f where f: "\<And>i. i < length rs \<Longrightarrow> full_providers W (reading C t) others cs flt st (rs ! i) (answers_of C (rs ! i)) (f i)"
    by metis
  define results where "results = map f [0..<length rs]"
  have each: "full_providers W (reading C t) others cs flt st (rs ! i) (map (answers_of C) rs ! i) (results ! i)" if "i < length rs" for i
    using f[OF that] that by (simp add: results_def)
  have len: "length results = length rs" "length (map (answers_of C) rs) = length rs" by (simp_all add: results_def)
  show ?case
  proof (cases "find_routers results")
    case (Inl err)
    from full_providers.parallel_error[OF len each this] show ?thesis by auto
  next
    case (Inr fd)
    with drained_exists obtain out where "drained fd out" by blast
    from full_providers.parallel[OF len each Inr this] show ?thesis by auto
  qed
next
  case (5 p q i d)
  then show ?case by (cases p) (auto intro: full_providers.no_providers full_providers.providers)
qed (auto intro: full_providers.libp2p full_providers.block full_providers.client assms(2))

section \<open>Properties\<close>

text \<open>
  C4. No provider is lost. In a response of a started server to \<open>FindProviders\<close> that has been read to its
  end, every result of every backend that answered arrives, in that backend's order, with at most its
  addresses rewritten; only where the address book is on may a record of the DHT without any address be
  missing. The response is an error only if there is a backend and all of them failed, and the error is
  then made of exactly their failures. This holds in every interleaving of the merge, of background
  lookups, and with other requests sharing the address book (\<open>ok\<close> is any set of steps).
\<close>

theorem no_provider_lost:
  assumes "start S cfg = Inr sv" and "slots_ok 0 others (cr_cab cs)"
    and "full_providers W ok others cs flt st (sv_router sv) answers res"
  shows "case res of
      Inl e \<Rightarrow> backends Providers (sv_router sv) \<noteq> [] \<and> list_all (\<lambda>a. \<exists>x. a = Inl x) answers \<and>
        err_leaves e = concat (map err_leaves (errs answers))
    | Inr out \<Rightarrow>
        list_all2 (\<lambda>b answer. \<forall>src. answer = Inr src \<longrightarrow>
            list_emb (\<lambda>v w. w = v \<or> (\<exists>as. w = with_addrs as v)) (filter (\<lambda>v. WCached \<notin> set (fst b) \<or> given v) src) out)
          (backends Providers (sv_router sv)) answers \<and>
        (backends Providers (sv_router sv) = [] \<or> (\<exists>its. Inr its \<in> set answers))"
proof -
  have complete: "complete same_result owed (backends Providers (sv_router sv)) answers res"
    by (rule full_complete[OF assms(3,2) start_servable(1)[OF assms(1)]])
  show ?thesis
  proof (cases res)
    case (Inl e)
    with complete show ?thesis by (simp add: complete_def oks_Nil_iff list_all_iff)
  next
    case (Inr out)
    have d: "delivered same_result owed out = (\<lambda>b answer. \<forall>src. answer = Inr src \<longrightarrow>
        list_emb (\<lambda>v w. w = v \<or> (\<exists>as. w = with_addrs as v)) (filter (\<lambda>v. WCached \<notin> set (fst b) \<or> given v) src) out)"
      by (simp add: fun_eq_iff delivered_def carried_def same_result_def[abs_def] owed_def[abs_def])
    from complete Inr have "list_all2 (delivered same_result owed out) (backends Providers (sv_router sv)) answers"
      "backends Providers (sv_router sv) = [] \<or> oks answers \<noteq> []" by (simp_all add: complete_def)
    with some_answer show ?thesis unfolding Inr sum.case d by blast
  qed
qed

text \<open>
  C5. Every response ends while its request lives. Whatever the DHT's channel, the delegated routers and
  the block providers answer, whatever the DHT finds in each background lookup, at any time and with the
  address book in any state other requests may leave it in, the response of a started server to
  \<open>FindProviders\<close> can be read to its end. The request's context does not end meanwhile, nothing is closed
  and no other request helps: the steps of \<open>Next\<close>, of the lookups and of the merge are enough, so no
  goroutine of the merge and no background lookup can keep the last \<open>Next\<close> from returning for good.
\<close>

theorem provider_responses_end:
  assumes "start S cfg = Inr sv" and "slots_ok 0 others (cr_cab cs)" and "\<And>c. su_client_providers W c (ch_client C c)"
  shows "\<exists>res. full_providers W (own_action (\<lambda>i. libp2p_FindPeers (ch_lookup C i)) t) others cs flt st (sv_router sv)
    (map (\<lambda>b. answer_of C (snd b)) (backends Providers (sv_router sv))) res"
proof -
  have "map (\<lambda>b. answer_of C (snd b)) (backends Providers (sv_router sv)) = answers_of C (sv_router sv)"
    by (simp add: answers_of_def comp_def)
  with readable[OF assms(2,3) start_servable(1)[OF assms(1)], of t] show ?thesis by (simp add: reading_def)
qed

definition sample_choice :: "(comps, string) choice" where
  "sample_choice = \<lparr>ch_dht = dht_sample, ch_client = (\<lambda>c. Inr []), ch_request = None, ch_block = (\<lambda>h. Inr 200),
     ch_lookup = (\<lambda>i. Inl ErrNotFound)\<rparr>"

lemma provider_responses_end_witness:
  "\<exists>res. full_providers sample_surroundings (own_action (\<lambda>i. libp2p_FindPeers (ch_lookup sample_choice i)) 9) 0 sample_cr None
     (sample_dns_state Map.empty) (sv_router sample_server)
     (map (\<lambda>b. answer_of sample_choice (snd b)) (backends Providers (sv_router sample_server))) res"
  by (rule provider_responses_end[OF sample_server early_ok(1)]) (simp add: sample_surroundings_def sample_choice_def)

lemma sample_provider_backends:
  "backends Providers (sv_router sample_server) = [([WDns ''append''], ClientRouter ''a''), ([WDns ''append'', WSanitize, WCached], Libp2pRouter)]"
  using start_backends[OF sample_server] sample_expand sample_clients
  by (auto simp: sample_start_env_def sample_server_config_def Let_def)

text \<open>The DHT yields one provider with an address, the delegated router none: the response holds that provider.\<close>

lemma no_provider_lost_witness:
  "\<exists>out w. full_providers sample_surroundings (reading sample_choice 9) 0 sample_cr None (sample_dns_state Map.empty) (sv_router sample_server)
      (map (\<lambda>b. answer_of sample_choice (snd b)) (backends Providers (sv_router sample_server))) (Inr out) \<and>
    w \<in> set out \<and> (\<exists>r. Val w = Some (RPeer r) \<and> ID r = Some ''P'')"
proof -
  let ?full = "full_providers sample_surroundings (reading sample_choice 9) 0 sample_cr None (sample_dns_state Map.empty) (sv_router sample_server)
      (map (\<lambda>b. answer_of sample_choice (snd b)) (backends Providers (sv_router sample_server)))"
  let ?v = "ok_result (RPeer (record_of_info \<lparr>ai_ID = ''P'', ai_Addrs = [sample_ip]\<rparr>))"
  have "\<exists>res. ?full res"
    by (rule readable[OF early_ok(1) _ start_servable(1)[OF sample_server], unfolded answers_of_def comp_def])
      (simp add: sample_surroundings_def sample_choice_def)
  then obtain res where res: "?full res" ..
  have a: "map (\<lambda>b. answer_of sample_choice (snd b)) (backends Providers (sv_router sample_server)) = [Inr [], Inr [?v]]"
    by (simp add: sample_provider_backends sample_choice_def libp2p_results_eq dht_sample_def)
  note spec = no_provider_lost[OF sample_server early_ok(1) res, unfolded sample_provider_backends]
  from no_provider_lost[OF sample_server early_ok(1) res] a obtain out where out: "res = Inr out" by (cases res) auto
  with spec have "list_emb (\<lambda>v w. w = v \<or> (\<exists>as. w = with_addrs as v)) [?v] out"
    by (simp add: sample_choice_def libp2p_results_eq dht_sample_def given_def record_of_info_def)
  then obtain w where w: "w \<in> set out" "w = ?v \<or> (\<exists>as. w = with_addrs as ?v)"
    by (rule list_emb_set[of _ _ _ ?v]) auto
  then have "\<exists>r. Val w = Some (RPeer r) \<and> ID r = Some ''P''" by (auto simp: with_addrs_def record_of_info_def)
  with w(1) res out show ?thesis by blast
qed

end
