(* ===== verification/PeerDelivery.thy ===== *)
theory PeerDelivery
  imports Carrying PeerPaths
begin

text \<open>
  The counterpart of \<open>Delivery\<close> for \<open>FindPeers\<close> and \<open>GetClosestPeers\<close>: a response that is read to its end
  holds every peer each backend gave, with at most its addresses rewritten, and every response can be
  read to its end. Where the address book has addresses of the peer asked for, its record stands for the
  answer of the DHT, which is then not asked.
\<close>

section \<open>Responses read to the end\<close>

text \<open>
  \<open>full_peers W ok pid now others cs flt st a r answers res\<close>: asked for the endpoint \<open>a\<close>, and in \<open>FindPeers\<close>
  for the peer \<open>pid\<close>, with the backends of \<open>r\<close> answering \<open>answers\<close>, the response is \<open>res\<close>. The other
  parameters are those of \<open>full_providers\<close>.
\<close>

inductive full_peers ::
  "('ab, 'c, 'ma, 'env, 'cl, 'd) surroundings \<Rightarrow> ('ma fallback_action \<Rightarrow> bool) \<Rightarrow> peer_id \<Rightarrow> int \<Rightarrow> nat \<Rightarrow> ('ab, 'c) cr_state \<Rightarrow> addrFilter option \<Rightarrow>
     ('d, 'ma) dns_state \<Rightarrow> api \<Rightarrow> ('cl, 'ma) router \<Rightarrow> (go_err + 'ma PeerRecord result list) list \<Rightarrow>
     go_err + 'ma PeerRecord result list \<Rightarrow> bool"
  for W :: "('ab, 'c, 'ma, 'env, 'cl, 'd) surroundings" and ok :: "'ma fallback_action \<Rightarrow> bool" and pid :: peer_id and now :: int and others :: nat
    and cs :: "('ab, 'c) cr_state" and flt :: "addrFilter option" and st :: "('d, 'ma) dns_state" where
  libp2p_peers: "full_peers W ok pid now others cs flt st Peers Libp2pRouter [libp2p_FindPeers found] (libp2p_FindPeers found)"
| libp2p_closest:
    "res = libp2p_GetClosestPeers undef client peerstore \<Longrightarrow>
     full_peers W ok pid now others cs flt st ClosestPeers Libp2pRouter [res] res"
| client: "su_client_peers W a c res \<Longrightarrow> full_peers W ok pid now others cs flt st a (ClientRouter c) [res] res"
| from_cache:
    "FindPeers_cached (su_book W) pid cs = (Some it, cs1) \<Longrightarrow>
     full_peers W ok pid now others cs flt st Peers (CachedRouter Libp2pRouter) [Inr it]
       (fst (cachedRouter_FindPeers (su_book W) now pid inner cs))"
| past_cache:
    "full_peers W ok pid now others cs flt st Peers Libp2pRouter answers inner \<Longrightarrow>
     FindPeers_cached (su_book W) pid cs = (None, cs1) \<Longrightarrow>
     full_peers W ok pid now others cs flt st Peers (CachedRouter Libp2pRouter) answers
       (fst (cachedRouter_FindPeers (su_book W) now pid inner cs))"
| cached_closest_error:
    "full_peers W ok pid now others cs flt st ClosestPeers Libp2pRouter answers inner \<Longrightarrow>
     cachedRouter_GetClosestPeers inner others cs = Inl err \<Longrightarrow>
     full_peers W ok pid now others cs flt st ClosestPeers (CachedRouter Libp2pRouter) answers (Inl err)"
| cached_closest:
    "full_peers W ok pid now others cs flt st ClosestPeers Libp2pRouter answers inner \<Longrightarrow>
     cachedRouter_GetClosestPeers inner others cs = Inr (it, origin) \<Longrightarrow>
     (\<And>i res t. CallInner i res t \<in> set as \<Longrightarrow> serves_peers W Peers Libp2pRouter res) \<Longrightarrow> list_all ok as \<Longrightarrow>
     run_steps (fallback_step (su_book W) origin) it as = Some s \<Longrightarrow> fi_ret s = Some False \<Longrightarrow>
     full_peers W ok pid now others cs flt st ClosestPeers (CachedRouter Libp2pRouter) answers (Inr (map record_to_peer (fi_out s)))"
| sanitize_peers:
    "full_peers W ok pid now others cs flt st Peers r answers inner \<Longrightarrow>
     full_peers W ok pid now others cs flt st Peers (SanitizeRouter r) answers (sanitizeRouter_FindPeers (su_ma W) inner)"
| sanitize_closest:
    "full_peers W ok pid now others cs flt st ClosestPeers r answers inner \<Longrightarrow>
     full_peers W ok pid now others cs flt st ClosestPeers (SanitizeRouter r) answers (sanitizeRouter_GetClosestPeers (su_ma W) inner)"
| dnsaddr_peers:
    "full_peers W ok pid now others cs flt st Peers r answers inner \<Longrightarrow>
     full_peers W ok pid now others cs flt st Peers (DnsAddrRouter m r) answers
       (fst (dnsAddrRouter_FindPeers (resolver W m flt) inner st))"
| dnsaddr_closest:
    "full_peers W ok pid now others cs flt st ClosestPeers r answers inner \<Longrightarrow>
     full_peers W ok pid now others cs flt st ClosestPeers (DnsAddrRouter m r) answers
       (fst (dnsAddrRouter_GetClosestPeers (resolver W m flt) inner st))"
| parallel_error:
    "length results = length rs \<Longrightarrow> length answers = length rs \<Longrightarrow>
     (\<And>i. i < length rs \<Longrightarrow> full_peers W ok pid now others cs flt st a (rs ! i) (answers ! i) (results ! i)) \<Longrightarrow>
     find_routers results = Inl err \<Longrightarrow> full_peers W ok pid now others cs flt st a (ParallelRouter rs) (concat answers) (Inl err)"
| parallel:
    "length results = length rs \<Longrightarrow> length answers = length rs \<Longrightarrow>
     (\<And>i. i < length rs \<Longrightarrow> full_peers W ok pid now others cs flt st a (rs ! i) (answers ! i) (results ! i)) \<Longrightarrow>
     find_routers results = Inr fd \<Longrightarrow> drained fd out \<Longrightarrow>
     full_peers W ok pid now others cs flt st a (ParallelRouter rs) (concat answers) (Inr out)"
| no_peers: "full_peers W ok pid now others cs flt st Peers (ComposableRouter p None i d) [] (composable_FindPeers None)"
| peers:
    "full_peers W ok pid now others cs flt st Peers q answers res \<Longrightarrow>
     full_peers W ok pid now others cs flt st Peers (ComposableRouter p (Some q) i d) answers (composable_FindPeers (Some res))"
| no_closest: "full_peers W ok pid now others cs flt st ClosestPeers (ComposableRouter p q i None) [] (composable_GetClosestPeers None)"
| closest:
    "full_peers W ok pid now others cs flt st ClosestPeers d answers res \<Longrightarrow>
     full_peers W ok pid now others cs flt st ClosestPeers (ComposableRouter p q i (Some d)) answers (composable_GetClosestPeers (Some res))"

inductive_cases full_libp2pE: "full_peers W ok pid now others cs flt st a Libp2pRouter answers res"
inductive_cases full_no_closestE: "full_peers W ok pid now others cs flt st ClosestPeers (ComposableRouter p q i None) answers res"

section \<open>The same peer\<close>

definition same_peer :: "'ma PeerRecord result \<Rightarrow> 'ma PeerRecord result \<Rightarrow> bool" where
  "same_peer v w \<longleftrightarrow> w = v \<or> (\<exists>p as. Val v = Some p \<and> w = v\<lparr>Val := Some (p\<lparr>Addrs := as\<rparr>)\<rparr>)"

lemma same_peer_refl [simp]: "same_peer v v"
  by (simp add: same_peer_def)

lemma same_peer_trans: "same_peer u v \<Longrightarrow> same_peer v w \<Longrightarrow> same_peer u w"
  unfolding same_peer_def by (elim disjE exE conjE) auto

lemma same_peer_rel: "peer_rel rel v w \<Longrightarrow> same_peer v w"
  by (auto simp: peer_rel_def same_peer_def treated_peer_def split: option.splits if_splits)

interpretation peers: carrying same_peer
  by unfold_locales (simp, rule same_peer_trans)

lemma sanitize_carries_peers: "carried same_peer it (map (sanitize_peer M) it)"
proof (rule peers.carried_map)
  show "same_peer v (sanitize_peer M v)" for v
    unfolding sanitize_peer_eq using sanitizer.rewrite_peer_step[of M v "()"] by (blast intro: same_peer_rel)
qed

lemma resolve_carries_peers: "carried same_peer it (fst (resolvePeerRecords R it st))"
proof -
  have "list_all2 (peer_rel (rewritten R)) it (fst (resolvePeerRecords R it st))"
    unfolding resolvePeerRecords_def dnsaddr_peer_eq[abs_def] by (rule dnsaddr.peers_rel)
  then show ?thesis by (intro peers.carried_all2) (rule list_all2_mono, blast, rule same_peer_rel)
qed

lemma dnsaddr_peers_eq:
  "fst (dnsAddrRouter_FindPeers R inner st) = (case inner of Inl e \<Rightarrow> Inl e | Inr it \<Rightarrow> Inr (fst (resolvePeerRecords R it st)))"
  "fst (dnsAddrRouter_GetClosestPeers R inner st) = (case inner of Inl e \<Rightarrow> Inl e | Inr it \<Rightarrow> Inr (fst (resolvePeerRecords R it st)))"
  by (simp_all add: dnsAddrRouter_FindPeers_def dnsAddrRouter_GetClosestPeers_def case_prod_beta split: sum.split)

lemma enrich_same: "same_peer v (FindPeers_enrich E cab v)"
  by (auto simp: same_peer_def FindPeers_enrich_def split: option.split)

lemma past_cache_eq:
  assumes "FindPeers_cached E pid cs = (None, cs1)"
  shows "fst (cachedRouter_FindPeers E now pid inner cs) =
    (case inner of Inl e \<Rightarrow> Inl e | Inr it \<Rightarrow> Inr (map (FindPeers_enrich E (cr_cab cs1)) it))"
  using assms by (cases inner) (simp_all add: cachedRouter_FindPeers_def FindPeers_inner_def)

section \<open>Completeness\<close>

text \<open>Of the closest peers, one without an address may be dropped under the cache, where no lookup finds any.\<close>

definition owed_peer :: "api \<Rightarrow> wrapper list \<Rightarrow> 'ma PeerRecord result \<Rightarrow> bool" where
  "owed_peer a ws v \<longleftrightarrow> a = ClosestPeers \<and> WCached \<in> set ws \<longrightarrow> Err v \<noteq> None \<or> (\<exists>r. Val v = Some r \<and> Addrs r \<noteq> [])"

lemma owed_peer_under [simp]:
  "owed_peer a (WSanitize # vs) = owed_peer a vs" "owed_peer a (WDns m # vs) = owed_peer a vs" "owed_peer Peers (WCached # vs) = owed_peer Peers vs"
  by (simp_all add: fun_eq_iff owed_peer_def)

lemma given_typed: "typed_peer v \<Longrightarrow> given (peer_to_record v) = owed_peer ClosestPeers [WCached] v"
  by (auto simp: typed_peer_def typed_rec_def given_def peer_to_record_def owed_peer_def split: option.splits)

lemma closest_given:
  assumes "list_all typed_peer it"
  shows "map record_to_peer (filter given (map peer_to_record it)) = filter (owed_peer ClosestPeers [WCached]) it"
  using assms by (induction it) (auto simp: given_typed typed_peer_def intro!: record_to_peer_inverse split: option.splits)

lemma closest_read_to_end:
  assumes "list_all typed_peer it" "slots_ok 0 others (cr_cab cs)"
    and "\<And>i res t. CallInner i res t \<in> set as \<Longrightarrow> serves_peers W Peers Libp2pRouter res"
    and "run_steps (fallback_step (su_book W) origin) (NewCacheFallbackIter (map peer_to_record it) others cs) as = Some s"
    and "fi_ret s = Some False"
  shows "carried same_peer (filter (owed_peer ClosestPeers [WCached]) it) (map record_to_peer (fi_out s))"
proof -
  have "list_all wf_source (map peer_to_record it)"
    using assms(1) by (auto simp: list_all_iff typed_wf typed_convert(1))
  moreover have "list_all wf_action as"
  proof -
    have "typed_action a" if "a \<in> set as" for a
      using assms(3) that by (cases a) (auto intro: libp2p_serves_typed)
    then show ?thesis by (intro typed_action_wf) (simp add: list_all_iff)
  qed
  ultimately have "delivery_inv (map peer_to_record it) s"
    using fallback_reachable(2)[OF assms(2)] assms(4) by blast
  then have "subseq (filter given (map peer_to_record it)) (fi_out s)"
    using assms(5) by (auto simp: delivery_inv_def)
  from subseq_map[OF this, of record_to_peer] show ?thesis
    unfolding closest_given[OF assms(1)] by (rule peers.carried_subseq)
qed

lemma full_peers_complete:
  fixes W :: "('ab, 'c, 'ma, 'env, 'cl, 'd) surroundings"
  assumes "full_peers W ok pid now others cs flt st a r answers res" "slots_ok 0 others (cr_cab cs)" "servable a r"
  shows "complete same_peer (owed_peer a) (backends a r) answers res"
  using assms(1,3)
proof induction
  case (from_cache it cs1 inner)
  then have "fst (cachedRouter_FindPeers (su_book W) now pid inner cs) = Inr it" by (simp add: cachedRouter_FindPeers_def)
  then show ?case by (simp add: complete_def delivered_def owed_peer_def peers.carried_subseq)
next
  case (past_cache answers inner cs1)
  then have "complete same_peer (owed_peer Peers) (under [WCached] (backends Peers (Libp2pRouter :: ('cl, 'ma) router))) answers inner"
    by (subst complete_under) simp_all
  from peers.complete_map[OF this peers.carried_map[OF enrich_same]] show ?case
    unfolding past_cache_eq[OF past_cache.hyps(2)] by simp
next
  case (cached_closest_error answers inner err)
  then show ?case
    by (auto elim!: full_libp2pE simp: complete_def cachedRouter_GetClosestPeers_def split: sum.splits)
next
  case (cached_closest answers inner it origin as s)
  from cached_closest.hyps(2) obtain src where src: "inner = Inr src" "it = NewCacheFallbackIter (map peer_to_record src) others cs"
    by (auto simp: cachedRouter_GetClosestPeers_def split: sum.splits)
  from cached_closest.hyps(1) obtain undef client store where "inner = libp2p_GetClosestPeers undef client store" "answers = [inner]"
    by (auto elim!: full_libp2pE)
  with src have inner: "answers = [Inr src]" "libp2p_GetClosestPeers undef client store = Inr src"
    "it = NewCacheFallbackIter (map peer_to_record src) others cs" by simp_all
  have "list_all typed_peer src"
    using typed_GetClosestPeers[of undef client store] inner(2) by (simp add: typed_answer_def)
  from closest_read_to_end[OF this assms(2) cached_closest.hyps(3) cached_closest.hyps(5)[unfolded inner(3)] cached_closest.hyps(6)]
  show ?case by (simp add: complete_def delivered_def inner(1))
next
  case (sanitize_peers r answers inner)
  then have "complete same_peer (owed_peer Peers) (under [WSanitize] (backends Peers r)) answers inner" by (simp add: complete_under)
  from peers.complete_map[OF this sanitize_carries_peers] show ?case by (simp add: sanitizeRouter_FindPeers_def)
next
  case (sanitize_closest r answers inner)
  then have "complete same_peer (owed_peer ClosestPeers) (under [WSanitize] (backends ClosestPeers r)) answers inner"
    by (simp add: complete_under)
  from peers.complete_map[OF this sanitize_carries_peers] show ?case by (simp add: sanitizeRouter_GetClosestPeers_def)
next
  case (dnsaddr_peers r answers inner m)
  then have "complete same_peer (owed_peer Peers) (under [WDns m] (backends Peers r)) answers inner" by (simp add: complete_under)
  from peers.complete_map[OF this resolve_carries_peers] show ?case by (simp add: dnsaddr_peers_eq)
next
  case (dnsaddr_closest r answers inner m)
  then have "complete same_peer (owed_peer ClosestPeers) (under [WDns m] (backends ClosestPeers r)) answers inner"
    by (simp add: complete_under)
  from peers.complete_map[OF this resolve_carries_peers] show ?case by (simp add: dnsaddr_peers_eq)
next
  case (parallel_error results rs answers a err)
  then show ?case
    using complete_find_error[of results "map (backends a) rs" answers same_peer "owed_peer a" err] by (simp add: list_all_length)
next
  case (parallel results rs answers a fd out)
  then show ?case
    using peers.complete_find[of results "map (backends a) rs" answers "owed_peer a" fd out] by (simp add: list_all_length)
qed (simp_all add: composable_FindPeers_def composable_GetClosestPeers_def peers.complete_leaf peers.complete_none)

section \<open>Every response can be read to its end\<close>

text \<open>
  A choice of what each backend answers: the peer the DHT finds, the outcome of its query for the closest
  peers with the peerstore, the delegated routers, and what the DHT finds in each background lookup.
  Under the cache a hit stands for the DHT's answer. \<open>reading_peers C t\<close> are the steps of the fallback
  iterator while its request lives, with these answers and the clock at \<open>t\<close>.
\<close>

record ('ma, 'cl) peer_choice =
  pc_found :: "go_err + 'ma AddrInfo"
  pc_undef :: bool
  pc_closest :: dht_client
  pc_peerstore :: "peer_id \<Rightarrow> 'ma list"
  pc_client :: "'cl \<Rightarrow> go_err + 'ma PeerRecord result list"
  pc_lookup :: "nat \<Rightarrow> go_err + 'ma AddrInfo"

definition reading_peers :: "('ma, 'cl) peer_choice \<Rightarrow> int \<Rightarrow> 'ma fallback_action \<Rightarrow> bool" where
  "reading_peers C t = own_action (\<lambda>i. libp2p_FindPeers (pc_lookup C i)) t"

definition dht_answer :: "('ma, 'cl) peer_choice \<Rightarrow> api \<Rightarrow> go_err + 'ma PeerRecord result list" where
  "dht_answer C a =
     (if a = Peers then libp2p_FindPeers (pc_found C) else libp2p_GetClosestPeers (pc_undef C) (pc_closest C) (pc_peerstore C))"

definition peer_answer ::
  "('ab, 'c, 'ma, 'env, 'cl, 'd) surroundings \<Rightarrow> peer_id \<Rightarrow> ('ab, 'c) cr_state \<Rightarrow> ('ma, 'cl) peer_choice \<Rightarrow> api \<Rightarrow>
     wrapper list \<times> ('cl, 'ma) router \<Rightarrow> go_err + 'ma PeerRecord result list" where
  "peer_answer W pid cs C a b =
     (case snd b of
        ClientRouter c \<Rightarrow> pc_client C c
      | _ \<Rightarrow>
          if a = Peers \<and> WCached \<in> set (fst b)
          then (case fst (FindPeers_cached (su_book W) pid cs) of Some it \<Rightarrow> Inr it | None \<Rightarrow> dht_answer C a)
          else dht_answer C a)"

lemma peer_answer_simps [simp]:
  "peer_answer W pid cs C a (WSanitize # vs, b) = peer_answer W pid cs C a (vs, b)"
  "peer_answer W pid cs C a (WDns m # vs, b) = peer_answer W pid cs C a (vs, b)"
  "peer_answer W pid cs C ClosestPeers (vs, Libp2pRouter) = dht_answer C ClosestPeers"
  "peer_answer W pid cs C a ([], Libp2pRouter) = dht_answer C a"
  "peer_answer W pid cs C a (vs, ClientRouter c) = pc_client C c"
  by (auto simp: peer_answer_def)

lemma closest_readable:
  assumes "slots_ok 0 others (cr_cab cs)"
  shows "\<exists>res. full_peers W (reading_peers C t) pid now others cs flt st ClosestPeers (CachedRouter Libp2pRouter) [dht_answer C ClosestPeers] res"
proof (cases "dht_answer C ClosestPeers")
  case (Inl err)
  then have "full_peers W (reading_peers C t) pid now others cs flt st ClosestPeers Libp2pRouter [Inl err] (Inl err)"
    by (auto simp: dht_answer_def intro!: full_peers.libp2p_closest[OF sym])
  from full_peers.cached_closest_error[OF this, of err] Inl show ?thesis by (auto simp: cachedRouter_GetClosestPeers_def)
next
  case (Inr src)
  define it where "it = NewCacheFallbackIter (map peer_to_record src) others cs"
  have dht: "full_peers W (reading_peers C t) pid now others cs flt st ClosestPeers Libp2pRouter [Inr src] (Inr src)"
    using Inr by (auto simp: dht_answer_def intro!: full_peers.libp2p_closest[OF sym])
  have "list_all typed_peer src"
    using Inr typed_GetClosestPeers[of "pc_undef C" "pc_closest C" "pc_peerstore C"] by (simp add: dht_answer_def typed_answer_def)
  then have wf: "list_all wf_source (map peer_to_record src)" by (auto simp: list_all_iff typed_wf typed_convert(1))
  then have "delivery_inv (map peer_to_record src) it"
    by (auto simp: it_def delivery_inv_def NewCacheFallbackIter_def intro: exI[of _ "[]"])
  moreover have "fi_ret it \<noteq> Some False" by (simp add: it_def NewCacheFallbackIter_def)
  ultimately obtain as s where as: "list_all (reading_peers C t) as"
    and run: "run_steps (fallback_step (su_book W) addrQueryOriginClosestPeers) it as = Some s" "fi_ret s = Some False"
    unfolding reading_peers_def
    using fallback_drains[OF fallback_inv_init[OF assms wf, folded it_def] _ _ lookup_wf] by blast
  have "serves_peers W Peers Libp2pRouter res" if "CallInner i res now \<in> set as" for i res now
    by (rule own_lookup_serves[OF as[unfolded reading_peers_def] that])
  moreover have "cachedRouter_GetClosestPeers (Inr src) others cs = Inr (it, addrQueryOriginClosestPeers)"
    by (simp add: cachedRouter_GetClosestPeers_def it_def)
  ultimately show ?thesis
    using full_peers.cached_closest[where ok = "reading_peers C t", OF dht _ _ as run] Inr by auto
qed

lemma cached_peers_readable:
  "\<exists>res. full_peers W (reading_peers C t) pid now others cs flt st Peers (CachedRouter Libp2pRouter)
     [peer_answer W pid cs C Peers ([WCached], Libp2pRouter)] res"
proof (cases "FindPeers_cached (su_book W) pid cs")
  case (Pair hit cs1)
  show ?thesis
  proof (cases hit)
    case None
    with full_peers.past_cache[where ok = "reading_peers C t", OF full_peers.libp2p_peers, of W pid cs cs1 now others flt st "pc_found C"] Pair
    show ?thesis by (auto simp: dht_answer_def peer_answer_def)
  next
    case (Some it)
    with full_peers.from_cache[where ok = "reading_peers C t", of W pid cs it cs1 now others flt st "Inr []"] Pair show ?thesis by (auto simp: peer_answer_def)
  qed
qed

lemma dht_readable:
  "\<exists>res. full_peers W (reading_peers C t) pid now others cs flt st Peers Libp2pRouter [dht_answer C Peers] res"
  "\<exists>res. full_peers W (reading_peers C t) pid now others cs flt st ClosestPeers Libp2pRouter [dht_answer C ClosestPeers] res"
  using full_peers.libp2p_peers full_peers.libp2p_closest[OF refl] by (fastforce simp: dht_answer_def)+

lemma client_readable:
  "su_client_peers W a c (pc_client C c) \<Longrightarrow> \<exists>res. full_peers W (reading_peers C t) pid now others cs flt st a (ClientRouter c) [pc_client C c] res"
  by (rule exI) (rule full_peers.client)

lemma peers_readable:
  assumes "slots_ok 0 others (cr_cab cs)" "\<And>c. su_client_peers W a c (pc_client C c)" "servable a r" "a = Peers \<or> a = ClosestPeers"
  shows "\<exists>res. full_peers W (reading_peers C t) pid now others cs flt st a r (map (peer_answer W pid cs C a) (backends a r)) res"
  using assms(2-)
proof (induction a r rule: servable.induct)
  case (1 a r)
  then show ?case
    using closest_readable[OF assms(1), of W C t pid now flt st] cached_peers_readable[of W C t pid now others cs flt st]
    by auto
next
  case (2 a r)
  then show ?case
    by (auto simp: under_def comp_def case_prod_beta intro: full_peers.sanitize_peers full_peers.sanitize_closest)
next
  case (3 a m r)
  then show ?case
    by (auto simp: under_def comp_def case_prod_beta intro: full_peers.dnsaddr_peers full_peers.dnsaddr_closest)
next
  case (4 a rs)
  let ?ans = "\<lambda>r. map (peer_answer W pid cs C a) (backends a r)"
  from 4 have "\<forall>i. \<exists>res. i < length rs \<longrightarrow> full_peers W (reading_peers C t) pid now others cs flt st a (rs ! i) (?ans (rs ! i)) res"
    by (auto simp: list_all_iff)
  then obtain f where f: "\<And>i. i < length rs \<Longrightarrow> full_peers W (reading_peers C t) pid now others cs flt st a (rs ! i) (?ans (rs ! i)) (f i)"
    by metis
  define results where "results = map f [0..<length rs]"
  have each: "full_peers W (reading_peers C t) pid now others cs flt st a (rs ! i) (map ?ans rs ! i) (results ! i)" if "i < length rs" for i
    using f[OF that] that by (simp add: results_def)
  have len: "length results = length rs" "length (map ?ans rs) = length rs" by (simp_all add: results_def)
  have ans: "map (peer_answer W pid cs C a) (backends a (ParallelRouter rs)) = concat (map ?ans rs)"
    by (simp add: map_concat comp_def)
  show ?case
  proof (cases "find_routers results")
    case (Inl err)
    from full_peers.parallel_error[OF len each this] show ?thesis unfolding ans by auto
  next
    case (Inr fd)
    with drained_exists obtain out where "drained fd out" by blast
    from full_peers.parallel[OF len each Inr this] show ?thesis unfolding ans by auto
  qed
next
  case (5 a p q i d)
  show ?case
  proof (cases "a = Peers")
    case True
    show ?thesis
    proof (cases q)
      case None
      then show ?thesis using full_peers.no_peers[of W "reading_peers C t" pid now others cs flt st p i d] True by auto
    next
      case (Some r)
      with 5 True obtain res where "full_peers W (reading_peers C t) pid now others cs flt st Peers r (map (peer_answer W pid cs C Peers) (backends Peers r)) res"
        by auto
      from full_peers.peers[OF this, of p i d] Some True show ?thesis by auto
    qed
  next
    case False
    with 5 obtain r where a: "a = ClosestPeers" "d = Some r" by (auto split: option.splits)
    with 5 obtain res where
      "full_peers W (reading_peers C t) pid now others cs flt st ClosestPeers r (map (peer_answer W pid cs C ClosestPeers) (backends ClosestPeers r)) res"
      by auto
    from full_peers.closest[OF this, of p q i] a show ?thesis by auto
  qed
next
  case "7_1"
  then show ?case using dht_readable by auto
next
  case "7_2"
  then show ?case by (simp add: client_readable)
qed auto

section \<open>Properties\<close>

text \<open>
  C6. No peer is lost. In a response of a started server to \<open>FindPeers\<close> or \<open>GetClosestPeers\<close> that has been
  read to its end, every result of every backend that answered arrives, in that backend's order, with at
  most its addresses rewritten; only of the closest peers may one without an address be missing, and
  only where the address book is on. An error means that there are backends and all of them failed, with
  all their failures in it, or that \<open>GetClosestPeers\<close> was asked of a server without a DHT, which is not
  supported. This holds in every interleaving (\<open>ok\<close> is any set of steps).
\<close>

theorem no_peer_lost:
  assumes "start S cfg = Inr sv" and "slots_ok 0 others (cr_cab cs)" and "a = Peers \<or> a = ClosestPeers"
    and "full_peers W ok pid now others cs flt st a (sv_router sv) answers res"
  shows "case res of
      Inl e \<Rightarrow> (a = ClosestPeers \<and> backends a (sv_router sv) = [] \<and> e = ErrNotSupported) \<or>
        backends a (sv_router sv) \<noteq> [] \<and> list_all (\<lambda>r. \<exists>x. r = Inl x) answers \<and> err_leaves e = concat (map err_leaves (errs answers))
    | Inr out \<Rightarrow>
        list_all2 (\<lambda>b answer. \<forall>src. answer = Inr src \<longrightarrow>
            list_emb same_peer
              (filter (\<lambda>v. a = ClosestPeers \<and> WCached \<in> set (fst b) \<longrightarrow> Err v \<noteq> None \<or> (\<exists>r. Val v = Some r \<and> Addrs r \<noteq> [])) src) out)
          (backends a (sv_router sv)) answers \<and>
        (backends a (sv_router sv) = [] \<or> (\<exists>its. Inr its \<in> set answers))"
proof (cases "servable a (sv_router sv)")
  case True
  have complete: "complete same_peer (owed_peer a) (backends a (sv_router sv)) answers res"
    by (rule full_peers_complete[OF assms(4,2) True])
  show ?thesis
  proof (cases res)
    case (Inl e)
    with complete show ?thesis by (simp add: complete_def oks_Nil_iff list_all_iff)
  next
    case (Inr out)
    have d: "delivered same_peer (owed_peer a) out = (\<lambda>b answer. \<forall>src. answer = Inr src \<longrightarrow>
        list_emb same_peer
          (filter (\<lambda>v. a = ClosestPeers \<and> WCached \<in> set (fst b) \<longrightarrow> Err v \<noteq> None \<or> (\<exists>r. Val v = Some r \<and> Addrs r \<noteq> [])) src) out)"
      by (simp add: fun_eq_iff delivered_def carried_def owed_peer_def[abs_def])
    from complete Inr have "list_all2 (delivered same_peer (owed_peer a) out) (backends a (sv_router sv)) answers"
      "backends a (sv_router sv) = [] \<or> oks answers \<noteq> []" by (simp_all add: complete_def)
    with some_answer show ?thesis unfolding Inr sum.case d by blast
  qed
next
  case False
  with start_servable[OF assms(1)] assms(3) obtain p q i where
    a: "a = ClosestPeers" "backends a (sv_router sv) = []" "sv_router sv = ComposableRouter p q i None" by blast
  from assms(4)[unfolded a(1,3)] have "res = Inl ErrNotSupported"
    by (auto elim!: full_no_closestE simp: composable_GetClosestPeers_def)
  with a show ?thesis by simp
qed

text \<open>
  C7. Peer responses end while their request lives. Whatever the DHT and the delegated routers answer,
  whatever the DHT finds in each background lookup, at any time and with the address book in any state
  other requests may leave it in, the response of a started server to \<open>FindPeers\<close> or \<open>GetClosestPeers\<close> can
  be read to its end, without the request's context ending, without closing anything and without a step
  of another request.
\<close>

theorem peer_responses_end:
  assumes "start S cfg = Inr sv" and "slots_ok 0 others (cr_cab cs)" and "a = Peers \<or> a = ClosestPeers"
    and "\<And>c. su_client_peers W a c (pc_client C c)"
  shows "\<exists>res. full_peers W (own_action (\<lambda>i. libp2p_FindPeers (pc_lookup C i)) t) pid now others cs flt st a (sv_router sv)
    (map (peer_answer W pid cs C a) (backends a (sv_router sv))) res"
proof (cases "servable a (sv_router sv)")
  case True
  show ?thesis by (rule peers_readable[OF assms(2,4) True assms(3), unfolded reading_peers_def])
next
  case False
  with start_servable[OF assms(1)] assms(3) obtain p q i where
    "a = ClosestPeers" "backends a (sv_router sv) = []" "sv_router sv = ComposableRouter p q i None" by blast
  then show ?thesis using full_peers.no_closest[of W _ pid now others cs flt st p q i] by auto
qed

definition sample_peer_choice :: "(comps, string) peer_choice" where
  "sample_peer_choice = \<lparr>pc_found = Inr \<lparr>ai_ID = ''P'', ai_Addrs = [sample_lan, sample_ip]\<rparr>, pc_undef = False,
     pc_closest = IpfsDHT (Inr []), pc_peerstore = (\<lambda>p. []), pc_client = (\<lambda>c. Inr []), pc_lookup = (\<lambda>i. Inl ErrNotFound)\<rparr>"

lemma peer_responses_end_witness:
  "\<exists>res. full_peers sample_surroundings (own_action (\<lambda>i. libp2p_FindPeers (pc_lookup sample_peer_choice i)) 9) ''P'' 0 0 sample_cr None
     (sample_dns_state Map.empty) Peers (sv_router sample_server)
     (map (peer_answer sample_surroundings ''P'' sample_cr sample_peer_choice Peers) (backends Peers (sv_router sample_server))) res"
  by (rule peer_responses_end[OF sample_server early_ok(1)]) (simp_all add: sample_surroundings_def sample_peer_choice_def)

text \<open>The address book is empty, the DHT finds the peer: the response holds it.\<close>

lemma sample_peer_backends: "backends Peers (sv_router sample_server) = [([WDns ''append'', WSanitize, WCached], Libp2pRouter)]"
  using sample_peers_router by auto

lemma no_peer_lost_witness:
  "\<exists>out w. full_peers sample_surroundings (reading_peers sample_peer_choice 9) ''P'' 0 0 sample_cr None (sample_dns_state Map.empty) Peers (sv_router sample_server)
      (map (peer_answer sample_surroundings ''P'' sample_cr sample_peer_choice Peers) (backends Peers (sv_router sample_server))) (Inr out) \<and>
    w \<in> set out \<and> (\<exists>r. Val w = Some r \<and> ID r = Some ''P'')"
proof -
  let ?v = "ok_result (record_of_info \<lparr>ai_ID = ''P'', ai_Addrs = [sample_lan, sample_ip]\<rparr>)"
  let ?answers = "map (peer_answer sample_surroundings ''P'' sample_cr sample_peer_choice Peers) (backends Peers (sv_router sample_server))"
  let ?full = "full_peers sample_surroundings (reading_peers sample_peer_choice 9) ''P'' 0 0 sample_cr None (sample_dns_state Map.empty) Peers (sv_router sample_server) ?answers"
  have "fst (FindPeers_cached sample_book_env ''P'' sample_cr) = None"
    by (simp add: FindPeers_cached_def withAddrsFromCache_def GetCachedAddrs_def count_lookup_def case_prod_beta Let_def env_defs)
  then have a: "?answers = [Inr [?v]]"
    by (simp add: sample_peer_backends peer_answer_def sample_surroundings_def dht_answer_def sample_peer_choice_def libp2p_FindPeers_def)
  have "\<exists>res. ?full res"
    by (rule peers_readable[OF early_ok(1) _ start_servable(2)[OF sample_server]]) (simp_all add: sample_surroundings_def sample_peer_choice_def)
  then obtain res where res: "?full res" ..
  note spec = no_peer_lost[OF sample_server early_ok(1) _ res[unfolded a], unfolded sample_peer_backends]
  from spec obtain out where out: "res = Inr out" by (cases res) auto
  with spec have "list_emb same_peer [?v] out" by simp
  then obtain w where w: "w \<in> set out" "same_peer ?v w" by (rule list_emb_set[of _ _ _ ?v]) auto
  then have "\<exists>r. Val w = Some r \<and> ID r = Some ''P''" by (auto simp: same_peer_def record_of_info_def)
  with w(1) res out show ?thesis by blast
qed

end
