(* ===== verification/Spec2Isabelle.thy ===== *)
theory Spec2Isabelle
  imports DnsCache DnsMode Backoff Probing Rewriting ManyIter FallbackSpec Routers Endpoints HttpBlock Server Client
    DhtTypes PeerPaths Serve DhtClient AutoConf Limits Flags Host Lifecycle Diagnostics DnsShared IpnsRace ServeIpns Delivery PeerDelivery
begin

text \<open>
  someguy, a Delegated Routing V1 server: a verification of its own logic.

  The program. A request for \<open>/routing/v1\<close> reaches a \<open>composableRouter\<close> (server_routers.go), whose parts
  are trees of routers that \<open>start\<close> (server.go) assembles: delegated HTTP routers, the DHT, and block
  routers over HTTP gateways, merged by \<open>parallelRouter\<close> and its \<open>manyIter\<close>; around the DHT the
  \<open>cachedRouter\<close> (server_cached_router.go), which fills in addresses from the \<open>cachedAddrBook\<close>
  (cached_addr_book.go) and looks up the rest in the background, and the \<open>sanitizeRouter\<close>, which drops
  private addresses; around everything the \<open>dnsAddrRouter\<close>, which resolves \<open>/dnsaddr\<close> addresses with the
  \<open>dnsAddrResolver\<close> (dnsaddr.go). The address book is kept current by a loop over libp2p events and by
  periodic probes. The endpoints are configured by autoconf.go and server_delegated_routing.go; the same
  program is a client, \<open>someguy ask\<close> (main.go, client.go).

  The theories, in the order the code builds on itself:
  \<^item> \<open>Prelude\<close>: Go strings, errors, iterator results, comparison sorting (locale \<open>comparator\<close>), the LRU
    cache as a parameter, step functions and their invariants (locale \<open>step_invariant\<close>).
  \<^item> \<open>Multiaddr\<close>: the multiaddr library as a parameter; the address order and the private-address filter
    of server_routers.go, the relay and \<open>/dnsaddr\<close> predicates of cached_addr_book.go and dnsaddr.go.
  \<^item> \<open>DnsAddr\<close>, \<open>DnsCache\<close>: \<open>dnsAddrResolver\<close> and \<open>dnsAddrBudget\<close>. The state \<open>dns_state\<close> holds the budget, the
    room, the cache, the queries sent and the metrics; the environment \<open>dns_env\<close> is consulted at every
    observable step, and there other requests may change the cache. Bounds, order, completeness, what
    the cache serves.
  \<^item> \<open>DnsFlight\<close>, \<open>DnsShared\<close>: the same \<open>lookup\<close> and \<open>resolve\<close> in any number of requests at once, over one
    cache and one \<open>singleflight.Group\<close>, as a step function: what the requests share and what each may
    spend, that only answers of DNS are cached, that a query outlives the requests that asked for it, and
    that every lookup made there is one \<open>DnsAddr\<close> speaks of (\<open>lookups_are_sequential\<close>). A query carries a
    context (\<open>go_context\<close>), and could be cancelled once that is done; \<open>context.WithoutCancel\<close> is why none is.
  \<^item> \<open>DnsMode\<close>: the resolution modes and the \<open>filter-addrs\<close> middleware.
  \<^item> \<open>AddrBook\<close>, \<open>Backoff\<close>: the state of \<open>cachedAddrBook\<close> and its operations, each summed up by its effect
    on the TTL of every address; the failure counter and the back-off with \<open>int64\<close> wrap-around.
    Attempts on a peer (\<open>attempt_step\<close>) ask the gate and record failures in separate steps that interleave.
  \<^item> \<open>Probing\<close>: \<open>background\<close> and \<open>probePeers\<close> as one step function over events, any number of probe runs
    (a list; that there is at most one is proved), their walks and semaphores of 20 dials, and calls by
    routers.
  \<^item> \<open>Rewriting\<close>: \<open>sanitizeRouter\<close> and \<open>dnsAddrRouter\<close> as two instances of the locale \<open>addr_rewriter\<close>.
  \<^item> \<open>ManyIter\<close>: \<open>manyIter\<close> as a step function over its goroutines.
  \<^item> \<open>CachedRouter\<close>, \<open>FallbackSpec\<close>: \<open>cachedRouter\<close> and \<open>cacheFallbackIter\<close>: the consumer, its background
    lookups, the slots, the result channel, the context, and other requests, as one step function, and
    what holds of every run of it.
  \<^item> \<open>Routers\<close>: \<open>composableRouter\<close>, \<open>parallelRouter\<close> with \<open>find\<close> and the IPNS race, \<open>libp2pRouter\<close>,
    \<open>bundledDHT\<close>.
  \<^item> \<open>IpnsRace\<close>: the goroutines of \<open>GetIPNS\<close> and \<open>PutIPNS\<close> of \<open>parallelRouter\<close> as step functions, which refine
    the loops of \<open>Routers\<close>; they can always return and leak nothing. Expiry (\<open>past_eol\<close>) is at the time an
    answer was received.
  \<^item> \<open>Endpoints\<close>, \<open>HttpBlock\<close>, \<open>Server\<close>: endpoint URLs, one client per URL, the gateway router, and \<open>start\<close>
    up to the handler: which backends stand behind an endpoint and behind which wrappers.
  \<^item> \<open>DhtTypes\<close>: the typing of results. What \<open>libp2pRouter\<close> yields is typed, \<open>cachedRouter\<close> keeps it so
    in every interleaving; so over the DHT the well-formedness that \<open>FallbackSpec\<close> asks for always holds.
  \<^item> \<open>PeerPaths\<close>: the record and the peer versions of the rewriting routers agree, and the detour of
    \<open>GetClosestPeers\<close> through records gives the peers back.
  \<^item> \<open>Serve\<close>: the composition. The relations \<open>serves_providers\<close> and \<open>serves_peers\<close> give the trees of
    \<open>Server.router\<close> their meaning by the operations of \<open>Rewriting\<close>, \<open>CachedRouter\<close>, \<open>Routers\<close>, \<open>ManyIter\<close>
    and \<open>HttpBlock\<close>; on them, no answer of a started server shows a private address.
  \<^item> \<open>Carrying\<close>, \<open>Delivery\<close>, \<open>PeerDelivery\<close>: on the same trees, a response read to its end holds what the
    backends yielded, and it can always be read to its end. The locale \<open>carrying\<close> has what \<open>find\<close> and the
    merge keep of results of any kind, and is interpreted for provider records and for peers; the end
    comes from the drain lemmas of \<open>ManyIter\<close> and \<open>FallbackSpec\<close>, restricted to the steps of the response
    itself (\<open>own_action\<close>): its context does not end, and no other request has to move.
  \<^item> \<open>ServeIpns\<close>: where the IPNS records of a started server come from and go to.
  \<^item> \<open>DhtClient\<close>, \<open>AutoConf\<close>: the two clients of \<open>bundledDHT\<close> (server_dht.go), the autoconf client and the
    bootstrap peers (autoconf.go).
  \<^item> \<open>Limits\<close>, \<open>Flags\<close>, \<open>Host\<close>: the limits of rcmgr.go and internal/fd with their integer conversions, the
    flags of main.go with their defaults, and \<open>newHost\<close> over both.
  \<^item> \<open>Lifecycle\<close>: \<open>init\<close>, the chain of HTTP handlers and the routes, and the end of \<open>start\<close>: serving and shutdown
    as a step function over two goroutines, deferred calls.
  \<^item> \<open>Diagnostics\<close>: the sampler of tracing.go and the version of version.go.
  \<^item> \<open>Client\<close>: the \<open>ask\<close> commands.

  Conventions. A struct is a record with the fields of the source, an error that may be nil a \<open>go_err
  option\<close>, a call that may fail a sum. Messages of errors are shortened to their constant text, log lines
  are left out, and so are metrics, except those a theorem is about. An iterator is the list of what it
  yields; where the code reads it lazily with effects, the effects are threaded by \<open>map_state\<close>, whose
  prefix lemma covers a client that stops early. Concurrency is a step function whose actions come in
  any order: a theorem about all runs is about all interleavings of the modelled steps. A step may stand
  for statements of one goroutine that take no common lock, as taking a slot and moving its gauge, or one
  pass of \<open>Next\<close> over a source value; the theories say where. Liveness is stated as the existence of a
  continuation from every reachable state, by the component's own steps.

  Bounds and fuel. The recursion of \<open>expand\<close> is on the code's own depth argument, 4; nothing else there
  needs fuel. \<open>read_chan\<close> in \<open>Routers\<close> takes fuel for the values a channel holds. All other loops are
  structural. Integers are kept at their width where the code can overflow: the failure counter is a
  \<open>64 word\<close> and durations wrap like \<open>int64\<close>.

  Parameters, with what is assumed of them: the LRU cache (\<open>lru_lawful\<close>), the libp2p address book
  (\<open>addrbook_lawful\<close>: its documented TTL arithmetic), the resource manager (\<open>rcmgr_lawful\<close>: a limit that
  is set survives completion), the singleflight group (\<open>flight_lawful\<close>: one run at a time for a key, calls
  meanwhile share its result), the samplers of OpenTelemetry (\<open>samplers_documented\<close>), the middlewares of
  other packages (\<open>hands_on\<close>), the command line library (\<open>holds_flag\<close>), multiaddrs (no laws, except in
  the theorems that name one, as that the binary form tells addresses apart), DNS, the clock, the DHT
  clients, the boxo HTTP client, the autoconf and ipns packages, URL and IP parsing. Every law is shown
  satisfiable by the instance the witnesses use.

  Not modelled: the HTTP server and its routing API around the routers (boxo, to which \<open>start\<close> passes the
  limits on records and the timeout), the registration of metrics and the page that shows them, log
  output and usage texts, and what the libraries named above do inside. The answers of \<open>Serve\<close> are
  lists of what has been read; that the wrapper reads them lazily shows only in the effects of the
  wrapper's own steps.

  Where the code and its comments part: \<open>early_lookup_result_is_lost\<close> (a found provider is dropped),
  \<open>requests_are_dispatched\<close> (only the two tracing headers are removed, no cache skipping header),
  \<open>served_PutIPNS\<close> (publishing succeeds where nothing is stored), \<open>late_miss_queries_again\<close> (a second query
  for a cached name),
  \<open>backoff_schedule\<close> (overflow at the 23rd failure), \<open>identified_peer_is_due\<close> (the documented probe
  threshold), \<open>self_reference_fans_out\<close> (work that the room does not bound),
  \<open>exhausted_iter_keeps_sources_open\<close>, \<open>trailing_slash_keeps_path\<close>, \<open>ask_endpoint_spec\<close>, \<open>start_end\<close> (the
  tracer is shut down with a context that is done), \<open>unlimited_descriptors_count_as_none\<close>,
  \<open>sampling_decision\<close> (requests with a \<open>Traceparent\<close> are not always sampled), \<open>trailing_slash_doubles\<close>
  and \<open>buildVersion_panics\<close>.

  What remains to be done: a bound on the time that resolution adds to a response; the metrics of the
  probes.
\<close>

end
